(* ===== verification/Prelude.thy ===== *)
theory Prelude
  imports Main "HOL-Library.Word" "HOL-Library.Monad_Syntax"
begin

unbundle bit_operations_syntax

text \<open>
  Shared vocabulary of the Avaria development.

  Integers. Register contents, on-disk and on-wire fields and bit masks are words of
  their width (\<open>u8\<close>, \<open>u16\<close>, \<open>u32\<close>, \<open>u64\<close>). A Rust \<open>usize\<close> that is used for sizes,
  indices and addresses is a natural number, and every operation on it that can leave the
  64-bit range is written through \<open>usz\<close>, \<open>shl64\<close> and \<open>shr64\<close>, which wrap the way
  the release build does (the Makefile builds with \<open>cargo build --release\<close>, where arithmetic
  wraps and shift amounts are taken modulo the width).

  Failure. A Rust panic (index out of range, slice out of range, division by zero,
  \<open>unwrap\<close> of \<open>None\<close>) never returns, the profile is \<open>panic = "abort"\<close>; a function
  that can panic has result type \<open>'a option\<close> at the outside and \<open>None\<close> stands for the
  panic. A Rust \<open>Option\<close> result is an inner \<open>option\<close>.

  Loops. \<open>first_from\<close> is the search loop \<open>for i in lo..hi { if p(i) { return Some(i) } } None\<close>
  that the kernel writes in a dozen places.
\<close>

section \<open>Integers\<close>

type_synonym u8 = "8 word"
type_synonym u16 = "16 word"
type_synonym u32 = "32 word"
type_synonym u64 = "64 word"
type_synonym usize = nat

definition usz :: "nat \<Rightarrow> usize" where
  "usz n = n mod 2 ^ 64"

definition shl64 :: "usize \<Rightarrow> usize \<Rightarrow> usize" where
  "shl64 a n = usz (a * 2 ^ (n mod 64))"

definition shr64 :: "usize \<Rightarrow> usize \<Rightarrow> usize" where
  "shr64 a n = a div 2 ^ (n mod 64)"

lemma usz_id [simp]: "n < 2 ^ 64 \<Longrightarrow> usz n = n"
  by (simp add: usz_def)

lemma usz_less [simp]: "usz n < 2 ^ 64"
  by (simp add: usz_def)

lemma usz_le: "usz n \<le> n"
  by (simp add: usz_def)

lemma pow2_less_64: "n < 64 \<Longrightarrow> (2::nat) ^ n < 2 ^ 64"
  by (rule power_strict_increasing) auto

lemma shl64_one [simp]: "n < 64 \<Longrightarrow> shl64 (Suc 0) n = 2 ^ n"
  using pow2_less_64 [of n] by (simp add: shl64_def)

lemma shr64_small: "n < 64 \<Longrightarrow> shr64 a n = a div 2 ^ n"
  by (simp add: shr64_def)

lemma shr64_0 [simp]: "shr64 a 0 = a"
  by (simp add: shr64_def)

lemma shl64_0 [simp]: "a < 2 ^ 64 \<Longrightarrow> shl64 a 0 = a"
  by (simp add: shl64_def)

text \<open>Reading the low bits, a field, or a truncation of a word as a number.\<close>

lemma unat_and_low: "mask n = m \<Longrightarrow> unat ((w :: 'a::len word) AND m) = unat w mod 2 ^ n"
  by (metis take_bit_eq_mask take_bit_eq_mod unsigned_take_bit_eq)

lemma unat_drop: "unat (drop_bit n (w :: 'a::len word)) = unat w div 2 ^ n"
  unfolding unat_drop_bit_eq by (rule drop_bit_eq_div)

lemma unat_trunc: "unat (ucast (w :: 'a::len word) :: 'b::len word) = unat w mod 2 ^ LENGTH('b)"
  by (simp add: unsigned_ucast_eq take_bit_eq_mod)

lemma unat_of_usz: "n < 2 ^ 64 \<Longrightarrow> unat (of_nat n :: u64) = n"
  by (simp add: unsigned_of_nat take_bit_eq_mod)

section \<open>Bytes in little-endian order\<close>

text \<open>\<open>to_le_bytes\<close> and \<open>from_le_bytes\<close>; the processor's own byte order.\<close>

primrec to_le :: "nat \<Rightarrow> 'a::len word \<Rightarrow> u8 list" where
  "to_le 0 w = []"
| "to_le (Suc n) w = ucast w # to_le n (drop_bit 8 w)"

fun le_value :: "u8 list \<Rightarrow> nat" where
  "le_value [] = 0"
| "le_value (b # bs) = unat b + 256 * le_value bs"

definition from_le :: "u8 list \<Rightarrow> 'a::len word" where
  "from_le bs = of_nat (le_value bs)"

lemma length_to_le [simp]: "length (to_le n w) = n"
  by (induction n arbitrary: w) simp_all

lemma le_value_to_le: "le_value (to_le n w) = unat w mod 256 ^ n"
proof (induction n arbitrary: w)
  case (Suc n)
  have "unat w mod 256 + 256 * (unat w div 256 mod 256 ^ n) = unat w mod (256 * 256 ^ n)"
    by (simp add: mod_mult2_eq)
  then show ?case using Suc.IH [of "drop_bit 8 w"] by (simp add: unat_trunc unat_drop)
qed simp

lemma le_value_less: "le_value bs < 256 ^ length bs"
proof (induction bs)
  case (Cons b bs)
  have "unat b < 256" using unsigned_less [where 'a = nat, of b] by simp
  with Cons show ?case by simp
qed simp

lemma from_to_le:
  assumes "8 * n = LENGTH('a::len)" shows "from_le (to_le n (w :: 'a word)) = w"
proof -
  have "(256 :: nat) ^ n = 2 ^ LENGTH('a)" by (simp add: power_mult flip: assms)
  then have "unat w mod 256 ^ n = unat w" by simp
  then show ?thesis by (simp add: from_le_def le_value_to_le)
qed

section \<open>Slices\<close>

text \<open>\<open>&xs[lo..hi]\<close>; \<open>None\<close> is the range panic.\<close>

definition slice :: "'a list \<Rightarrow> usize \<Rightarrow> usize \<Rightarrow> 'a list option" where
  "slice xs lo hi = (if lo \<le> hi \<and> hi \<le> length xs then Some (take (hi - lo) (drop lo xs)) else None)"

section \<open>The search loop\<close>

fun first_from :: "(nat \<Rightarrow> bool) \<Rightarrow> nat \<Rightarrow> nat \<Rightarrow> nat option" where
  "first_from p i 0 = None"
| "first_from p i (Suc n) = (if p i then Some i else first_from p (Suc i) n)"

lemma first_from_numeral:
  "first_from p i (numeral k) =
     (if p i then Some i else first_from p (Suc i) (pred_numeral k))"
  by (simp add: numeral_eq_Suc)

lemma first_from_Some:
  "first_from p i n = Some j \<longleftrightarrow> i \<le> j \<and> j < i + n \<and> p j \<and> (\<forall>k. i \<le> k \<and> k < j \<longrightarrow> \<not> p k)"
proof (induction p i n rule: first_from.induct)
  case (1 p i)
  then show ?case by simp
next
  case (2 p i n)
  show ?case
  proof (cases "p i")
    case True
    then show ?thesis by (auto simp: le_less)
  next
    case False
    with 2 have "first_from p i (Suc n) = Some j \<longleftrightarrow>
        Suc i \<le> j \<and> j < Suc i + n \<and> p j \<and> (\<forall>k. Suc i \<le> k \<and> k < j \<longrightarrow> \<not> p k)"
      by simp
    also have "\<dots> \<longleftrightarrow> i \<le> j \<and> j < i + Suc n \<and> p j \<and> (\<forall>k. i \<le> k \<and> k < j \<longrightarrow> \<not> p k)"
      using False by (metis Suc_le_eq add_Suc_right add_Suc le_less)
    finally show ?thesis .
  qed
qed

lemma first_from_None: "first_from p i n = None \<longleftrightarrow> (\<forall>k. i \<le> k \<and> k < i + n \<longrightarrow> \<not> p k)"
proof (induction p i n rule: first_from.induct)
  case (2 p i n)
  then show ?case
    by (auto simp: not_less_eq_eq) (metis Suc_le_eq le_neq_implies_less)+
qed auto

lemma first_from_SomeD:
  assumes "first_from p i n = Some j"
  shows "i \<le> j" "j < i + n" "p j" "\<And>k. i \<le> k \<Longrightarrow> k < j \<Longrightarrow> \<not> p k"
  using assms by (auto simp: first_from_Some)

lemma first_from_least:
  "i \<le> j \<Longrightarrow> j < i + n \<Longrightarrow> p j \<Longrightarrow> (\<And>k. i \<le> k \<Longrightarrow> k < j \<Longrightarrow> \<not> p k) \<Longrightarrow> first_from p i n = Some j"
  by (auto simp: first_from_Some)

end
