(* ===== verification/Descriptors.thy ===== *)
theory Descriptors
  imports Prelude
begin

text \<open>
  Segment descriptors and the task state segment (\<open>src/kern/arch/x86_64/gdt.rs\<close>,
  \<open>tss.rs\<close>). The packed structures are records with the code's fields; what the processor reads
  out of them is given by the decoding functions \<open>desc_base\<close>, \<open>desc_limit\<close> and friends, and
  the encoders are proved against those. Loading the registers
  (\<open>lgdt\<close>, \<open>ltr\<close>) is the business of \<open>Boot_Tables\<close>.
\<close>

section \<open>The global descriptor table\<close>

record gdt_entry =
  ge_limit_low :: u16
  ge_base_low :: u16
  ge_base_mid :: u8
  ge_access :: u8
  ge_granularity :: u8
  ge_base_high :: u8

definition gdt_entry_new :: "u32 \<Rightarrow> u32 \<Rightarrow> u8 \<Rightarrow> u8 \<Rightarrow> gdt_entry" where
  "gdt_entry_new base limit access flags =
     \<lparr>ge_limit_low = ucast (limit AND 0xFFFF),
      ge_base_low = ucast (base AND 0xFFFF),
      ge_base_mid = ucast (drop_bit 16 base AND 0xFF),
      ge_access = access,
      ge_granularity = ucast (drop_bit 16 limit AND 0x0F) OR push_bit 4 flags,
      ge_base_high = ucast (drop_bit 24 base AND 0xFF)\<rparr>"

definition gdt_null :: gdt_entry where
  "gdt_null = gdt_entry_new 0 0 0 0"

definition KERNEL_CS :: u16 where "KERNEL_CS = 0x08"
definition KERNEL_DS :: u16 where "KERNEL_DS = 0x10"
definition USER_DS :: u16 where "USER_DS = 0x18 OR 3"
definition USER_CS :: u16 where "USER_CS = 0x20 OR 3"
definition TSS_SEL :: u16 where "TSS_SEL = 0x28"

type_synonym gdt = "gdt_entry list"

definition gdt_boot :: gdt where
  "gdt_boot =
     [gdt_null,
      gdt_entry_new 0 0xFFFFF 0x9A 0xA,
      gdt_entry_new 0 0xFFFFF 0x92 0xC,
      gdt_entry_new 0 0xFFFFF 0xF2 0xC,
      gdt_entry_new 0 0xFFFFF 0xFA 0xA,
      gdt_null,
      gdt_null]"

definition install_tss :: "gdt \<Rightarrow> u64 \<Rightarrow> u16 \<Rightarrow> gdt" where
  "install_tss gdt base limit =
     (let limit_val = ucast limit :: u32;
          base_lo = ucast base :: u32;
          base_hi = ucast (drop_bit 32 base) :: u32;
          entry_low = \<lparr>ge_limit_low = ucast (limit_val AND 0xFFFF),
                       ge_base_low = ucast (base_lo AND 0xFFFF),
                       ge_base_mid = ucast (drop_bit 16 base_lo AND 0xFF),
                       ge_access = 0x89,
                       ge_granularity = ucast (drop_bit 16 limit_val AND 0x0F),
                       ge_base_high = ucast (drop_bit 24 base_lo AND 0xFF)\<rparr>;
          entry_high = \<lparr>ge_limit_low = ucast (base_hi AND 0xFFFF),
                        ge_base_low = ucast (drop_bit 16 base_hi AND 0xFFFF),
                        ge_base_mid = 0, ge_access = 0, ge_granularity = 0, ge_base_high = 0\<rparr>
      in gdt[5 := entry_low, 6 := entry_high])"

section \<open>The task state segment\<close>

record tss =
  tss_reserved0 :: u32
  tss_rsp0 :: u64
  tss_rsp1 :: u64
  tss_rsp2 :: u64
  tss_reserved1 :: u64
  tss_ist1 :: u64
  tss_ist2 :: u64
  tss_ist3 :: u64
  tss_ist4 :: u64
  tss_ist5 :: u64
  tss_ist6 :: u64
  tss_ist7 :: u64
  tss_reserved2 :: u64
  tss_reserved3 :: u16
  tss_iomap_base :: u16

text \<open>\<open>size_of::<Tss>()\<close> of the packed structure, field by field.\<close>

definition tss_bytes :: nat where
  "tss_bytes = 4 + 3 * 8 + 8 + 7 * 8 + 8 + 2 + 2"

definition tss_new :: tss where
  "tss_new = \<lparr>tss_reserved0 = 0, tss_rsp0 = 0, tss_rsp1 = 0, tss_rsp2 = 0, tss_reserved1 = 0,
     tss_ist1 = 0, tss_ist2 = 0, tss_ist3 = 0, tss_ist4 = 0, tss_ist5 = 0, tss_ist6 = 0,
     tss_ist7 = 0, tss_reserved2 = 0, tss_reserved3 = 0, tss_iomap_base = of_nat tss_bytes\<rparr>"

text \<open>The address of the static \<open>KERNEL_STACK\<close> is the linker's choice.\<close>

definition tss_init :: "u64 \<Rightarrow> tss \<Rightarrow> tss" where
  "tss_init kernel_stack t = t\<lparr>tss_rsp0 := kernel_stack + 0x4000\<rparr>"

definition tss_size :: u16 where
  "tss_size = of_nat (tss_bytes - 1)"

definition set_kernel_stack :: "u64 \<Rightarrow> tss \<Rightarrow> tss" where
  "set_kernel_stack rsp0 t = t\<lparr>tss_rsp0 := rsp0\<rparr>"

section \<open>What the processor reads\<close>

definition desc_base :: "gdt_entry \<Rightarrow> nat" where
  "desc_base e = unat (ge_base_low e) + 2 ^ 16 * unat (ge_base_mid e) + 2 ^ 24 * unat (ge_base_high e)"

definition desc_limit :: "gdt_entry \<Rightarrow> nat" where
  "desc_limit e = unat (ge_limit_low e) + 2 ^ 16 * (unat (ge_granularity e) mod 16)"

definition desc_dpl :: "gdt_entry \<Rightarrow> nat" where
  "desc_dpl e = unat (drop_bit 5 (ge_access e)) mod 4"

definition desc_present :: "gdt_entry \<Rightarrow> bool" where
  "desc_present e \<longleftrightarrow> bit (ge_access e) 7"

definition desc_code :: "gdt_entry \<Rightarrow> bool" where
  "desc_code e \<longleftrightarrow> bit (ge_access e) 4 \<and> bit (ge_access e) 3"

definition desc_long :: "gdt_entry \<Rightarrow> bool" where
  "desc_long e \<longleftrightarrow> bit (ge_granularity e) 5"

text \<open>A system descriptor in long mode spans two slots.\<close>

definition sys_base :: "gdt_entry \<Rightarrow> gdt_entry \<Rightarrow> nat" where
  "sys_base lo hi = desc_base lo + 2 ^ 32 * (unat (ge_limit_low hi) + 2 ^ 16 * unat (ge_base_low hi))"

definition selected :: "gdt \<Rightarrow> u16 \<Rightarrow> gdt_entry" where
  "selected gdt sel = gdt ! (unat sel div 8)"

section \<open>Lemmas\<close>

lemma mask_values [simp]:
  "mask 4 = (0xF :: 'a::len word)" "mask 8 = (0xFF :: 'a word)" "mask 16 = (0xFFFF :: 'a word)"
  by (simp_all add: mask_eq_exp_minus_1)

lemmas unat_fields = unat_and_low [OF mask_values(1)] unat_and_low [OF mask_values(2)]
  unat_and_low [OF mask_values(3)] unat_drop unat_trunc

lemma mod_split: "(n :: nat) mod 2 ^ i + 2 ^ i * (n div 2 ^ i mod 2 ^ j) = n mod 2 ^ (i + j)"
  by (simp add: power_add mod_mult2_eq)

lemma base_fields:
  "(n :: nat) mod 2 ^ 16 + 2 ^ 16 * (n div 2 ^ 16 mod 2 ^ 8) + 2 ^ 24 * (n div 2 ^ 24 mod 2 ^ 8) = n mod 2 ^ 32"
  using mod_split [of n 16 8] mod_split [of n 24 8] by simp

lemma desc_base_new: "desc_base (gdt_entry_new base limit access flags) = unat base"
  using base_fields [of "unat base"] unsigned_less [where 'a = nat, of base]
  by (simp add: desc_base_def gdt_entry_new_def unat_fields)

lemma sys_base_install:
  assumes "length g = 7"
  shows "sys_base (install_tss g base limit ! 5) (install_tss g base limit ! 6) = unat base"
proof -
  let ?lo = "unat base mod 2 ^ 32" and ?hi = "unat base div 2 ^ 32"
  have "?hi < 2 ^ 32" using unsigned_less [where 'a = nat, of base] by simp
  moreover have "desc_base (install_tss g base limit ! 5) = ?lo"
    using desc_base_new [of "ucast base" 0 0 0] assms
    by (simp add: desc_base_def install_tss_def gdt_entry_new_def unat_trunc Let_def)
  moreover have "unat (ge_limit_low (install_tss g base limit ! 6)) +
      2 ^ 16 * unat (ge_base_low (install_tss g base limit ! 6)) = ?hi mod 2 ^ 32"
    using mod_split [of "?hi mod 2 ^ 32" 16 16] assms
    by (simp add: install_tss_def unat_fields Let_def)
  ultimately show ?thesis unfolding sys_base_def by simp
qed

lemma install_tss_segments: "i < 5 \<Longrightarrow> install_tss g base limit ! i = g ! i"
  by (simp add: install_tss_def Let_def)

section \<open>Properties\<close>

text \<open>
  Descriptor encoding. After \<open>install_tss\<close> the processor reads back the given base (all 64
  bits) and limit from slots 5 and 6, as a present, available 64-bit TSS; the segment slots are
  untouched, and each selector constant names the descriptor it should: kernel and user code are
  present long-mode code segments of privilege 0 and 3, the data selectors are data segments of
  those privileges, and the requested privilege in the user selectors is 3.
\<close>

theorem gdt_install_tss_decodes:
  "let g = install_tss gdt_boot base limit in
     sys_base (g ! 5) (g ! 6) = unat base \<and> desc_limit (g ! 5) = unat limit \<and>
     desc_present (g ! 5) \<and> ge_access (g ! 5) AND 0xF = 9 \<and> take 5 g = take 5 gdt_boot \<and>
     unat TSS_SEL div 8 = 5 \<and>
     list_all (\<lambda>(sel, code, dpl).
         desc_present (selected g sel) \<and> desc_code (selected g sel) = code \<and>
         desc_long (selected g sel) = code \<and> desc_dpl (selected g sel) = dpl \<and>
         unat sel mod 4 = dpl)
       [(KERNEL_CS, True, 0), (KERNEL_DS, False, 0), (USER_CS, True, 3), (USER_DS, False, 3)]"
proof -
  have len: "length gdt_boot = 7" by (simp add: gdt_boot_def)
  have "desc_limit (install_tss gdt_boot base limit ! 5) = unat limit"
    using unsigned_less [where 'a = nat, of limit]
    by (simp add: desc_limit_def install_tss_def unat_fields Let_def len)
  moreover have "take 5 (install_tss gdt_boot base limit) = take 5 gdt_boot"
    by (simp add: install_tss_def Let_def)
  moreover have "ge_access (install_tss gdt_boot base limit ! 5) = 0x89"
    by (simp add: install_tss_def Let_def len)
  moreover have "\<forall>(sel, code, dpl) \<in> set [(KERNEL_CS, True, 0), (KERNEL_DS, False, 0),
         (USER_CS, True, 3), (USER_DS, False, 3)].
       desc_present (selected gdt_boot sel) \<and> desc_code (selected gdt_boot sel) = code \<and>
       desc_long (selected gdt_boot sel) = code \<and> desc_dpl (selected gdt_boot sel) = dpl \<and>
       unat sel mod 4 = dpl \<and> unat sel div 8 < 5"
    by (simp add: selected_def gdt_boot_def gdt_entry_new_def desc_present_def desc_code_def
        desc_long_def desc_dpl_def KERNEL_CS_def KERNEL_DS_def USER_CS_def USER_DS_def)
  ultimately show ?thesis
    unfolding Let_def using sys_base_install [OF len, of base limit]
    by (simp add: selected_def install_tss_segments desc_present_def TSS_SEL_def)
qed

end
