(* ===== verification/Ports.thy ===== *)
theory Ports
  imports Prelude
begin

text \<open>
  Port input and output (\<open>inb\<close>, \<open>outb\<close> of \<open>src/kern/arch/x86_64/cpu.rs\<close> and
  \<open>src/kern/serial.rs\<close>) and the serial console of \<open>src/kern/serial.rs\<close>.

  The hardware is a parameter: \<open>io_env\<close> gives the byte the next \<open>inb\<close> of a port returns, as
  an arbitrary function of everything the kernel did on the ports so far. \<open>io_trace\<close> is that
  history, most recent operation first. Polling loops without a bound are
  \<open>partial_function (option)\<close>: \<open>None\<close> when the device never gets ready.
\<close>

section \<open>Ports\<close>

datatype port_op = In u16 u8 | Out u16 u8

record io =
  io_env :: "port_op list \<Rightarrow> u16 \<Rightarrow> u8"
  io_trace :: "port_op list"

definition inb :: "u16 \<Rightarrow> io \<Rightarrow> u8 \<times> io" where
  "inb port s = (let v = io_env s (io_trace s) port in (v, s\<lparr>io_trace := In port v # io_trace s\<rparr>))"

definition outb :: "u16 \<Rightarrow> u8 \<Rightarrow> io \<Rightarrow> io" where
  "outb port v s = s\<lparr>io_trace := Out port v # io_trace s\<rparr>"

definition outs :: "(u16 \<times> u8) list \<Rightarrow> io \<Rightarrow> io" where
  "outs ops s = fold (\<lambda>(p, v). outb p v) ops s"

text \<open>What the kernel wrote to a port, oldest byte first.\<close>

definition written :: "u16 \<Rightarrow> io \<Rightarrow> u8 list" where
  "written port s = rev (concat (map (\<lambda>op. case op of Out p v \<Rightarrow> if p = port then [v] else [] | In p v \<Rightarrow> []) (io_trace s)))"

lemma io_env_ops [simp]:
  "io_env (snd (inb p s)) = io_env s" "io_env (outb p v s) = io_env s"
  by (simp_all add: inb_def outb_def Let_def)

lemma io_env_outs [simp]: "io_env (outs ops s) = io_env s"
  unfolding outs_def by (induction ops arbitrary: s) auto

lemma written_ops [simp]:
  "written q (snd (inb p s)) = written q s"
  "written q (outb p v s) = written q s @ (if p = q then [v] else [])"
  by (simp_all add: written_def inb_def outb_def Let_def)

lemma written_outs [simp]:
  "written q (outs ops s) = written q s @ map snd (filter (\<lambda>(p, v). p = q) ops)"
  unfolding outs_def by (induction ops arbitrary: s) auto

section \<open>The serial console\<close>

definition COM1 :: u16 where "COM1 = 0x3F8"

definition serial_init :: "io \<Rightarrow> io" where
  "serial_init s =
     outs [(COM1 + 1, 0x00), (COM1 + 3, 0x80), (COM1, 0x03), (COM1 + 1, 0x00),
           (COM1 + 3, 0x03), (COM1 + 2, 0xC7), (COM1 + 4, 0x0B)] s"

text \<open>\<open>while (inb(COM1 + 5) & 0x20) == 0 {}\<close>\<close>

partial_function (option) wait_tx :: "io \<Rightarrow> io option" where
  "wait_tx s = (let (v, s') = inb (COM1 + 5) s in if v AND 0x20 = 0 then wait_tx s' else Some s')"

definition putb :: "u8 \<Rightarrow> io \<Rightarrow> io option" where
  "putb b s = do { s' \<leftarrow> wait_tx s; Some (outb COM1 b s') }"

fun put_bytes :: "u8 list \<Rightarrow> io \<Rightarrow> io option" where
  "put_bytes [] s = Some s"
| "put_bytes (b # bs) s = do { s' \<leftarrow> putb b s; put_bytes bs s' }"

definition str_bytes :: "string \<Rightarrow> u8 list" where
  "str_bytes str = map of_char str"

definition puts :: "string \<Rightarrow> io \<Rightarrow> io option" where
  "puts str = put_bytes (str_bytes str)"

text \<open>
  The digit loops of \<open>hex\<close> and \<open>dec\<close> fill a buffer from index 0 and then print it from the last
  index down; the buffer is the list, least significant digit first. Its length against the
  fixed buffer sizes 16 and 20 is the business of \<open>hex_fits\<close> and \<open>dec_fits\<close>: \<open>None\<close> is the
  index panic.
\<close>

fun hex_digit :: "u8 \<Rightarrow> u8" where
  "hex_digit d = (if d < 10 then 0x30 + d else 0x61 + d - 10)"

function hex_loop :: "u64 \<Rightarrow> u8 list \<Rightarrow> u8 list option" where
  "hex_loop v buf =
     (if v > 0
      then if length buf < 16 then hex_loop (drop_bit 4 v) (buf @ [hex_digit (ucast (v AND 0xF))])
           else None
      else Some buf)"
  by pat_completeness auto
termination
  by (relation "measure (\<lambda>(v, buf). unat v)")
    (auto simp: drop_bit_eq_div unat_div word_greater_zero_iff unat_gt_0)

definition hex :: "u64 \<Rightarrow> io \<Rightarrow> io option" where
  "hex v s = (if v = 0 then putb 0x30 s else do { buf \<leftarrow> hex_loop v []; put_bytes (rev buf) s })"

function dec_loop :: "u64 \<Rightarrow> u8 list \<Rightarrow> u8 list option" where
  "dec_loop v buf =
     (if v > 0
      then if length buf < 20 then dec_loop (v div 10) (buf @ [0x30 + ucast (v mod 10)])
           else None
      else Some buf)"
  by pat_completeness auto
termination
  by (relation "measure (\<lambda>(v, buf). unat v)")
    (auto simp: unat_div word_greater_zero_iff unat_gt_0)

definition dec :: "u64 \<Rightarrow> io \<Rightarrow> io option" where
  "dec v s = (if v = 0 then putb 0x30 s else do { buf \<leftarrow> dec_loop v []; put_bytes (rev buf) s })"

declare hex_loop.simps [simp del] dec_loop.simps [simp del]


section \<open>The console delivers its bytes\<close>

text \<open>
  The documented behaviour of the UART the driver relies on: whatever happened before, polling the
  line status register reads a ready transmitter after finitely many polls.
\<close>

definition poll_lsr :: "(port_op list \<Rightarrow> u16 \<Rightarrow> u8) \<Rightarrow> port_op list \<Rightarrow> port_op list" where
  "poll_lsr e tr = In (COM1 + 5) (e tr (COM1 + 5)) # tr"

definition tx_live :: "(port_op list \<Rightarrow> u16 \<Rightarrow> u8) \<Rightarrow> bool" where
  "tx_live e \<longleftrightarrow> (\<forall>tr. \<exists>n. e ((poll_lsr e ^^ n) tr) (COM1 + 5) AND 0x20 \<noteq> 0)"

text \<open>An operation that leaves the hardware alone and sends exactly the bytes \<open>bs\<close>.\<close>

definition sent :: "io \<Rightarrow> u8 list \<Rightarrow> io \<Rightarrow> bool" where
  "sent s bs s' \<longleftrightarrow> io_env s' = io_env s \<and> written COM1 s' = written COM1 s @ bs"

lemma sent_refl [simp]: "sent s [] s"
  by (simp add: sent_def)

lemma sent_trans: "sent s bs s' \<Longrightarrow> sent s' cs s'' \<Longrightarrow> sent s (bs @ cs) s''"
  by (simp add: sent_def)

lemma sent_env: "sent s bs s' \<Longrightarrow> io_env s' = io_env s"
  by (simp add: sent_def)

lemma wait_tx_returns:
  assumes "io_env s ((poll_lsr (io_env s) ^^ n) (io_trace s)) (COM1 + 5) AND 0x20 \<noteq> 0"
  shows "\<exists>s'. wait_tx s = Some s' \<and> sent s [] s'"
  using assms
proof (induction n arbitrary: s)
  case 0
  then show ?case
    by (subst wait_tx.simps) (auto simp: inb_def Let_def sent_def written_def)
next
  case (Suc n)
  let ?s = "snd (inb (COM1 + 5) s)"
  have tr: "io_trace ?s = poll_lsr (io_env s) (io_trace s)"
    by (simp add: inb_def Let_def poll_lsr_def)
  have st: "sent s [] ?s" by (simp add: sent_def)
  show ?case
  proof (cases "fst (inb (COM1 + 5) s) AND 0x20 = 0")
    case True
    then have step: "wait_tx s = wait_tx ?s" by (subst wait_tx.simps) (simp add: split_beta)
    have "\<exists>s'. wait_tx ?s = Some s' \<and> sent ?s [] s'"
      by (rule Suc.IH) (use Suc.prems tr in \<open>simp add: funpow_swap1\<close>)
    then show ?thesis unfolding step using sent_trans [OF st] by fastforce
  next
    case False
    then have "wait_tx s = Some ?s" by (subst wait_tx.simps) (simp add: split_beta)
    with st show ?thesis by simp
  qed
qed

lemma putb_sends:
  assumes "tx_live (io_env s)" shows "\<exists>s'. putb b s = Some s' \<and> sent s [b] s'"
proof -
  obtain n where "io_env s ((poll_lsr (io_env s) ^^ n) (io_trace s)) (COM1 + 5) AND 0x20 \<noteq> 0"
    using assms by (auto simp: tx_live_def)
  from wait_tx_returns [OF this] show ?thesis by (auto simp: putb_def sent_def)
qed

lemma put_bytes_sends:
  "tx_live (io_env s) \<Longrightarrow> \<exists>s'. put_bytes bs s = Some s' \<and> sent s bs s'"
proof (induction bs arbitrary: s)
  case (Cons b bs)
  obtain s' where 1: "putb b s = Some s'" "sent s [b] s'" using putb_sends [OF Cons.prems] by blast
  then obtain s'' where "put_bytes bs s' = Some s''" "sent s' bs s''"
    using Cons sent_env by metis
  with 1 show ?case using sent_trans [of s "[b]" s' bs s''] by simp
qed simp

lemma puts_sends: "tx_live (io_env s) \<Longrightarrow> \<exists>s'. puts str s = Some s' \<and> sent s (str_bytes str) s'"
  by (simp add: puts_def put_bytes_sends)

text \<open>A computation that returns after sending exactly \<open>bs\<close>; the rules compose them.\<close>

definition prints :: "io \<Rightarrow> u8 list \<Rightarrow> io option \<Rightarrow> bool" where
  "prints s bs r \<longleftrightarrow> (\<exists>s'. r = Some s' \<and> sent s bs s')"

lemma prints_bind:
  "prints s bs r \<Longrightarrow> (\<And>t. sent s bs t \<Longrightarrow> prints t cs (g t)) \<Longrightarrow> prints s (bs @ cs) (r \<bind> g)"
  unfolding prints_def using sent_trans by fastforce

lemma printsE:
  assumes "prints s bs r" obtains s' where "r = Some s'" "sent s bs s'"
  using assms by (auto simp: prints_def)

lemma prints_live: "prints io bs r \<Longrightarrow> tx_live (io_env io) \<Longrightarrow> \<exists>io'. r = Some io' \<and> tx_live (io_env io')"
  by (auto simp: prints_def sent_env)

lemma prints_puts: "tx_live (io_env s) \<Longrightarrow> prints s (str_bytes str) (puts str s)"
  using puts_sends by (simp add: prints_def)

section \<open>Numbers in digits\<close>

fun digits :: "nat \<Rightarrow> nat \<Rightarrow> nat list" where
  "digits b n = (if n = 0 \<or> b < 2 then [] else n mod b # digits b (n div b))"

declare digits.simps [simp del]

lemma digits_simps:
  "digits b 0 = []" "2 \<le> b \<Longrightarrow> n > 0 \<Longrightarrow> digits b n = n mod b # digits b (n div b)"
  by (simp_all add: digits.simps)

lemma digits_less: "d \<in> set (digits b n) \<Longrightarrow> d < b"
proof (induction b n rule: digits.induct)
  case (1 b n)
  then show ?case by (cases "n = 0 \<or> b < 2") (auto simp: digits.simps [of b n])
qed

lemma digits_length: "n < b ^ k \<Longrightarrow> length (digits b n) \<le> k"
proof (induction b n arbitrary: k rule: digits.induct)
  case (1 b n)
  show ?case
  proof (cases "n = 0 \<or> b < 2")
    case False
    with "1.prems" obtain j where k: "k = Suc j" by (cases k) auto
    have "n div b < b ^ j" using "1.prems" False by (simp add: k less_mult_imp_div_less mult.commute)
    with "1.IH" [of j] False show ?thesis by (simp add: digits.simps [of b n] k)
  qed (auto simp: digits.simps [of b n])
qed

lemma digits_value:
  "2 \<le> b \<Longrightarrow> foldr (\<lambda>d acc. acc * b + d) (digits b n) 0 = n"
proof (induction b n rule: digits.induct)
  case (1 b n)
  then show ?case by (cases "n = 0") (auto simp: digits.simps [of b n] digits_simps ac_simps)
qed

lemma digits_last: "2 \<le> b \<Longrightarrow> n > 0 \<Longrightarrow> digits b n \<noteq> [] \<and> List.last (digits b n) \<noteq> 0"
proof (induction b n rule: digits.induct)
  case (1 b n)
  show ?case
  proof (cases "n div b = 0")
    case True
    then have "n mod b = n" using div_mult_mod_eq [of n b] by simp
    with True 1 show ?thesis by (simp add: digits.simps [of b n] digits_simps)
  next
    case False
    with 1 show ?thesis by (simp add: digits.simps [of b n])
  qed
qed

text \<open>Reading a printed number back.\<close>

definition ascii_value :: "u8 \<Rightarrow> nat" where
  "ascii_value c = (if c < 0x3A then unat (c - 0x30) else unat (c - 0x61) + 10)"

definition number_of :: "nat \<Rightarrow> u8 list \<Rightarrow> nat" where
  "number_of b cs = fold (\<lambda>c acc. acc * b + ascii_value c) cs 0"

definition digit_byte :: "nat \<Rightarrow> u8" where
  "digit_byte d = hex_digit (of_nat d)"

lemma digit_byte_value:
  assumes "d < 16" shows "ascii_value (digit_byte d) = d" "digit_byte d = 0x30 \<longleftrightarrow> d = 0"
proof -
  have "d \<in> {0, 1, 2, 3, 4, 5, 6, 7, 8, 9, 10, 11, 12, 13, 14, 15}"
    using assms unfolding insert_iff empty_iff by presburger
  then show "ascii_value (digit_byte d) = d" "digit_byte d = 0x30 \<longleftrightarrow> d = 0"
    by (auto simp: ascii_value_def digit_byte_def)
qed

lemma number_of_digits:
  assumes "2 \<le> b" "b \<le> 16"
  shows "number_of b (map digit_byte (rev (digits b n))) = n"
proof -
  have "number_of b (map digit_byte (rev (digits b n))) =
      foldr (\<lambda>d acc. acc * b + ascii_value (digit_byte d)) (digits b n) 0"
    by (simp add: number_of_def fold_map rev_map foldr_conv_fold comp_def)
  also have "\<dots> = foldr (\<lambda>d acc. acc * b + d) (digits b n) 0"
    using assms(2) by (intro foldr_cong) (auto dest!: digits_less simp: digit_byte_value)
  finally show ?thesis using digits_value [OF assms(1)] by simp
qed

lemma hex_loop_digits:
  "length buf + length (digits 16 (unat v)) \<le> 16 \<Longrightarrow>
   hex_loop v buf = Some (buf @ map digit_byte (digits 16 (unat v)))"
proof (induction v buf rule: hex_loop.induct)
  case (1 v buf)
  show ?case
  proof (cases "v = 0")
    case False
    then have ds: "digits 16 (unat v) = unat v mod 16 # digits 16 (unat (drop_bit 4 v))"
      by (simp add: digits_simps unat_gt_0 drop_bit_eq_div unat_div)
    have mask: "v AND 0xF = v mod 16"
      using take_bit_eq_mask [of 4 v] take_bit_eq_mod [of 4 v] by (simp add: mask_eq_exp_minus_1)
    have "(ucast (v AND 0xF) :: u8) = of_nat (unat (v mod 16))"
      by (simp add: mask)
    then have "hex_digit (ucast (v AND 0xF)) = digit_byte (unat v mod 16)"
      by (simp add: digit_byte_def unat_mod)
    with 1 False ds show ?thesis
      by (subst hex_loop.simps) (simp add: word_greater_zero_iff)
  qed (simp add: hex_loop.simps [of 0] digits_simps)
qed

lemma dec_loop_digits:
  "length buf + length (digits 10 (unat v)) \<le> 20 \<Longrightarrow>
   dec_loop v buf = Some (buf @ map digit_byte (digits 10 (unat v)))"
proof (induction v buf rule: dec_loop.induct)
  case (1 v buf)
  show ?case
  proof (cases "v = 0")
    case False
    then have ds: "digits 10 (unat v) = unat v mod 10 # digits 10 (unat (v div 10))"
      by (simp add: digits_simps unat_gt_0 unat_div)
    have "(ucast (v mod 10) :: u8) = of_nat (unat (v mod 10))" by simp
    moreover have "(of_nat (unat v mod 10) :: u8) < 10"
      by (simp add: word_less_nat_alt unat_of_nat take_bit_eq_mod)
    ultimately have "0x30 + ucast (v mod 10) = digit_byte (unat v mod 10)"
      by (simp add: digit_byte_def unat_mod)
    with 1 False ds show ?thesis
      by (subst dec_loop.simps) (simp add: word_greater_zero_iff)
  qed (simp add: dec_loop.simps [of 0] digits_simps)
qed

definition number_text :: "nat \<Rightarrow> u64 \<Rightarrow> u8 list" where
  "number_text b v = (if v = 0 then [0x30] else map digit_byte (rev (digits b (unat v))))"

lemma unat_64: "unat (v :: u64) < 2 ^ 64"
  using unsigned_less [where 'a = nat, of v] by simp

lemma hex_sends:
  assumes "tx_live (io_env s)" shows "\<exists>s'. hex v s = Some s' \<and> sent s (number_text 16 v) s'"
proof -
  have "length (digits 16 (unat v)) \<le> 16" by (rule digits_length) (use unat_64 [of v] in simp)
  then show ?thesis
    using putb_sends [OF assms] put_bytes_sends [OF assms]
    by (simp add: hex_def number_text_def hex_loop_digits rev_map)
qed

lemma dec_sends:
  assumes "tx_live (io_env s)" shows "\<exists>s'. dec v s = Some s' \<and> sent s (number_text 10 v) s'"
proof -
  have "length (digits 10 (unat v)) \<le> 20" by (rule digits_length) (use unat_64 [of v] in simp)
  then show ?thesis
    using putb_sends [OF assms] put_bytes_sends [OF assms]
    by (simp add: dec_def number_text_def dec_loop_digits rev_map)
qed

lemma prints_number:
  "tx_live (io_env s) \<Longrightarrow> prints s (number_text 16 v) (hex v s)"
  "tx_live (io_env s) \<Longrightarrow> prints s (number_text 10 v) (dec v s)"
  using hex_sends dec_sends by (simp_all add: prints_def)

text \<open>The kernel's usual message: a number between two texts.\<close>

lemma prints_message:
  assumes "tx_live (io_env s)"
  shows "prints s (str_bytes a @ number_text 16 v @ str_bytes b) (do { s \<leftarrow> puts a s; s \<leftarrow> hex v s; puts b s })"
    "prints s (str_bytes a @ number_text 10 v @ str_bytes b) (do { s \<leftarrow> puts a s; s \<leftarrow> dec v s; puts b s })"
  by (intro prints_bind prints_puts prints_number; use assms in \<open>simp add: sent_env\<close>)+

lemma number_text_spec:
  assumes "2 \<le> b" "b \<le> 16"
  shows "number_of b (number_text b v) = unat v \<and> number_text b v \<noteq> [] \<and>
    (v \<noteq> 0 \<longrightarrow> hd (number_text b v) \<noteq> 0x30)"
proof (cases "v = 0")
  case False
  then have last_digit: "digits b (unat v) \<noteq> []" "List.last (digits b (unat v)) \<noteq> 0"
    using digits_last [OF assms(1), of "unat v"] by (simp_all add: unat_gt_0)
  moreover have "List.last (digits b (unat v)) < 16"
    using digits_less [OF last_in_set [OF last_digit(1)]] assms(2) by simp
  ultimately have "hd (map digit_byte (rev (digits b (unat v)))) \<noteq> 0x30"
    by (simp add: hd_map hd_rev digit_byte_value)
  with last_digit False show ?thesis
    by (simp add: number_text_def number_of_digits [OF assms])
qed (simp add: number_text_def number_of_def ascii_value_def)

section \<open>Properties\<close>

text \<open>
  C7: on a UART whose transmitter always becomes ready again, printing a number returns and
  sends exactly its digits: reading the bytes back in base 16 (base 10) gives the number, the
  fixed buffers of 16 and 20 bytes never overflow, and there is no leading zero.
\<close>

theorem console_prints_numbers:
  assumes "tx_live (io_env s)"
  shows "(\<exists>s' bs. hex v s = Some s' \<and> written COM1 s' = written COM1 s @ bs \<and>
      number_of 16 bs = unat v \<and> bs \<noteq> [] \<and> (v \<noteq> 0 \<longrightarrow> hd bs \<noteq> 0x30)) \<and>
    (\<exists>s' bs. dec v s = Some s' \<and> written COM1 s' = written COM1 s @ bs \<and>
      number_of 10 bs = unat v \<and> bs \<noteq> [] \<and> (v \<noteq> 0 \<longrightarrow> hd bs \<noteq> 0x30))"
  using hex_sends [OF assms, of v] dec_sends [OF assms, of v]
    number_text_spec [of 16 v] number_text_spec [of 10 v]
  unfolding sent_def by fastforce

theorem console_prints_numbers_witness:
  defines "s \<equiv> \<lparr>io_env = (\<lambda>tr p. if length tr mod 3 = 0 then 0x20 else 0), io_trace = []\<rparr>"
  shows "\<exists>s'. dec 1234 s = Some s' \<and> number_of 10 (written COM1 s') = 1234"
proof -
  have "\<exists>n. (n + k) mod 3 = 0" for k :: nat
    by (rule exI [of _ "2 * k"]) simp
  moreover have "length ((poll_lsr e ^^ n) tr) = n + length tr" for e n tr
    by (induction n) (simp_all add: poll_lsr_def)
  ultimately have "tx_live (io_env s)" by (simp add: tx_live_def s_def)
  from console_prints_numbers [OF this, of 1234] show ?thesis
    by (fastforce simp: s_def written_def)
qed

end
