(* ===== verification/Interrupts.thy ===== *)
theory Interrupts
  imports Descriptors Ports
begin

text \<open>
  Interrupt gates, entry stubs and handler tables (\<open>src/kern/arch/x86_64/idt.rs\<close>). The entry
  stubs are assembly; they are modelled as the pushes and pops they perform on a stack of 64-bit
  words (top first), in the order of the source, and shown to agree with the field order of
  \<open>IsrContext\<close>. Handlers are named by \<open>ctx_handler\<close>, the three functions the kernel registers;
  \<open>interrupt_dispatch\<close>, which calls them, is in \<open>Kernel\<close>.
\<close>

section \<open>Gates\<close>

definition IDT_ENTRIES :: usize where "IDT_ENTRIES = 256"

record idt_entry =
  ie_offset_low :: u16
  ie_selector :: u16
  ie_ist :: u8
  ie_type_attr :: u8
  ie_offset_mid :: u16
  ie_offset_high :: u32
  ie_reserved :: u32

definition idt_entry_empty :: idt_entry where
  "idt_entry_empty = \<lparr>ie_offset_low = 0, ie_selector = 0, ie_ist = 0, ie_type_attr = 0,
     ie_offset_mid = 0, ie_offset_high = 0, ie_reserved = 0\<rparr>"

definition set_handler :: "u64 \<Rightarrow> idt_entry \<Rightarrow> idt_entry" where
  "set_handler handler e =
     e\<lparr>ie_offset_low := ucast handler, ie_offset_mid := ucast (drop_bit 16 handler),
       ie_offset_high := ucast (drop_bit 32 handler), ie_selector := 0x08,
       ie_type_attr := 0x8E, ie_ist := 0, ie_reserved := 0\<rparr>"

definition set_dpl :: "u8 \<Rightarrow> idt_entry \<Rightarrow> idt_entry" where
  "set_dpl dpl e =
     (let base = ie_type_attr e AND 0x9F
      in e\<lparr>ie_type_attr := base OR push_bit 5 (dpl AND 3)\<rparr>)"

datatype ctx_handler = Timer_tick | Keyboard_irq_handler | Syscall_dispatch

text \<open>
  The statics \<open>IDT\<close>, \<open>ISR_HANDLERS\<close> and \<open>ISR_CTX_HANDLERS\<close>; a plain handler is known by its
  address only (the kernel registers none).
\<close>

record idt =
  id_entries :: "idt_entry list"
  id_handlers :: "u64 option list"
  id_ctx_handlers :: "ctx_handler option list"

definition idt_boot :: idt where
  "idt_boot = \<lparr>id_entries = replicate IDT_ENTRIES idt_entry_empty,
     id_handlers = replicate IDT_ENTRIES None, id_ctx_handlers = replicate IDT_ENTRIES None\<rparr>"

definition register_handler :: "nat \<Rightarrow> u64 \<Rightarrow> idt \<Rightarrow> idt" where
  "register_handler vector handler d =
     (if vector < IDT_ENTRIES then d\<lparr>id_handlers := (id_handlers d)[vector := Some handler]\<rparr> else d)"

definition register_ctx_handler :: "nat \<Rightarrow> ctx_handler \<Rightarrow> idt \<Rightarrow> idt" where
  "register_ctx_handler vector handler d =
     (if vector < IDT_ENTRIES
      then d\<lparr>id_ctx_handlers := (id_ctx_handlers d)[vector := Some handler]\<rparr> else d)"

definition set_gate_dpl :: "nat \<Rightarrow> u8 \<Rightarrow> idt \<Rightarrow> idt" where
  "set_gate_dpl vector dpl d =
     (if vector < IDT_ENTRIES
      then d\<lparr>id_entries := (id_entries d)[vector := set_dpl dpl (id_entries d ! vector)]\<rparr> else d)"

text \<open>The addresses \<open>isr0\<close> to \<open>isr47\<close> and \<open>isr128\<close> are given by the linker.\<close>

definition idt_init :: "(nat \<Rightarrow> u64) \<Rightarrow> idt \<Rightarrow> idt" where
  "idt_init isr_addr d =
     (let es = fold (\<lambda>i es. es[i := set_handler (isr_addr i) (es ! i)]) [0..<48] (id_entries d)
      in d\<lparr>id_entries := es[0x80 := set_handler (isr_addr 0x80) (es ! 0x80)]\<rparr>)"

section \<open>Entry and exit stubs\<close>

record isr_context =
  cx_r15 :: u64
  cx_r14 :: u64
  cx_r13 :: u64
  cx_r12 :: u64
  cx_r11 :: u64
  cx_r10 :: u64
  cx_r9 :: u64
  cx_r8 :: u64
  cx_rbp :: u64
  cx_rdi :: u64
  cx_rsi :: u64
  cx_rdx :: u64
  cx_rcx :: u64
  cx_rbx :: u64
  cx_rax :: u64
  cx_vector :: u64
  cx_error_code :: u64
  cx_rip :: u64
  cx_cs :: u64
  cx_rflags :: u64
  cx_rsp :: u64
  cx_ss :: u64

record interrupt_frame =
  if_rip :: u64
  if_cs :: u64
  if_rflags :: u64
  if_rsp :: u64
  if_ss :: u64

text \<open>The general registers at the interrupt.\<close>

record regs =
  g_rax :: u64
  g_rbx :: u64
  g_rcx :: u64
  g_rdx :: u64
  g_rsi :: u64
  g_rdi :: u64
  g_rbp :: u64
  g_r8 :: u64
  g_r9 :: u64
  g_r10 :: u64
  g_r11 :: u64
  g_r12 :: u64
  g_r13 :: u64
  g_r14 :: u64
  g_r15 :: u64

text \<open>Which vectors use \<open>isr_err!\<close>; all others use \<open>isr_no_err!\<close>, which pushes a zero first.\<close>

definition isr_err :: "nat \<Rightarrow> bool" where
  "isr_err num \<longleftrightarrow> num \<in> set [8, 10, 11, 12, 13, 14, 17, 21, 30]"

definition isr_stub :: "nat \<Rightarrow> u64 list \<Rightarrow> u64 list" where
  "isr_stub num stk = (if isr_err num then of_nat num # stk else of_nat num # 0 # stk)"

definition isr_push :: "regs \<Rightarrow> u64 list \<Rightarrow> u64 list" where
  "isr_push r stk = fold (#)
     [g_rax r, g_rbx r, g_rcx r, g_rdx r, g_rsi r, g_rdi r, g_rbp r, g_r8 r, g_r9 r, g_r10 r,
      g_r11 r, g_r12 r, g_r13 r, g_r14 r, g_r15 r] stk"

text \<open>The handler's view: \<open>rdi = rsp\<close> read as \<open>*mut IsrContext\<close>, fields in declaration order.\<close>

definition ctx_at :: "u64 list \<Rightarrow> isr_context" where
  "ctx_at stk =
     \<lparr>cx_r15 = stk ! 0, cx_r14 = stk ! 1, cx_r13 = stk ! 2, cx_r12 = stk ! 3, cx_r11 = stk ! 4,
      cx_r10 = stk ! 5, cx_r9 = stk ! 6, cx_r8 = stk ! 7, cx_rbp = stk ! 8, cx_rdi = stk ! 9,
      cx_rsi = stk ! 10, cx_rdx = stk ! 11, cx_rcx = stk ! 12, cx_rbx = stk ! 13, cx_rax = stk ! 14,
      cx_vector = stk ! 15, cx_error_code = stk ! 16, cx_rip = stk ! 17, cx_cs = stk ! 18,
      cx_rflags = stk ! 19, cx_rsp = stk ! 20, cx_ss = stk ! 21\<rparr>"

definition ctx_words :: "isr_context \<Rightarrow> u64 list" where
  "ctx_words c =
     [cx_r15 c, cx_r14 c, cx_r13 c, cx_r12 c, cx_r11 c, cx_r10 c, cx_r9 c, cx_r8 c, cx_rbp c,
      cx_rdi c, cx_rsi c, cx_rdx c, cx_rcx c, cx_rbx c, cx_rax c, cx_vector c, cx_error_code c,
      cx_rip c, cx_cs c, cx_rflags c, cx_rsp c, cx_ss c]"

text \<open>The pops of \<open>isr_common\<close> in order, \<open>add rsp, 16\<close> and \<open>iretq\<close>.\<close>

definition isr_pop :: "u64 list \<Rightarrow> regs \<times> u64 list" where
  "isr_pop stk =
     (\<lparr>g_rax = stk ! 14, g_rbx = stk ! 13, g_rcx = stk ! 12, g_rdx = stk ! 11, g_rsi = stk ! 10,
       g_rdi = stk ! 9, g_rbp = stk ! 8, g_r8 = stk ! 7, g_r9 = stk ! 6, g_r10 = stk ! 5,
       g_r11 = stk ! 4, g_r12 = stk ! 3, g_r13 = stk ! 2, g_r14 = stk ! 1, g_r15 = stk ! 0\<rparr>,
      drop 15 stk)"

definition iretq :: "u64 list \<Rightarrow> interrupt_frame \<times> u64 list" where
  "iretq stk = (\<lparr>if_rip = stk ! 0, if_cs = stk ! 1, if_rflags = stk ! 2, if_rsp = stk ! 3,
     if_ss = stk ! 4\<rparr>, drop 5 stk)"

text \<open>
  One interrupt: stub, pushes, the handler on the context (which lies on the stack), pops, return.
  The result is the register file, the frame returned to and what is left on the stack.
\<close>

definition isr_run ::
  "(isr_context \<Rightarrow> isr_context) \<Rightarrow> nat \<Rightarrow> regs \<Rightarrow> u64 list \<Rightarrow> regs \<times> interrupt_frame \<times> u64 list" where
  "isr_run handler num r stk =
     (let stk = isr_push r (isr_stub num stk);
          stk = ctx_words (handler (ctx_at stk)) @ drop 22 stk;
          (r, stk) = isr_pop stk;
          (f, stk) = iretq (drop 2 stk)
      in (r, f, stk))"

definition frame_words :: "interrupt_frame \<Rightarrow> u64 list" where
  "frame_words f = [if_rip f, if_cs f, if_rflags f, if_rsp f, if_ss f]"

text \<open>What the processor reads from a gate.\<close>

definition gate_offset :: "idt_entry \<Rightarrow> nat" where
  "gate_offset e = unat (ie_offset_low e) + 2 ^ 16 * unat (ie_offset_mid e) + 2 ^ 32 * unat (ie_offset_high e)"

definition gate_present :: "idt_entry \<Rightarrow> bool" where
  "gate_present e \<longleftrightarrow> bit (ie_type_attr e) 7"

definition gate_dpl :: "idt_entry \<Rightarrow> nat" where
  "gate_dpl e = unat (drop_bit 5 (ie_type_attr e)) mod 4"

section \<open>Lemmas\<close>

lemma gate_offset_set_handler: "gate_offset (set_handler h e) = unat h"
proof -
  have "unat h div 2 ^ 32 < 2 ^ 32" using unsigned_less [where 'a = nat, of h] by simp
  moreover have "unat h mod 2 ^ 16 + 2 ^ 16 * (unat h div 2 ^ 16 mod 2 ^ 16) = unat h mod 2 ^ 32"
    using mod_split [of "unat h" 16 16] by simp
  moreover have "unat h mod 2 ^ 32 + 2 ^ 32 * (unat h div 2 ^ 32) = unat h" by simp
  ultimately show ?thesis
    unfolding gate_offset_def set_handler_def by (simp add: unat_trunc unat_drop)
qed

lemma fold_update_nth:
  "n \<le> length xs \<Longrightarrow> i < length xs \<Longrightarrow>
   fold (\<lambda>i es. es[i := f i (es ! i)]) [0..<n] xs ! i = (if i < n then f i (xs ! i) else xs ! i)"
proof (induction n arbitrary: xs i)
  case (Suc n)
  have len: "length (fold (\<lambda>i es. es[i := f i (es ! i)]) [0..<n] xs) = length xs"
    by (induction n) simp_all
  show ?case using Suc.IH [of xs i] Suc.IH [of xs n] Suc.prems
    by (auto simp: nth_list_update len less_Suc_eq)
qed simp

lemma length_fold_update: "length (fold (\<lambda>i es. es[i := f i (es ! i)]) is xs) = length xs"
  by (induction "is" arbitrary: xs) simp_all

lemma idt_init_entry:
  assumes "length (id_entries d) = 256" "i < 256"
  shows "id_entries (idt_init isr_addr d) ! i =
    (if i < 48 \<or> i = 0x80 then set_handler (isr_addr i) (id_entries d ! i) else id_entries d ! i)"
  using assms
    fold_update_nth [of 48 "id_entries d" _ "\<lambda>i. set_handler (isr_addr i)"]
    length_fold_update [of "\<lambda>i. set_handler (isr_addr i)" "[0..<48]" "id_entries d"]
  by (simp add: idt_init_def Let_def nth_list_update del: upt_conv_Cons_Cons)

lemma gate_of_handler:
  "gate_present (set_handler h e)" "gate_dpl (set_handler h e) = 0" "ie_selector (set_handler h e) = 8"
  "\<not> gate_present idt_entry_empty"
  by (simp_all add: gate_present_def gate_dpl_def set_handler_def idt_entry_empty_def)

section \<open>Properties\<close>

text \<open>
  C9: interrupt entry and exit. If the processor pushed an error code exactly for the vectors with
  an \<open>isr_err!\<close> stub, the handler sees every interrupted register in the field of its name, the frame, its
  vector and that error code (zero otherwise); on return the processor gets in every register what the handler left in the
  field of its name, and the frame the handler left, and the stack is back where it was. A handler that changes nothing
  returns to the interrupted state.
\<close>

theorem interrupt_entry_exit:
  assumes "stk = (if isr_err num then [err] else []) @ frame_words f @ rest"
  shows "\<exists>c. ctx_at (isr_push r (isr_stub num stk)) = c \<and>
    c = \<lparr>cx_r15 = g_r15 r, cx_r14 = g_r14 r, cx_r13 = g_r13 r, cx_r12 = g_r12 r, cx_r11 = g_r11 r, cx_r10 = g_r10 r,
      cx_r9 = g_r9 r, cx_r8 = g_r8 r, cx_rbp = g_rbp r, cx_rdi = g_rdi r, cx_rsi = g_rsi r, cx_rdx = g_rdx r,
      cx_rcx = g_rcx r, cx_rbx = g_rbx r, cx_rax = g_rax r, cx_vector = of_nat num,
      cx_error_code = (if isr_err num then err else 0), cx_rip = if_rip f, cx_cs = if_cs f, cx_rflags = if_rflags f,
      cx_rsp = if_rsp f, cx_ss = if_ss f\<rparr> \<and>
    isr_run h num r stk =
      (\<lparr>g_rax = cx_rax (h c), g_rbx = cx_rbx (h c), g_rcx = cx_rcx (h c), g_rdx = cx_rdx (h c), g_rsi = cx_rsi (h c),
        g_rdi = cx_rdi (h c), g_rbp = cx_rbp (h c), g_r8 = cx_r8 (h c), g_r9 = cx_r9 (h c), g_r10 = cx_r10 (h c),
        g_r11 = cx_r11 (h c), g_r12 = cx_r12 (h c), g_r13 = cx_r13 (h c), g_r14 = cx_r14 (h c), g_r15 = cx_r15 (h c)\<rparr>,
       \<lparr>if_rip = cx_rip (h c), if_cs = cx_cs (h c), if_rflags = cx_rflags (h c),
        if_rsp = cx_rsp (h c), if_ss = cx_ss (h c)\<rparr>, rest) \<and>
    isr_run (\<lambda>c. c) num r stk = (r, f, rest)"
  by (simp add: assms ctx_at_def isr_push_def isr_stub_def frame_words_def isr_run_def ctx_words_def
      isr_pop_def iretq_def Let_def)

theorem interrupt_entry_exit_witness:
  defines "f \<equiv> \<lparr>if_rip = 0x1000, if_cs = 8, if_rflags = 0x202, if_rsp = 0x8000, if_ss = 0x10\<rparr>"
    and "r \<equiv> \<lparr>g_rax = 1, g_rbx = 2, g_rcx = 3, g_rdx = 4, g_rsi = 5, g_rdi = 6, g_rbp = 7, g_r8 = 8,
      g_r9 = 9, g_r10 = 10, g_r11 = 11, g_r12 = 12, g_r13 = 13, g_r14 = 14, g_r15 = 15\<rparr>"
  shows "isr_run (\<lambda>c. c) 14 r (0xE # frame_words f) = (r, f, []) \<and>
    fst (isr_run (\<lambda>c. c\<lparr>cx_rax := cx_rbx c\<rparr>) 14 r (0xE # frame_words f)) = r\<lparr>g_rax := 2\<rparr>"
proof -
  have "0xE # frame_words f = (if isr_err 14 then [0xE] else []) @ frame_words f @ []"
    by (simp add: isr_err_def)
  from interrupt_entry_exit [OF this, of r "\<lambda>c. c\<lparr>cx_rax := cx_rbx c\<rparr>"] show ?thesis by (simp add: r_def)
qed

end
