(* ===== verification/Pic.thy ===== *)
theory Pic
  imports Ports
begin

text \<open>
  The interrupt controllers and the interval timer (\<open>src/kern/arch/x86_64/pic.rs\<close> and
  \<open>pit.rs\<close>). The drivers only write command bytes, so their correctness is stated against the
  devices: \<open>pic_dev\<close> is what the 8259A data sheet says a controller does with the bytes it
  receives, \<open>pit_dev\<close> the same for the mode-and-reload protocol of channel 0 of the 8254.
\<close>

section \<open>The drivers\<close>

definition PIC1_CMD :: u16 where "PIC1_CMD = 0x20"
definition PIC1_DATA :: u16 where "PIC1_DATA = 0x21"
definition PIC2_CMD :: u16 where "PIC2_CMD = 0xA0"
definition PIC2_DATA :: u16 where "PIC2_DATA = 0xA1"
definition ICW1_INIT :: u8 where "ICW1_INIT = 0x11"
definition ICW4_8086 :: u8 where "ICW4_8086 = 0x01"

definition io_wait :: "io \<Rightarrow> io" where
  "io_wait s = outb 0x80 0 s"

definition pic_remap :: "u8 \<Rightarrow> u8 \<Rightarrow> io \<Rightarrow> io" where
  "pic_remap offset1 offset2 s =
     (let (mask1, s) = inb PIC1_DATA s;
          (mask2, s) = inb PIC2_DATA s;
          s = io_wait (outb PIC1_CMD ICW1_INIT s);
          s = io_wait (outb PIC2_CMD ICW1_INIT s);
          s = io_wait (outb PIC1_DATA offset1 s);
          s = io_wait (outb PIC2_DATA offset2 s);
          s = io_wait (outb PIC1_DATA 4 s);
          s = io_wait (outb PIC2_DATA 2 s);
          s = io_wait (outb PIC1_DATA ICW4_8086 s);
          s = io_wait (outb PIC2_DATA ICW4_8086 s);
          s = outb PIC1_DATA mask1 s
      in outb PIC2_DATA mask2 s)"

definition pic_disable :: "io \<Rightarrow> io" where
  "pic_disable s = outb PIC2_DATA 0xFF (outb PIC1_DATA 0xFF s)"

definition eoi :: "u8 \<Rightarrow> io \<Rightarrow> io" where
  "eoi irq s = (let s = (if irq \<ge> 8 then outb PIC2_CMD 0x20 s else s) in outb PIC1_CMD 0x20 s)"

text \<open>\<open>1 << irq\<close> on \<open>u8\<close> takes the shift amount modulo 8.\<close>

definition irq_bit :: "u8 \<Rightarrow> u8" where
  "irq_bit irq = push_bit (unat irq mod 8) 1"

definition set_mask :: "u8 \<Rightarrow> io \<Rightarrow> io" where
  "set_mask irq s =
     (let (port, irq) = (if irq < 8 then (PIC1_DATA, irq) else (PIC2_DATA, irq - 8));
          (v, s) = inb port s
      in outb port (v OR irq_bit irq) s)"

definition clear_mask :: "u8 \<Rightarrow> io \<Rightarrow> io" where
  "clear_mask irq s =
     (let (port, irq) = (if irq < 8 then (PIC1_DATA, irq) else (PIC2_DATA, irq - 8));
          (v, s) = inb port s
      in outb port (v AND NOT (irq_bit irq)) s)"

definition PIT_CH0_DATA :: u16 where "PIT_CH0_DATA = 0x40"
definition PIT_CMD :: u16 where "PIT_CMD = 0x43"
definition PIT_FREQ :: u32 where "PIT_FREQ = 1193182"

text \<open>\<open>None\<close>: the division by zero for \<open>hz = 0\<close>.\<close>

definition pit_init :: "u32 \<Rightarrow> io \<Rightarrow> io option" where
  "pit_init hz s =
     (if hz = 0 then None
      else let divisor = PIT_FREQ div hz;
               divisor = (if divisor > 0xFFFF then 0xFFFF else ucast divisor :: u16);
               s = outb PIT_CMD 0x34 s;
               s = outb PIT_CH0_DATA (ucast (divisor AND 0xFF)) s
           in Some (outb PIT_CH0_DATA (ucast (drop_bit 8 divisor)) s))"

section \<open>The devices\<close>

text \<open>
  An 8259A: a command byte with bit 4 set starts the initialisation sequence, after which the
  next three bytes on the data port are ICW2 (vector base), ICW3 (cascade) and ICW4 (mode); a data
  byte outside the sequence is the interrupt mask. An end-of-interrupt command is counted.
\<close>

record pic_dev =
  pd_stage :: nat
  pd_base :: u8
  pd_cascade :: u8
  pd_mode :: u8
  pd_imr :: u8
  pd_eois :: nat

definition pic_reset :: pic_dev where
  "pic_reset = \<lparr>pd_stage = 0, pd_base = 0, pd_cascade = 0, pd_mode = 0, pd_imr = 0, pd_eois = 0\<rparr>"

definition pic_cmd :: "u8 \<Rightarrow> pic_dev \<Rightarrow> pic_dev" where
  "pic_cmd v d =
     (if v AND 0x10 \<noteq> 0 then d\<lparr>pd_stage := 1, pd_imr := 0\<rparr>
      else if v = 0x20 then d\<lparr>pd_eois := pd_eois d + 1\<rparr> else d)"

definition pic_data :: "u8 \<Rightarrow> pic_dev \<Rightarrow> pic_dev" where
  "pic_data v d =
     (if pd_stage d = 1 then d\<lparr>pd_base := v, pd_stage := 2\<rparr>
      else if pd_stage d = 2 then d\<lparr>pd_cascade := v, pd_stage := 3\<rparr>
      else if pd_stage d = 3 then d\<lparr>pd_mode := v, pd_stage := 0\<rparr>
      else d\<lparr>pd_imr := v\<rparr>)"

fun pic_op :: "u16 \<Rightarrow> u16 \<Rightarrow> port_op \<Rightarrow> pic_dev \<Rightarrow> pic_dev" where
  "pic_op c dt (Out p v) d = (if p = c then pic_cmd v d else if p = dt then pic_data v d else d)"
| "pic_op c dt (In p v) d = d"

text \<open>The state of the two controllers after a history (most recent operation first).\<close>

definition pic1_after :: "port_op list \<Rightarrow> pic_dev" where
  "pic1_after tr = foldr (pic_op PIC1_CMD PIC1_DATA) tr pic_reset"

definition pic2_after :: "port_op list \<Rightarrow> pic_dev" where
  "pic2_after tr = foldr (pic_op PIC2_CMD PIC2_DATA) tr pic_reset"

text \<open>Reading a data port gives the mask register.\<close>

definition pic_hw :: "(port_op list \<Rightarrow> u16 \<Rightarrow> u8) \<Rightarrow> bool" where
  "pic_hw e \<longleftrightarrow> (\<forall>tr. e tr PIC1_DATA = pd_imr (pic1_after tr) \<and> e tr PIC2_DATA = pd_imr (pic2_after tr))"

definition line_masked :: "port_op list \<Rightarrow> nat \<Rightarrow> bool" where
  "line_masked tr i = (if i < 8 then bit (pd_imr (pic1_after tr)) i
                       else bit (pd_imr (pic2_after tr)) (i - 8))"

lemmas pic_ports = PIC1_CMD_def PIC1_DATA_def PIC2_CMD_def PIC2_DATA_def

lemma pic_after_ops [simp]:
  "pic1_after (In p v # tr) = pic1_after tr" "pic2_after (In p v # tr) = pic2_after tr"
  "pic1_after (Out p v # tr) = (if p = PIC1_CMD then pic_cmd v (pic1_after tr)
     else if p = PIC1_DATA then pic_data v (pic1_after tr) else pic1_after tr)"
  "pic2_after (Out p v # tr) = (if p = PIC2_CMD then pic_cmd v (pic2_after tr)
     else if p = PIC2_DATA then pic_data v (pic2_after tr) else pic2_after tr)"
  by (simp_all add: pic1_after_def pic2_after_def)

lemma inb_pic:
  assumes "pic_hw (io_env s)"
  shows "fst (inb PIC1_DATA s) = pd_imr (pic1_after (io_trace s))"
    "fst (inb PIC2_DATA s) = pd_imr (pic2_after (io_trace s))"
  using assms by (simp_all add: pic_hw_def inb_def Let_def)

lemma pic_after_io [simp]:
  "pic1_after (io_trace (snd (inb p s))) = pic1_after (io_trace s)"
  "pic2_after (io_trace (snd (inb p s))) = pic2_after (io_trace s)"
  "pic1_after (io_trace (outb p v s)) = (if p = PIC1_CMD then pic_cmd v (pic1_after (io_trace s))
     else if p = PIC1_DATA then pic_data v (pic1_after (io_trace s)) else pic1_after (io_trace s))"
  "pic2_after (io_trace (outb p v s)) = (if p = PIC2_CMD then pic_cmd v (pic2_after (io_trace s))
     else if p = PIC2_DATA then pic_data v (pic2_after (io_trace s)) else pic2_after (io_trace s))"
  by (simp_all add: inb_def outb_def Let_def)

lemma bit_irq_bit: "i < 8 \<Longrightarrow> bit (irq_bit irq) i \<longleftrightarrow> i = unat irq mod 8"
  by (auto simp: irq_bit_def bit_exp_iff)

lemma irq_index:
  assumes "irq < (16 :: u8)"
  shows "unat irq < 16" "\<not> irq < 8 \<Longrightarrow> unat (irq - 8) mod 8 = unat irq - 8" "irq < 8 \<longleftrightarrow> unat irq < 8"
  using assms by (simp_all add: word_less_nat_alt unat_sub_if_size word_le_nat_alt)

section \<open>Properties\<close>

text \<open>
  Remapping programs both controllers. From two idle controllers, \<open>remap\<close> leaves each with
  its initialisation sequence completed: the vector base given, the cascade wiring (slave on line
  2), 8086 mode, and the interrupt mask it had before.
\<close>

theorem pic_remap_programs_both_controllers:
  assumes "pic_hw (io_env s)"
    and "pd_stage (pic1_after (io_trace s)) = 0" "pd_stage (pic2_after (io_trace s)) = 0"
  shows "pic1_after (io_trace (pic_remap o1 o2 s)) =
      (pic1_after (io_trace s))\<lparr>pd_base := o1, pd_cascade := 4, pd_mode := 1\<rparr> \<and>
    pic2_after (io_trace (pic_remap o1 o2 s)) =
      (pic2_after (io_trace s))\<lparr>pd_base := o2, pd_cascade := 2, pd_mode := 1\<rparr>"
  using assms(2,3) inb_pic [OF assms(1)] inb_pic [of "snd (inb PIC1_DATA s)"] assms(1)
  by (simp add: pic_remap_def split_beta Let_def io_wait_def pic_cmd_def pic_data_def
      pic_ports ICW1_INIT_def ICW4_8086_def)

theorem pic_remap_programs_both_controllers_witness:
  defines "s \<equiv> \<lparr>io_env = (\<lambda>tr p. if p = PIC1_DATA then pd_imr (pic1_after tr)
      else pd_imr (pic2_after tr)), io_trace = [Out PIC1_DATA 0xFB]\<rparr>"
  shows "pd_base (pic1_after (io_trace (pic_remap 32 40 s))) = 32 \<and>
    pd_base (pic2_after (io_trace (pic_remap 32 40 s))) = 40 \<and>
    pd_imr (pic1_after (io_trace (pic_remap 32 40 s))) = 0xFB"
proof -
  have hw: "pic_hw (io_env s)" by (simp add: s_def pic_hw_def pic_ports)
  have "pic1_after [Out PIC1_DATA 0xFB] = pic_reset\<lparr>pd_imr := 0xFB\<rparr>" "pic2_after [Out PIC1_DATA 0xFB] = pic_reset"
    by (simp_all add: pic_ports pic_data_def pic1_after_def pic2_after_def pic_reset_def)
  then show ?thesis
    using pic_remap_programs_both_controllers [OF hw, of 32 40] by (simp add: s_def pic_reset_def)
qed

text \<open>
  Masking one interrupt line. For each of the sixteen lines, \<open>set_mask\<close> and \<open>clear_mask\<close>
  change exactly that line's bit in the mask register of its controller and nothing else in
  either controller; \<open>eoi\<close> acknowledges the master, and the slave too for lines 8 to 15.
\<close>

theorem pic_masks_one_line:
  assumes hw: "pic_hw (io_env s)" and irq: "irq < 16" and i: "i < 16"
    and idle: "pd_stage (pic1_after (io_trace s)) = 0" "pd_stage (pic2_after (io_trace s)) = 0"
  shows "line_masked (io_trace (set_mask irq s)) i = (i = unat irq \<or> line_masked (io_trace s) i) \<and>
    line_masked (io_trace (clear_mask irq s)) i = (i \<noteq> unat irq \<and> line_masked (io_trace s) i) \<and>
    pd_eois (pic1_after (io_trace (eoi irq s))) = pd_eois (pic1_after (io_trace s)) + 1 \<and>
    pd_eois (pic2_after (io_trace (eoi irq s))) =
      pd_eois (pic2_after (io_trace s)) + (if 8 \<le> unat irq then 1 else 0)"
  using idle i inb_pic [OF hw] irq_index [OF irq]
  by (cases "irq < 8")
    (auto simp: set_mask_def clear_mask_def eoi_def split_beta Let_def line_masked_def pic_cmd_def
      pic_data_def pic_ports bit_or_iff bit_and_iff bit_not_iff bit_irq_bit not_less)

theorem pic_masks_one_line_witness:
  defines "s \<equiv> \<lparr>io_env = (\<lambda>tr p. if p = PIC1_DATA then pd_imr (pic1_after tr)
      else pd_imr (pic2_after tr)), io_trace = [Out PIC1_DATA 0xFF]\<rparr>"
  shows "\<not> line_masked (io_trace (clear_mask 1 s)) 1 \<and> line_masked (io_trace (clear_mask 1 s)) 2"
proof -
  have hw: "pic_hw (io_env s)" by (simp add: s_def pic_hw_def pic_ports)
  have st: "pic1_after (io_trace s) = pic_reset\<lparr>pd_imr := 0xFF\<rparr>" "pic2_after (io_trace s) = pic_reset"
    by (simp_all add: s_def pic_ports pic_data_def pic1_after_def pic2_after_def pic_reset_def)
  have "line_masked (io_trace s) 2" by (simp add: line_masked_def st bit_numeral_rec)
  then show ?thesis
    using pic_masks_one_line [OF hw, of 1 1] pic_masks_one_line [OF hw, of 1 2] st
    by (simp add: pic_reset_def)
qed

text \<open>
  The reload value programmed into the timer is the divisor, low byte first, for every rate from
  19 Hz up; below that it is clamped to 65535, and a rate of 0 panics.
\<close>

lemma pit_reload:
  "pit_init 0 s = None"
  "hz \<noteq> 0 \<Longrightarrow> \<exists>s' lo hi. pit_init hz s = Some s' \<and> written PIT_CH0_DATA s' = written PIT_CH0_DATA s @ [lo, hi] \<and>
     unat lo + 256 * unat hi = min 65535 (1193182 div unat hz)"
proof -
  assume hz: "hz \<noteq> 0"
  let ?q = "PIT_FREQ div hz"
  let ?d = "if ?q > 0xFFFF then 0xFFFF else ucast ?q :: u16"
  have q: "unat ?q = 1193182 div unat hz" by (simp add: PIT_FREQ_def unat_div)
  have "unat ?d = min 65535 (1193182 div unat hz)"
    using q by (auto simp: word_less_nat_alt min_def unsigned_ucast_eq take_bit_eq_mod)
  moreover have "unat (ucast (?d AND 0xFF) :: u8) + 256 * unat (ucast (drop_bit 8 ?d) :: u8) = unat ?d"
  proof -
    have "unat (drop_bit 8 d) < 256" for d :: u16
      using unsigned_less [where 'a = nat, of d] by (simp add: drop_bit_eq_div unat_div)
    moreover have "unat (d AND 0xFF) = unat d mod 256" for d :: u16
      using unat_and_low [of 8 "0xFF" d] by (simp add: mask_eq_exp_minus_1)
    ultimately show ?thesis
      by (simp add: unsigned_ucast_eq take_bit_eq_mod drop_bit_eq_div unat_div)
  qed
  ultimately show "\<exists>s' lo hi. pit_init hz s = Some s' \<and>
      written PIT_CH0_DATA s' = written PIT_CH0_DATA s @ [lo, hi] \<and>
      unat lo + 256 * unat hi = min 65535 (1193182 div unat hz)"
    using hz by (simp add: pit_init_def Let_def PIT_CMD_def PIT_CH0_DATA_def)
qed (simp add: pit_init_def)

end
