(* ===== verification/Buddy.thy ===== *)
theory Buddy
  imports Prelude
begin

text \<open>
  The page allocator \<open>BuddyAllocator\<close> of \<open>src/kern/mm/buddy.rs\<close>: its state, all its
  operations, and what callers can rely on. The bitmap \<open>[u8; BITMAP_SIZE / 8]\<close> is a
  function from byte indices, read and written below \<open>BITMAP_SIZE div 8\<close> only, as the code's
  own guards enforce. A set bit means allocated.
\<close>

section \<open>State and operations\<close>

definition PAGE_SIZE :: usize where "PAGE_SIZE = 4096"
definition MAX_ORDER :: usize where "MAX_ORDER = 20"
definition BITMAP_SIZE :: usize where "BITMAP_SIZE = shl64 1 MAX_ORDER"

record buddy =
  bd_base :: usize
  bd_total_pages :: usize
  bd_bitmap :: "nat \<Rightarrow> u8"
  bd_max_order :: usize

definition buddy_new :: buddy where
  "buddy_new = \<lparr>bd_base = 0, bd_total_pages = 0, bd_bitmap = (\<lambda>_. 0), bd_max_order = 0\<rparr>"

function init_order :: "usize \<Rightarrow> usize \<Rightarrow> usize" where
  "init_order pages order =
     (if shl64 1 order < pages \<and> order < MAX_ORDER then init_order pages (order + 1) else order)"
  by pat_completeness auto
termination by (relation "measure (\<lambda>(pages, order). MAX_ORDER - order)") auto

definition buddy_init :: "buddy \<Rightarrow> usize \<Rightarrow> usize \<Rightarrow> buddy" where
  "buddy_init b base sz =
     (let pages = sz div PAGE_SIZE
      in b\<lparr>bd_base := base, bd_total_pages := pages,
           bd_max_order := init_order pages 0, bd_bitmap := (\<lambda>_. 0)\<rparr>)"

definition bit_index :: "buddy \<Rightarrow> usize \<Rightarrow> usize \<Rightarrow> usize" where
  "bit_index b order idx = usz (shl64 1 order - 1 + idx)"

definition buddy_get_bit :: "buddy \<Rightarrow> usize \<Rightarrow> bool" where
  "buddy_get_bit b n =
     (if n div 8 \<ge> BITMAP_SIZE div 8 then True
      else bd_bitmap b (n div 8) AND push_bit (n mod 8) 1 \<noteq> 0)"

definition buddy_set_bit :: "buddy \<Rightarrow> usize \<Rightarrow> buddy" where
  "buddy_set_bit b n =
     (if n div 8 < BITMAP_SIZE div 8
      then b\<lparr>bd_bitmap := (bd_bitmap b)(n div 8 := bd_bitmap b (n div 8) OR push_bit (n mod 8) 1)\<rparr>
      else b)"

definition buddy_clear_bit :: "buddy \<Rightarrow> usize \<Rightarrow> buddy" where
  "buddy_clear_bit b n =
     (if n div 8 < BITMAP_SIZE div 8
      then b\<lparr>bd_bitmap :=
             (bd_bitmap b)(n div 8 := bd_bitmap b (n div 8) AND NOT (push_bit (n mod 8) 1))\<rparr>
      else b)"

definition is_free :: "buddy \<Rightarrow> usize \<Rightarrow> usize \<Rightarrow> bool" where
  "is_free b order idx =
     (if order = bd_max_order b then \<not> buddy_get_bit b (bit_index b order idx)
      else \<not> buddy_get_bit b (bit_index b order idx))"

definition mark_allocated :: "buddy \<Rightarrow> usize \<Rightarrow> usize \<Rightarrow> buddy" where
  "mark_allocated b order idx = buddy_set_bit b (bit_index b order idx)"

definition mark_free :: "buddy \<Rightarrow> usize \<Rightarrow> usize \<Rightarrow> buddy" where
  "mark_free b order idx = buddy_clear_bit b (bit_index b order idx)"

definition find_free :: "buddy \<Rightarrow> usize \<Rightarrow> usize option" where
  "find_free b order = first_from (is_free b order) 0 (shr64 (bd_total_pages b) order)"

definition page_addr :: "buddy \<Rightarrow> usize \<Rightarrow> usize" where
  "page_addr b page = usz (bd_base b + usz (page * PAGE_SIZE))"

fun split_down :: "buddy \<Rightarrow> usize \<Rightarrow> usize \<Rightarrow> usize \<Rightarrow> buddy \<times> usize" where
  "split_down b order current_order current_idx =
     (if current_order > order
      then split_down (mark_free b (current_order - 1) (usz (current_idx * 2 + 1)))
             order (current_order - 1) (usz (current_idx * 2))
      else (b, current_idx))"

function split_search :: "buddy \<Rightarrow> usize \<Rightarrow> usize \<Rightarrow> buddy \<times> usize option" where
  "split_search b order split_order =
     (if split_order \<le> bd_max_order b
      then (case find_free b split_order of
              Some idx \<Rightarrow>
                (let (b', current_idx) =
                       split_down (mark_allocated b split_order idx) order split_order idx
                 in (b', Some (page_addr b' (shl64 current_idx order))))
            | None \<Rightarrow> split_search b order (split_order + 1))
      else (b, None))"
  by pat_completeness auto
termination
  by (relation "measure (\<lambda>(b, order, split_order). bd_max_order b + 1 - split_order)") auto

definition buddy_alloc_pages :: "buddy \<Rightarrow> usize \<Rightarrow> buddy \<times> usize option" where
  "buddy_alloc_pages b order =
     (if order > bd_max_order b then (b, None)
      else case find_free b order of
          Some idx \<Rightarrow> (mark_allocated b order idx, Some (page_addr b (shl64 idx order)))
        | None \<Rightarrow> split_search b order (order + 1))"

lemma mark_frame [simp]:
  "bd_base (mark_allocated b k i) = bd_base b"
  "bd_total_pages (mark_allocated b k i) = bd_total_pages b"
  "bd_max_order (mark_allocated b k i) = bd_max_order b"
  "bd_base (mark_free b k i) = bd_base b"
  "bd_total_pages (mark_free b k i) = bd_total_pages b"
  "bd_max_order (mark_free b k i) = bd_max_order b"
  by (simp_all add: mark_allocated_def mark_free_def buddy_set_bit_def buddy_clear_bit_def)

function merge_up :: "buddy \<Rightarrow> usize \<Rightarrow> usize \<Rightarrow> buddy" where
  "merge_up b current_order idx =
     (if current_order < bd_max_order b \<and> is_free b current_order (idx XOR 1)
      then merge_up
             (mark_free
               (mark_allocated (mark_allocated b current_order idx) current_order (idx XOR 1))
               (current_order + 1) (shr64 idx 1))
             (current_order + 1) (shr64 idx 1)
      else b)"
  by pat_completeness auto
termination
  by (relation "measure (\<lambda>(b, current_order, idx). bd_max_order b - current_order)")
    (simp, clarsimp simp: diff_less_mono2)

definition buddy_free_pages :: "buddy \<Rightarrow> usize \<Rightarrow> usize \<Rightarrow> buddy" where
  "buddy_free_pages b addr order =
     (if addr < bd_base b then b
      else let page = (addr - bd_base b) div PAGE_SIZE;
               idx = shr64 page order
           in merge_up (mark_free b order idx) order idx)"

definition alloc_one :: "buddy \<Rightarrow> buddy \<times> usize option" where
  "alloc_one b = buddy_alloc_pages b 0"

definition free_one :: "buddy \<Rightarrow> usize \<Rightarrow> buddy" where
  "free_one b addr = buddy_free_pages b addr 0"

definition buddy_total_pages :: "buddy \<Rightarrow> usize" where
  "buddy_total_pages b = bd_total_pages b"

declare init_order.simps [simp del] split_down.simps [simp del] split_search.simps [simp del]
  merge_up.simps [simp del]

section \<open>The bitmap as a set of free bits\<close>

text \<open>
  \<open>free_bits\<close> is the abstraction the proofs work with: the bit positions that read as free.
  Every operation of the allocator changes it by one element at a time.
\<close>

definition free_bits :: "buddy \<Rightarrow> nat set" where
  "free_bits b = {n. \<not> buddy_get_bit b n}"

lemma BITMAP_SIZE_val: "BITMAP_SIZE = 1048576"
  by (simp add: BITMAP_SIZE_def MAX_ORDER_def shl64_def usz_def)

lemma bitmap_byte_range [simp]: "n div 8 < BITMAP_SIZE div 8 \<longleftrightarrow> n < BITMAP_SIZE"
  by (auto simp: BITMAP_SIZE_val)

lemma buddy_get_bit_iff:
  "buddy_get_bit b n \<longleftrightarrow> n \<ge> BITMAP_SIZE \<or> bit (bd_bitmap b (n div 8)) (n mod 8)"
  by (simp add: buddy_get_bit_def bit_iff_and_push_bit_not_eq_0 not_less [symmetric])

lemma same_bit_position: "(m::nat) div 8 = n div 8 \<Longrightarrow> m mod 8 = n mod 8 \<longleftrightarrow> m = n"
  by (metis div_mod_decomp)

lemma buddy_get_set_bit: "buddy_get_bit (buddy_set_bit b n) m \<longleftrightarrow> m = n \<or> buddy_get_bit b m"
  by (auto simp: buddy_get_bit_iff buddy_set_bit_def bit_or_iff bit_exp_iff same_bit_position)

lemma buddy_get_clear_bit:
  "buddy_get_bit (buddy_clear_bit b n) m \<longleftrightarrow> buddy_get_bit b m \<and> (m = n \<longrightarrow> n \<ge> BITMAP_SIZE)"
  by (auto simp: buddy_get_bit_iff buddy_clear_bit_def bit_and_iff bit_not_iff bit_exp_iff
      same_bit_position)

lemma free_bits_mark_allocated [simp]:
  "free_bits (mark_allocated b k i) = free_bits b - {bit_index b k i}"
  by (auto simp: free_bits_def mark_allocated_def buddy_get_set_bit)

lemma free_bits_mark_free [simp]:
  "free_bits (mark_free b k i) = free_bits b \<union> ({bit_index b k i} \<inter> {..<BITMAP_SIZE})"
  by (auto simp: free_bits_def mark_free_def buddy_get_clear_bit)

lemma free_bits_bounded: "free_bits b \<subseteq> {..<BITMAP_SIZE}"
  by (auto simp: free_bits_def buddy_get_bit_iff)

lemma is_free_iff: "is_free b k i \<longleftrightarrow> bit_index b k i \<in> free_bits b"
  by (simp add: is_free_def free_bits_def)

lemma bit_index_val: "k < 64 \<Longrightarrow> 2 ^ k + i \<le> 2 ^ 64 \<Longrightarrow> bit_index b k i = 2 ^ k - 1 + i"
  using one_le_power [of "2::nat" k] by (simp add: bit_index_def shl64_one)

lemma find_free_Some:
  "find_free b k = Some i \<longleftrightarrow>
     i < shr64 (bd_total_pages b) k \<and> is_free b k i \<and> (\<forall>j<i. \<not> is_free b k j)"
  by (simp add: find_free_def first_from_Some)

lemma find_free_None:
  "find_free b k = None \<longleftrightarrow> (\<forall>i < shr64 (bd_total_pages b) k. \<not> is_free b k i)"
  by (simp add: find_free_def first_from_None)

section \<open>Frame: no operation moves the managed region\<close>

lemma split_down_frame [simp]:
  "bd_base (fst (split_down b k c i)) = bd_base b"
  "bd_total_pages (fst (split_down b k c i)) = bd_total_pages b"
  "bd_max_order (fst (split_down b k c i)) = bd_max_order b"
  by (induction b k c i rule: split_down.induct; subst split_down.simps; simp)+

lemma split_search_frame [simp]:
  "bd_base (fst (split_search b k c)) = bd_base b"
  "bd_total_pages (fst (split_search b k c)) = bd_total_pages b"
  "bd_max_order (fst (split_search b k c)) = bd_max_order b"
  by (induction b k c rule: split_search.induct; subst split_search.simps;
      simp split: option.split prod.split; metis fst_conv mark_frame split_down_frame)+

lemma buddy_alloc_frame [simp]:
  "bd_base (fst (buddy_alloc_pages b k)) = bd_base b"
  "bd_total_pages (fst (buddy_alloc_pages b k)) = bd_total_pages b"
  "bd_max_order (fst (buddy_alloc_pages b k)) = bd_max_order b"
  by (simp_all add: buddy_alloc_pages_def split: option.split)

lemma merge_up_frame [simp]:
  "bd_base (merge_up b k i) = bd_base b"
  "bd_total_pages (merge_up b k i) = bd_total_pages b"
  "bd_max_order (merge_up b k i) = bd_max_order b"
  by (induction b k i rule: merge_up.induct; subst merge_up.simps; simp)+

lemma buddy_free_frame [simp]:
  "bd_base (buddy_free_pages b a k) = bd_base b"
  "bd_total_pages (buddy_free_pages b a k) = bd_total_pages b"
  "bd_max_order (buddy_free_pages b a k) = bd_max_order b"
  by (simp_all add: buddy_free_pages_def Let_def)

section \<open>The managed region and the blocks handed out\<close>

definition buddy_wf :: "buddy \<Rightarrow> bool" where
  "buddy_wf b \<longleftrightarrow>
     bd_max_order b \<le> MAX_ORDER \<and> bd_base b + bd_total_pages b * PAGE_SIZE \<le> 2 ^ 64"

text \<open>A block of \<open>2 ^ k\<close> pages that lies in the region and is aligned to its size there.\<close>

definition block_ok :: "buddy \<Rightarrow> usize \<Rightarrow> usize \<Rightarrow> bool" where
  "block_ok b k a \<longleftrightarrow>
     bd_base b \<le> a \<and>
     a + 2 ^ k * PAGE_SIZE \<le> bd_base b + bd_total_pages b * PAGE_SIZE \<and>
     (2 ^ k * PAGE_SIZE) dvd (a - bd_base b)"

lemma buddy_wf_ops [simp]:
  "buddy_wf (fst (buddy_alloc_pages b k)) = buddy_wf b"
  "buddy_wf (buddy_free_pages b a k) = buddy_wf b"
  by (simp_all add: buddy_wf_def)

lemma block_ok_ops [simp]:
  "block_ok (fst (buddy_alloc_pages b k)) = block_ok b"
  "block_ok (buddy_free_pages b a k) = block_ok b"
  by (simp_all add: block_ok_def fun_eq_iff)

lemma buddy_wf_order: "buddy_wf b \<Longrightarrow> k \<le> bd_max_order b \<Longrightarrow> k < 64"
  by (simp add: buddy_wf_def MAX_ORDER_def)

lemma page_addr_val:
  assumes "buddy_wf b" "p < bd_total_pages b"
  shows "page_addr b p = bd_base b + p * PAGE_SIZE"
proof -
  have "p * PAGE_SIZE < bd_total_pages b * PAGE_SIZE"
    using assms(2) by (simp add: PAGE_SIZE_def)
  then have "bd_base b + p * PAGE_SIZE < 2 ^ 64"
    using assms(1) unfolding buddy_wf_def by linarith
  then show ?thesis by (simp add: page_addr_def)
qed

lemma block_fits:
  fixes i n x :: nat
  assumes "i < n div x" shows "i * x + x \<le> n"
proof -
  have "(i + 1) * x \<le> n div x * x" using assms by (intro mult_le_mono1) simp
  also have "\<dots> \<le> n" by simp
  finally show ?thesis by simp
qed

lemma page_addr_block:
  assumes wf: "buddy_wf b" and k: "k < 64" and fits: "j * 2 ^ k + 2 ^ k \<le> bd_total_pages b"
  shows "page_addr b (shl64 j k) = bd_base b + j * 2 ^ k * PAGE_SIZE"
    and "block_ok b k (page_addr b (shl64 j k))"
proof -
  have lt: "j * 2 ^ k < bd_total_pages b"
    using fits by (meson less_le_trans less_add_same_cancel1 zero_less_numeral zero_less_power)
  have "bd_total_pages b \<le> 2 ^ 64"
    using wf by (simp add: buddy_wf_def PAGE_SIZE_def)
  with lt k have "shl64 j k = j * 2 ^ k" by (simp add: shl64_def)
  then show addr: "page_addr b (shl64 j k) = bd_base b + j * 2 ^ k * PAGE_SIZE"
    using page_addr_val [OF wf lt] by simp
  have "(j * 2 ^ k + 2 ^ k) * PAGE_SIZE \<le> bd_total_pages b * PAGE_SIZE"
    using fits by (rule mult_le_mono1)
  then show "block_ok b k (page_addr b (shl64 j k))"
    by (simp add: block_ok_def addr algebra_simps)
qed

lemma split_down_idx:
  "k \<le> c \<Longrightarrow> i * 2 ^ (c - k) < 2 ^ 64 \<Longrightarrow> snd (split_down b k c i) = i * 2 ^ (c - k)"
proof (induction b k c i rule: split_down.induct)
  case (1 b k c i)
  show ?case
  proof (cases "k < c")
    case True
    then have pow: "i * 2 ^ (c - k) = (i * 2) * 2 ^ (c - 1 - k)"
      by (simp flip: power_Suc add: Suc_diff_Suc)
    have "i * 2 \<le> i * 2 * 2 ^ (c - 1 - k)" by simp
    with "1.prems"(2) have "i * 2 < 2 ^ 64" unfolding pow by linarith
    with "1.IH" [OF True] True "1.prems" show ?thesis
      by (subst split_down.simps) (simp add: pow)
  next
    case False
    with "1.prems" show ?thesis by (subst split_down.simps) simp
  qed
qed

lemma split_search_block:
  assumes "buddy_wf b" "k < s" "snd (split_search b k s) = Some a"
  shows "block_ok b k a"
  using assms
proof (induction b k s rule: split_search.induct)
  case (1 b k s)
  then have s: "s \<le> bd_max_order b"
    by (auto simp: split_search.simps [of b k s] split: if_splits)
  have s64: "s < 64" using buddy_wf_order [OF "1.prems"(1) s] .
  show ?case
  proof (cases "find_free b s")
    case None
    with "1" s show ?thesis by (auto simp: split_search.simps [of b k s])
  next
    case (Some idx)
    let ?d = "split_down (mark_allocated b s idx) k s idx"
    have fits: "idx * 2 ^ s + 2 ^ s \<le> bd_total_pages b"
      using Some s64 by (auto simp: find_free_Some shr64_small intro: block_fits)
    have pow: "(2::nat) ^ s = 2 ^ (s - k) * 2 ^ k"
      using "1.prems"(2) by (simp flip: power_add)
    have "idx * 2 ^ (s - k) \<le> idx * 2 ^ s" by (simp add: power_increasing)
    moreover have "bd_total_pages b \<le> 2 ^ 64"
      using "1.prems"(1) by (simp add: buddy_wf_def PAGE_SIZE_def)
    moreover have "idx * 2 ^ s < bd_total_pages b"
      using fits by (meson less_le_trans less_add_same_cancel1 zero_less_numeral zero_less_power)
    ultimately have "idx * 2 ^ (s - k) < 2 ^ 64" by linarith
    then have idx: "snd ?d = idx * 2 ^ (s - k)"
      using "1.prems"(2) by (intro split_down_idx) auto
    have a: "a = page_addr (fst ?d) (shl64 (snd ?d) k)"
      using "1.prems"(3) s Some
      by (simp add: split_search.simps [of b k s] split_beta Let_def)
    have "(2::nat) ^ k \<le> 2 ^ s" using "1.prems"(2) by (simp add: power_increasing)
    then have "idx * 2 ^ (s - k) * 2 ^ k + 2 ^ k \<le> bd_total_pages b"
      using fits unfolding mult.assoc pow [symmetric] by linarith
    then have "block_ok b k (page_addr b (shl64 (snd ?d) k))"
      unfolding idx using "1.prems"(1,2) s64 by (intro page_addr_block) auto
    then show ?thesis by (simp add: a page_addr_def)
  qed
qed

lemma alloc_pages_block:
  assumes "buddy_wf b" "snd (buddy_alloc_pages b k) = Some a"
  shows "block_ok b k a"
proof -
  from assms(2) have k: "k \<le> bd_max_order b"
    by (auto simp: buddy_alloc_pages_def split: if_splits)
  show ?thesis
  proof (cases "find_free b k")
    case None
    with assms k show ?thesis
      by (auto simp: buddy_alloc_pages_def intro: split_search_block)
  next
    case (Some idx)
    then have "idx * 2 ^ k + 2 ^ k \<le> bd_total_pages b"
      using buddy_wf_order [OF assms(1) k]
      by (auto simp: find_free_Some shr64_small intro: block_fits)
    with Some assms k buddy_wf_order [OF assms(1) k] show ?thesis
      by (auto simp: buddy_alloc_pages_def intro: page_addr_block)
  qed
qed

lemma split_search_None:
  "snd (split_search b k s) = None \<longleftrightarrow>
     (\<forall>j. s \<le> j \<and> j \<le> bd_max_order b \<longrightarrow> find_free b j = None)"
proof (induction b k s rule: split_search.induct)
  case (1 b k s)
  show ?case
  proof (cases "s \<le> bd_max_order b \<and> find_free b s = None")
    case True
    with "1" show ?thesis
      by (subst split_search.simps) (auto simp: not_less_eq_eq[symmetric] le_Suc_eq
          dest: le_neq_implies_less)
  next
    case False
    then show ?thesis
      by (subst split_search.simps) (auto split: option.split prod.split)
  qed
qed

lemma alloc_pages_None:
  "snd (buddy_alloc_pages b k) = None \<longleftrightarrow>
     (\<forall>j. k \<le> j \<and> j \<le> bd_max_order b \<longrightarrow> find_free b j = None)"
proof (cases "k \<le> bd_max_order b \<and> find_free b k = None")
  case True
  then show ?thesis
    by (auto simp: buddy_alloc_pages_def split_search_None) (metis le_neq_implies_less Suc_leI)
next
  case False
  then show ?thesis by (auto simp: buddy_alloc_pages_def split: option.split)
qed

lemma init_order_spec:
  "k \<le> MAX_ORDER \<Longrightarrow>
     k \<le> init_order p k \<and> init_order p k \<le> MAX_ORDER \<and>
     (init_order p k = MAX_ORDER \<or> p \<le> 2 ^ init_order p k) \<and>
     (\<forall>j. k \<le> j \<and> j < init_order p k \<longrightarrow> 2 ^ j < p)"
proof (induction p k rule: init_order.induct)
  case (1 p k)
  have k64: "k < 64" using "1.prems" by (simp add: MAX_ORDER_def)
  show ?case
  proof (cases "2 ^ k < p \<and> k < MAX_ORDER")
    case True
    then have eq: "init_order p k = init_order p (Suc k)"
      using k64 by (subst init_order.simps) simp
    have "Suc k \<le> init_order p (Suc k) \<and> init_order p (Suc k) \<le> MAX_ORDER \<and>
        (init_order p (Suc k) = MAX_ORDER \<or> p \<le> 2 ^ init_order p (Suc k)) \<and>
        (\<forall>j. Suc k \<le> j \<and> j < init_order p (Suc k) \<longrightarrow> 2 ^ j < p)"
      using "1.IH" True k64 by simp
    with True show ?thesis unfolding eq by (metis Suc_leD le_eq_less_or_eq Suc_leI)
  next
    case False
    then have "init_order p k = k" using k64 by (subst init_order.simps) auto
    with False "1.prems" show ?thesis by auto
  qed
qed

lemma buddy_init_fields [simp]:
  "bd_base (buddy_init b base sz) = base"
  "bd_total_pages (buddy_init b base sz) = sz div PAGE_SIZE"
  by (simp_all add: buddy_init_def Let_def)

lemma buddy_wf_init:
  assumes "base + sz \<le> 2 ^ 64" shows "buddy_wf (buddy_init b base sz)"
proof -
  have "base + sz div PAGE_SIZE * PAGE_SIZE \<le> base + sz" by simp
  also note assms
  finally show ?thesis
    using init_order_spec [of 0 "sz div PAGE_SIZE"]
    by (simp add: buddy_wf_def buddy_init_def Let_def)
qed

lemma free_bits_init: "free_bits (buddy_init b base sz) = {..<BITMAP_SIZE}"
  by (auto simp: free_bits_def buddy_init_def Let_def buddy_get_bit_iff)

section \<open>The allocator from a fresh state\<close>

text \<open>\<open>alloc_many\<close> calls \<open>alloc_one\<close> a number of times and collects the answers.\<close>

fun alloc_many :: "buddy \<Rightarrow> nat \<Rightarrow> buddy \<times> usize option list" where
  "alloc_many b 0 = (b, [])"
| "alloc_many b (Suc n) =
     (let (b', a) = alloc_one b; (b'', as) = alloc_many b' n in (b'', a # as))"

lemma aliased_bit_below:
  fixes i n k :: nat
  assumes "i < n div 2 ^ k" shows "2 ^ k + i \<le> n"
proof -
  have "i \<le> i * 2 ^ k" by simp
  with block_fits [OF assms] show ?thesis by linarith
qed

lemma alloc_one_bump:
  assumes wf: "buddy_wf b" and free: "free_bits b = {n..<BITMAP_SIZE}"
    and small: "bd_total_pages b \<le> BITMAP_SIZE"
  shows "n < bd_total_pages b \<Longrightarrow> snd (alloc_one b) = Some (bd_base b + n * PAGE_SIZE)"
    and "n < bd_total_pages b \<Longrightarrow> free_bits (fst (alloc_one b)) = {Suc n..<BITMAP_SIZE}"
    and "bd_total_pages b \<le> n \<Longrightarrow> alloc_one b = (b, None)"
proof -
  have bi: "bit_index b 0 i = i" if "i < BITMAP_SIZE" for i
    using that bit_index_val [of 0 i b] by (simp add: BITMAP_SIZE_val)
  { assume n: "n < bd_total_pages b"
    have "find_free b 0 = Some n"
      unfolding find_free_Some is_free_iff free using n small bi by auto
    then have a: "alloc_one b = (mark_allocated b 0 n, Some (page_addr b n))"
      using n small by (simp add: alloc_one_def buddy_alloc_pages_def BITMAP_SIZE_val)
    show "snd (alloc_one b) = Some (bd_base b + n * PAGE_SIZE)"
      using a page_addr_val [OF wf n] by simp
    show "free_bits (fst (alloc_one b)) = {Suc n..<BITMAP_SIZE}"
      using a n small bi [of n] by (auto simp: free) }
  assume n: "bd_total_pages b \<le> n"
  have none: "find_free b j = None" if "j \<le> bd_max_order b" for j
    unfolding find_free_None is_free_iff free
  proof (intro allI impI)
    fix i assume "i < shr64 (bd_total_pages b) j"
    then have below: "2 ^ j + i \<le> bd_total_pages b"
      using buddy_wf_order [OF wf that] by (simp add: shr64_small aliased_bit_below)
    then have "bit_index b j i = 2 ^ j - 1 + i"
      using small buddy_wf_order [OF wf that]
      by (intro bit_index_val) (auto simp: BITMAP_SIZE_val)
    then have "bit_index b j i < n" using below n one_le_power [of "2::nat" j] by linarith
    then show "bit_index b j i \<notin> {n..<BITMAP_SIZE}" by simp
  qed
  have "split_search b 0 (Suc 0) = (b, None)"
  proof -
    have "fst (split_search b 0 s) = b" if "snd (split_search b 0 s) = None" for s
      using that
    proof (induction b "0::nat" s rule: split_search.induct)
      case (1 b s)
      then show ?case
        by (subst split_search.simps)
          (auto simp: split_search.simps [of b 0 s] split: if_splits option.splits prod.splits)
    qed
    then show ?thesis using none by (simp add: prod_eq_iff split_search_None)
  qed
  then show "alloc_one b = (b, None)"
    using none [of 0] by (simp add: alloc_one_def buddy_alloc_pages_def)
qed

abbreviation bump_answer :: "buddy \<Rightarrow> nat \<Rightarrow> usize option" where
  "bump_answer b i \<equiv> if i < bd_total_pages b then Some (bd_base b + i * PAGE_SIZE) else None"

lemma alloc_many_bump:
  assumes "buddy_wf b" "free_bits b = {m..<BITMAP_SIZE}" "bd_total_pages b \<le> BITMAP_SIZE"
    "m \<le> bd_total_pages b"
  shows "snd (alloc_many b n) = map (bump_answer b) [m..<m + n] \<and>
    free_bits (fst (alloc_many b n)) = {min (m + n) (bd_total_pages b)..<BITMAP_SIZE}"
  using assms
proof (induction n arbitrary: b m)
  case 0
  then show ?case by simp
next
  case (Suc n)
  let ?b = "fst (alloc_one b)"
  have frame: "buddy_wf ?b = buddy_wf b" "bd_base ?b = bd_base b"
    "bd_total_pages ?b = bd_total_pages b"
    by (simp_all add: alloc_one_def)
  consider "m < bd_total_pages b" | "m = bd_total_pages b" using Suc.prems(4) by linarith
  then show ?case
  proof cases
    case 1
    note bump = alloc_one_bump [OF Suc.prems(1-3)]
    have "snd (alloc_many ?b n) = map (bump_answer b) [Suc m..<Suc m + n] \<and>
        free_bits (fst (alloc_many ?b n)) = {min (Suc m + n) (bd_total_pages b)..<BITMAP_SIZE}"
      using Suc.IH [of ?b "Suc m"] Suc.prems 1 bump(2) [OF 1] by (simp add: frame)
    with 1 bump(1) [OF 1] show ?thesis
      by (simp add: split_beta Let_def upt_conv_Cons del: upt_Suc)
  next
    case 2
    then have "alloc_one b = (b, None)" using alloc_one_bump(3) [OF Suc.prems(1-3)] by simp
    moreover have rep: "map (bump_answer b) [m..<m + k] = replicate k None" for k
      using 2 by (intro nth_equalityI) auto
    ultimately show ?thesis
      using Suc.IH [OF Suc.prems] rep [of "Suc n"] rep [of n] 2
      by (simp add: split_beta Let_def del: upt_Suc)
  qed
qed

lemma fresh_bump:
  fixes b0 :: buddy and base sz :: usize
  assumes "base + sz \<le> 2 ^ 64" "sz div PAGE_SIZE \<le> BITMAP_SIZE"
  defines "b \<equiv> buddy_init b0 base sz"
  shows "snd (alloc_many b n) =
      map (\<lambda>i. if i < sz div PAGE_SIZE then Some (base + i * PAGE_SIZE) else None) [0..<n]"
    and "free_bits (fst (alloc_many b n)) = {min n (sz div PAGE_SIZE)..<BITMAP_SIZE}"
proof -
  have fields: "bd_total_pages b = sz div PAGE_SIZE" "bd_base b = base"
    by (simp_all add: b_def)
  have "free_bits b = {0..<BITMAP_SIZE}"
    by (simp add: b_def free_bits_init lessThan_atLeast0)
  with alloc_many_bump [of b 0 n] buddy_wf_init [OF assms(1), of b0] assms(2)
  show "snd (alloc_many b n) =
      map (\<lambda>i. if i < sz div PAGE_SIZE then Some (base + i * PAGE_SIZE) else None) [0..<n]"
    and "free_bits (fst (alloc_many b n)) = {min n (sz div PAGE_SIZE)..<BITMAP_SIZE}"
    by (simp_all add: fields flip: b_def)
qed

lemma alloc_many_frame [simp]:
  "bd_base (fst (alloc_many b n)) = bd_base b" "bd_total_pages (fst (alloc_many b n)) = bd_total_pages b"
  "bd_max_order (fst (alloc_many b n)) = bd_max_order b"
  by (induction n arbitrary: b) (simp_all add: Let_def split_beta alloc_one_def)

lemma bit_index_page:
  assumes "k \<le> MAX_ORDER" "i < BITMAP_SIZE" shows "bit_index b k i = 2 ^ k - 1 + i"
proof -
  have "(2 :: nat) ^ k \<le> 2 ^ MAX_ORDER" using assms(1) by (rule power_increasing) simp
  then show ?thesis using assms by (intro bit_index_val) (simp_all add: MAX_ORDER_def BITMAP_SIZE_val)
qed

text \<open>When exactly the first \<open>n\<close> bits are taken, order \<open>k\<close> finds the block whose bit is the next one.\<close>

lemma alloc_nth_block:
  assumes wf: "buddy_wf b" and k: "k \<le> bd_max_order b" "(n - (2 ^ k - 1) + 1) * 2 ^ k \<le> bd_total_pages b"
    and free: "free_bits b = {n..<BITMAP_SIZE}" and small: "bd_total_pages b \<le> BITMAP_SIZE"
  shows "buddy_alloc_pages b k =
    (mark_allocated b k (n - (2 ^ k - 1)), Some (bd_base b + (n - (2 ^ k - 1)) * 2 ^ k * PAGE_SIZE))"
proof -
  let ?i = "n - (2 ^ k - 1)"
  have k64: "k < 64" using wf k(1) by (rule buddy_wf_order)
  have fits: "?i * 2 ^ k + 2 ^ k \<le> bd_total_pages b" using k(2) by simp
  then have "?i + 2 ^ k \<le> bd_total_pages b" using aliased_bit_below [of ?i "bd_total_pages b" k] by (simp add: less_eq_div_iff_mult_less_eq Suc_le_eq [symmetric] add.commute)
  then have bits: "bit_index b k j = 2 ^ k - 1 + j \<and> 2 ^ k - 1 + j < BITMAP_SIZE" if "j \<le> ?i" for j
    using that small bit_index_val [OF k64, of j b] by (simp add: BITMAP_SIZE_val)
  have "?i < bd_total_pages b div 2 ^ k"
    using fits by (simp add: less_eq_div_iff_mult_less_eq Suc_le_eq [symmetric])
  moreover have "is_free b k j \<longleftrightarrow> n \<le> 2 ^ k - 1 + j" if "j \<le> ?i" for j
    using bits [OF that] unfolding is_free_iff free by simp
  moreover have "n \<le> 2 ^ k - 1 + ?i" "\<And>j. j < ?i \<Longrightarrow> \<not> n \<le> 2 ^ k - 1 + j" by linarith+
  ultimately have "find_free b k = Some ?i" by (simp add: find_free_Some shr64_small [OF k64] less_imp_le)
  moreover have "page_addr b (shl64 ?i k) = bd_base b + ?i * 2 ^ k * PAGE_SIZE"
    using page_addr_block(1) [OF wf k64 fits] .
  ultimately show ?thesis using k(1) by (simp add: buddy_alloc_pages_def)
qed

lemma alloc_first_block:
  assumes wf: "buddy_wf b" and k: "k \<le> bd_max_order b" "2 ^ k \<le> bd_total_pages b"
    and free: "2 ^ k - 1 \<in> free_bits b"
  shows "buddy_alloc_pages b k = (mark_allocated b k 0, Some (bd_base b))"
proof -
  have k64: "k < 64" using wf k(1) by (rule buddy_wf_order)
  have "0 < shr64 (bd_total_pages b) k" using k(2) k64 by (simp add: shr64_small div_greater_zero_iff)
  moreover have "bit_index b k 0 = 2 ^ k - 1"
    using bit_index_val [of k 0 b] k64 pow2_less_64 [OF k64] by simp
  ultimately have "find_free b k = Some 0" using free by (simp add: find_free_Some is_free_iff)
  moreover have "page_addr b (shl64 0 k) = bd_base b"
    using page_addr_block(1) [of b k 0] wf k64 k(2) by simp
  ultimately show ?thesis using k(1) by (simp add: buddy_alloc_pages_def)
qed

lemma init_max_order:
  assumes "k \<le> MAX_ORDER" "2 ^ k \<le> sz div PAGE_SIZE"
  shows "k \<le> bd_max_order (buddy_init b base sz)"
proof (rule ccontr)
  let ?m = "init_order (sz div PAGE_SIZE) 0"
  assume "\<not> k \<le> bd_max_order (buddy_init b base sz)"
  then have "?m < k" by (simp add: buddy_init_def Let_def)
  then have "(2::nat) ^ ?m < 2 ^ k" by simp
  with \<open>?m < k\<close> init_order_spec [of 0 "sz div PAGE_SIZE"] assms show False by auto
qed

section \<open>What callers can rely on\<close>

text \<open>
  C1: every block \<open>alloc_pages\<close> returns, whether found directly or split off a larger one,
  lies inside the region given to \<open>init\<close>, is aligned to its own size relative to the base of
  that region, and the region description itself is unchanged by the call.
\<close>

theorem alloc_pages_in_region:
  assumes "buddy_wf b" and "buddy_alloc_pages b order = (b', Some a)"
  shows "bd_base b \<le> a \<and>
    a + 2 ^ order * PAGE_SIZE \<le> bd_base b + bd_total_pages b * PAGE_SIZE \<and>
    (2 ^ order * PAGE_SIZE) dvd (a - bd_base b) \<and>
    buddy_wf b' \<and> bd_base b' = bd_base b \<and> bd_total_pages b' = bd_total_pages b"
proof -
  have "block_ok b order a" using alloc_pages_block [OF assms(1)] assms(2) by simp
  moreover have "b' = fst (buddy_alloc_pages b order)" using assms(2) by simp
  ultimately show ?thesis using assms(1) by (simp add: block_ok_def)
qed

theorem alloc_pages_in_region_witness:
  defines "b \<equiv> buddy_init buddy_new 0x100000 0x10000"
  shows "buddy_alloc_pages b 1 = (mark_allocated b 1 0, Some 0x100000) \<and>
    (0x100000::nat) + 2 ^ 1 * PAGE_SIZE \<le> bd_base b + bd_total_pages b * PAGE_SIZE"
proof -
  have wf: "buddy_wf b" by (simp add: b_def buddy_wf_init)
  have "1 \<le> bd_max_order b"
    unfolding b_def by (rule init_max_order) (simp_all add: MAX_ORDER_def PAGE_SIZE_def)
  then have "buddy_alloc_pages b 1 = (mark_allocated b 1 0, Some (bd_base b))"
    using wf by (intro alloc_first_block)
      (simp_all add: b_def free_bits_init BITMAP_SIZE_val PAGE_SIZE_def)
  then have call: "buddy_alloc_pages b 1 = (mark_allocated b 1 0, Some 0x100000)"
    by (simp add: b_def)
  then show ?thesis using alloc_pages_in_region [OF wf call] by simp
qed

text \<open>
  \<open>alloc_pages\<close> fails exactly when the order is beyond \<open>max_order\<close> or no order from the
  requested one up to \<open>max_order\<close> has a block whose bit reads free; the searches end, so the
  call always returns.
\<close>

theorem alloc_pages_fails_iff:
  "snd (buddy_alloc_pages b order) = None \<longleftrightarrow>
     \<not> (\<exists>k i. order \<le> k \<and> k \<le> bd_max_order b \<and>
              i < shr64 (bd_total_pages b) k \<and> is_free b k i)"
  by (auto simp: alloc_pages_None find_free_None)

text \<open>
  C2: from a freshly initialised allocator whose region fits the bitmap, successive calls of
  \<open>alloc_one\<close> hand out the pages of the region in ascending order, each exactly once, and
  answer \<open>None\<close> from then on (the splitting path never fires, because the bits of the higher
  orders are aliased with bits already set).
\<close>

theorem fresh_allocator_hands_out_each_page_once:
  assumes "base + sz \<le> 2 ^ 64" and "sz div PAGE_SIZE \<le> BITMAP_SIZE"
  shows "snd (alloc_many (buddy_init b0 base sz) n) =
     map (\<lambda>i. if i < sz div PAGE_SIZE then Some (base + i * PAGE_SIZE) else None) [0..<n]"
  using assms by (rule fresh_bump)

theorem fresh_allocator_hands_out_each_page_once_witness:
  "snd (alloc_many (buddy_init buddy_new 0x100000 0x3000) 5) =
     [Some 0x100000, Some 0x101000, Some 0x102000, None, None]"
  using fresh_allocator_hands_out_each_page_once [of "0x100000" "0x3000" buddy_new 5]
  by (simp add: PAGE_SIZE_def BITMAP_SIZE_val upt_rec)

text \<open>
  \<open>init\<close> chooses the least order whose block covers the region, capped at
  \<open>MAX_ORDER\<close>; every bit starts free.
\<close>

theorem buddy_init_spec:
  "bd_max_order (buddy_init b base sz) \<le> MAX_ORDER \<and>
   (bd_max_order (buddy_init b base sz) = MAX_ORDER \<or>
    sz div PAGE_SIZE \<le> 2 ^ bd_max_order (buddy_init b base sz)) \<and>
   (\<forall>j. 2 ^ j \<ge> sz div PAGE_SIZE \<longrightarrow> bd_max_order (buddy_init b base sz) \<le> j) \<and>
   free_bits (buddy_init b base sz) = {..<BITMAP_SIZE}"
  using init_order_spec [of 0 "sz div PAGE_SIZE"]
  by (auto simp: free_bits_init) (auto simp: buddy_init_def Let_def not_less leI
      dest: leD intro: leI)

theorem buddy_init_spec_witness:
  "(2::nat) ^ 4 \<ge> 0x10000 div PAGE_SIZE \<and> bd_max_order (buddy_init buddy_new 0 0x10000) \<le> 4"
  using buddy_init_spec [of buddy_new 0 "0x10000"] by (simp add: PAGE_SIZE_def)

lemma first_blocks_overlap:
  fixes n K :: nat
  assumes "0 < K"
  shows "(\<exists>j<n. (n - (K - 1)) * K \<le> j \<and> j < (n - (K - 1)) * K + K) \<longleftrightarrow> 1 \<le> n \<and> n < K"
proof (cases "n < K")
  case True
  then show ?thesis using assms by (auto intro: exI [of _ 0])
next
  case False
  then obtain i where "n = K - 1 + Suc i" using assms by (intro that [of "n - K"]) simp
  moreover have "i \<le> i * K" using assms by simp
  ultimately have "n \<le> (n - (K - 1)) * K" using assms by (simp only: add_diff_cancel_left') simp
  then show ?thesis using False by auto
qed

text \<open>
  C3: the orders share one bitmap, and beyond that they do not look at each other. Block \<open>i\<close> of order
  \<open>k\<close> has the bit of page \<open>2 ^ k - 1 + i\<close> (\<open>bit_index\<close>), whatever pages it consists of. After \<open>n\<close> calls of
  \<open>alloc_one\<close> on a fresh allocator \<open>alloc_pages(k)\<close> therefore returns the block \<open>n - (2 ^ k - 1)\<close>
  (block 0 if that is negative), if the region has it. That block contains a page
  which \<open>alloc_one\<close> has handed out exactly when \<open>1 \<le> n < 2 ^ k\<close>: then it starts at the base of the region and
  overlaps every page handed out.
\<close>

theorem mixed_orders_overlap:
  fixes b0 :: buddy
  assumes "base + sz \<le> 2 ^ 64" and "sz div PAGE_SIZE \<le> BITMAP_SIZE" and "k \<le> MAX_ORDER"
    and "n \<le> sz div PAGE_SIZE" and "(n - (2 ^ k - 1) + 1) * 2 ^ k \<le> sz div PAGE_SIZE"
  defines "b \<equiv> fst (alloc_many (buddy_init b0 base sz) n)" and "a \<equiv> base + (n - (2 ^ k - 1)) * 2 ^ k * PAGE_SIZE"
  shows "snd (buddy_alloc_pages b k) = Some a \<and>
    (\<forall>i. 2 ^ k - 1 + i < BITMAP_SIZE \<longrightarrow> bit_index b k i = bit_index b 0 (2 ^ k - 1 + i)) \<and>
    ((\<exists>j<n. a \<le> base + j * PAGE_SIZE \<and> base + j * PAGE_SIZE < a + 2 ^ k * PAGE_SIZE) \<longleftrightarrow> 1 \<le> n \<and> n < 2 ^ k) \<and>
    (n < 2 ^ k \<longrightarrow> (\<forall>j<n. a \<le> base + j * PAGE_SIZE \<and> base + (j + 1) * PAGE_SIZE \<le> a + 2 ^ k * PAGE_SIZE))"
proof -
  let ?i = "n - (2 ^ k - 1)"
  have "2 ^ k * 1 \<le> 2 ^ k * (?i + 1)" by (rule mult_le_mono2) simp
  then have pages: "2 ^ k \<le> sz div PAGE_SIZE" using assms(5) by (simp add: mult.commute)
  have free: "free_bits b = {n..<BITMAP_SIZE}" using fresh_bump(2) [OF assms(1,2), of b0 n] assms(4) by (simp add: b_def)
  have wf: "buddy_wf b" using buddy_wf_init [OF assms(1), of b0] by (simp add: b_def buddy_wf_def)
  have "buddy_alloc_pages b k = (mark_allocated b k ?i, Some (bd_base b + ?i * 2 ^ k * PAGE_SIZE))"
    using init_max_order [OF assms(3) pages] assms(2,5) by (intro alloc_nth_block [OF wf _ _ free]) (simp_all add: b_def)
  then have "snd (buddy_alloc_pages b k) = Some a" by (simp add: a_def b_def)
  moreover have "\<forall>i. 2 ^ k - 1 + i < BITMAP_SIZE \<longrightarrow> bit_index b k i = bit_index b 0 (2 ^ k - 1 + i)"
  proof (intro allI impI)
    fix i assume i: "2 ^ k - 1 + i < BITMAP_SIZE"
    then have "i < BITMAP_SIZE" by (rule le_less_trans [OF le_add2])
    then show "bit_index b k i = bit_index b 0 (2 ^ k - 1 + i)"
      using bit_index_page [OF assms(3)] bit_index_page [OF _ i, of 0 b] by simp
  qed
  moreover have scale: "x * PAGE_SIZE \<le> y * PAGE_SIZE \<longleftrightarrow> x \<le> y" "x * PAGE_SIZE < y * PAGE_SIZE \<longleftrightarrow> x < y" for x y
    by (simp_all add: PAGE_SIZE_def)
  have a: "a \<le> base + j * PAGE_SIZE \<longleftrightarrow> ?i * 2 ^ k \<le> j"
    "base + j * PAGE_SIZE < a + 2 ^ k * PAGE_SIZE \<longleftrightarrow> j < ?i * 2 ^ k + 2 ^ k"
    "base + j * PAGE_SIZE \<le> a + 2 ^ k * PAGE_SIZE \<longleftrightarrow> j \<le> ?i * 2 ^ k + 2 ^ k" for j
    using scale(1) [of "?i * 2 ^ k" j] scale [of j "?i * 2 ^ k + 2 ^ k"] scale(2) [of j "?i * 2 ^ k + 2 ^ k"]
    by (simp_all add: a_def add_mult_distrib)
  ultimately show ?thesis using first_blocks_overlap [of "2 ^ k" n] unfolding a by auto
qed

theorem mixed_orders_overlap_witness:
  "snd (buddy_alloc_pages (fst (alloc_many (buddy_init buddy_new 0x100000 0x10000) 3)) 2) = Some 0x100000 \<and>
   snd (buddy_alloc_pages (fst (alloc_many (buddy_init buddy_new 0x100000 0x10000) 4)) 2) = Some 0x104000"
  using mixed_orders_overlap [of "0x100000" "0x10000" 2 3 buddy_new] mixed_orders_overlap [of "0x100000" "0x10000" 2 4 buddy_new]
  by (simp add: PAGE_SIZE_def BITMAP_SIZE_val MAX_ORDER_def)

text \<open>
  Freeing merges into the aliased bit of the next order, which belongs to another page. On a
  region of at least six pages, after five \<open>alloc_one\<close> calls and \<open>free_one\<close> of the fifth
  page, the next \<open>alloc_one\<close> returns the fourth page, which is still allocated.
\<close>

theorem free_one_releases_a_live_page:
  assumes "base + sz \<le> 2 ^ 64" and "sz div PAGE_SIZE \<le> BITMAP_SIZE" and "6 \<le> sz div PAGE_SIZE"
  shows "snd (alloc_many (buddy_init b0 base sz) 5) = map (\<lambda>i. Some (base + i * PAGE_SIZE)) [0..<5] \<and>
    snd (alloc_one (free_one (fst (alloc_many (buddy_init b0 base sz) 5)) (base + 4 * PAGE_SIZE))) =
      Some (base + 3 * PAGE_SIZE)"
proof -
  let ?b = "fst (alloc_many (buddy_init b0 base sz) 5)"
  have frame: "bd_base (fst (alloc_many b n)) = bd_base b"
    "bd_total_pages (fst (alloc_many b n)) = bd_total_pages b"
    "bd_max_order (fst (alloc_many b n)) = bd_max_order b" for b n
    by (induction n arbitrary: b) (simp_all add: split_beta Let_def alloc_one_def)
  have wf: "buddy_wf ?b" using buddy_wf_init [OF assms(1), of b0] by (simp add: buddy_wf_def frame)
  have mo: "2 \<le> bd_max_order ?b"
    using init_max_order [of 2 sz b0 base] assms(3) by (simp add: frame MAX_ORDER_def)
  have free: "free_bits ?b = {5..<BITMAP_SIZE}"
    using fresh_bump(2) [OF assms(1,2), of b0 5] assms(3) by (simp add: min_absorb1)
  have bi: "bit_index b 0 i = i" "bit_index b (Suc 0) i = Suc i" if "i < 10" for b i
    using that bit_index_val [of 0 i b] bit_index_val [of 1 i b] by simp_all
  define c where "c = mark_free (mark_allocated (mark_allocated (mark_free ?b 0 4) 0 4) 0 5) 1 2"
  have c_free: "free_bits c = {3} \<union> {6..<BITMAP_SIZE}"
    by (auto simp: c_def free bi BITMAP_SIZE_val)
  have "merge_up c 1 2 = c"
    by (subst merge_up.simps) (simp add: is_free_iff c_free bi)
  moreover have "merge_up (mark_free ?b 0 4) 0 4 = merge_up c 1 2"
    using mo by (subst merge_up.simps)
      (simp add: is_free_iff free bi BITMAP_SIZE_val shr64_def c_def)
  moreover have "free_one ?b (base + 4 * PAGE_SIZE) = merge_up (mark_free ?b 0 4) 0 4"
    by (simp add: free_one_def buddy_free_pages_def frame PAGE_SIZE_def)
  ultimately have after: "free_one ?b (base + 4 * PAGE_SIZE) = c" by simp
  have wfc: "buddy_wf c" and cf: "bd_base c = base" "bd_total_pages c = sz div PAGE_SIZE"
    using wf by (simp_all add: c_def buddy_wf_def frame)
  have "find_free c 0 = Some 3"
    using assms(3) by (auto simp: find_free_Some is_free_iff c_free bi cf)
  then have "snd (alloc_one c) = Some (base + 3 * PAGE_SIZE)"
    using page_addr_val [OF wfc, of 3] assms(3)
    by (simp add: alloc_one_def buddy_alloc_pages_def cf)
  moreover have "snd (alloc_many (buddy_init b0 base sz) 5) =
      map (\<lambda>i. Some (base + i * PAGE_SIZE)) [0..<5]"
    unfolding fresh_bump(1) [OF assms(1,2)] using assms(3) by (intro map_cong) auto
  ultimately show ?thesis by (simp add: after)
qed

theorem free_one_releases_a_live_page_witness:
  "snd (alloc_one (free_one (fst (alloc_many (buddy_init buddy_new 0x100000 0x10000) 5))
     (0x100000 + 4 * PAGE_SIZE))) = Some (0x100000 + 3 * PAGE_SIZE)"
  using free_one_releases_a_live_page [of "0x100000" "0x10000" buddy_new]
  by (simp add: PAGE_SIZE_def BITMAP_SIZE_val)

end
