(* ===== verification/Slab.thy ===== *)
theory Slab
  imports Buddy
begin

text \<open>
  The slab allocator of \<open>src/kern/mm/slab.rs\<close>: \<open>SlabPage\<close> (one page cut into equal slots,
  occupancy in four 64-bit words), \<open>SlabCache\<close> (up to sixteen such pages of one slot size) and
  \<open>SlabAllocator\<close> (the eight size classes). A page is shown to implement a set of occupied
  slots: \<open>alloc\<close> takes the least free slot, \<open>free\<close> releases the slot its pointer falls in.
\<close>

section \<open>State and operations\<close>

definition SLAB_SIZES :: "usize list" where
  "SLAB_SIZES = [16, 32, 64, 128, 256, 512, 1024, 2048]"

definition MAX_SLABS_PER_SIZE :: usize where "MAX_SLABS_PER_SIZE = 16"

text \<open>\<open>u64::trailing_zeros\<close>: the number of zero bits below the lowest set one, 64 for zero.\<close>

definition trailing_zeros :: "u64 \<Rightarrow> nat" where
  "trailing_zeros w = (case first_from (bit w) 0 64 of Some i \<Rightarrow> i | None \<Rightarrow> 64)"

record slab_page =
  sp_base :: usize
  sp_obj_size :: usize
  sp_capacity :: usize
  sp_bitmap :: "u64 list"

definition slab_page_new :: "usize \<Rightarrow> usize \<Rightarrow> slab_page" where
  "slab_page_new base obj_size =
     (let capacity = PAGE_SIZE div obj_size;
          capacity = (if capacity > 256 then 256 else capacity)
      in \<lparr>sp_base = base, sp_obj_size = obj_size, sp_capacity = capacity,
          sp_bitmap = replicate 4 0\<rparr>)"

text \<open>The loop over the four words stops at the first one whose lowest free bit is in range.\<close>

definition slab_page_alloc :: "slab_page \<Rightarrow> slab_page \<times> usize option" where
  "slab_page_alloc p =
     (case first_from
        (\<lambda>word. let free = NOT (sp_bitmap p ! word)
                in free \<noteq> 0 \<and> \<not> (word * 64 + trailing_zeros free \<ge> sp_capacity p)) 0 4 of
        None \<Rightarrow> (p, None)
      | Some word \<Rightarrow>
          (let bt = trailing_zeros (NOT (sp_bitmap p ! word)); i = word * 64 + bt
           in (p\<lparr>sp_bitmap := (sp_bitmap p)[word := sp_bitmap p ! word OR push_bit bt 1]\<rparr>,
               Some (usz (sp_base p + usz (i * sp_obj_size p))))))"

definition slab_page_end :: "slab_page \<Rightarrow> usize" where
  "slab_page_end p = usz (sp_base p + usz (sp_capacity p * sp_obj_size p))"

definition slab_page_free :: "slab_page \<Rightarrow> usize \<Rightarrow> slab_page \<times> bool" where
  "slab_page_free p addr =
     (if addr < sp_base p \<or> addr \<ge> slab_page_end p then (p, False)
      else let idx = (addr - sp_base p) div sp_obj_size p; word = idx div 64; bt = idx mod 64
           in (p\<lparr>sp_bitmap := (sp_bitmap p)[word := sp_bitmap p ! word AND NOT (push_bit bt 1)]\<rparr>,
               True))"

definition slab_page_is_full :: "slab_page \<Rightarrow> bool" where
  "slab_page_is_full p =
     (let full_words = sp_capacity p div 64; rm = sp_capacity p mod 64; mask = push_bit rm 1 - 1
      in (\<forall>w\<in>set [0..<full_words]. sp_bitmap p ! w = - 1) \<and>
         (rm > 0 \<longrightarrow> sp_bitmap p ! full_words AND mask = mask))"

definition slab_page_is_empty :: "slab_page \<Rightarrow> bool" where
  "slab_page_is_empty p = (sp_bitmap p = replicate 4 0)"

definition slab_page_contains :: "slab_page \<Rightarrow> usize \<Rightarrow> bool" where
  "slab_page_contains p addr = (addr \<ge> sp_base p \<and> addr < slab_page_end p)"

record slab_cache =
  sc_obj_size :: usize
  sc_pages :: "slab_page option list"
  sc_count :: usize

definition slab_cache_new :: "usize \<Rightarrow> slab_cache" where
  "slab_cache_new obj_size =
     \<lparr>sc_obj_size = obj_size, sc_pages = replicate MAX_SLABS_PER_SIZE None, sc_count = 0\<rparr>"

text \<open>\<open>if let Some(page) = self.pages[i]\<close> with a test on the page.\<close>

definition page_sat :: "slab_cache \<Rightarrow> (slab_page \<Rightarrow> bool) \<Rightarrow> nat \<Rightarrow> bool" where
  "page_sat c q i = (case sc_pages c ! i of Some p \<Rightarrow> q p | None \<Rightarrow> False)"

definition slab_cache_alloc :: "slab_cache \<Rightarrow> buddy \<Rightarrow> slab_cache \<times> buddy \<times> usize option" where
  "slab_cache_alloc c b =
     (case first_from (page_sat c (\<lambda>p. \<not> slab_page_is_full p)) 0 (sc_count c) of
        Some i \<Rightarrow>
          (let (p, r) = slab_page_alloc (the (sc_pages c ! i))
           in (c\<lparr>sc_pages := (sc_pages c)[i := Some p]\<rparr>, b, r))
      | None \<Rightarrow>
          (if sc_count c \<ge> MAX_SLABS_PER_SIZE then (c, b, None)
           else case alloc_one b of
               (b', None) \<Rightarrow> (c, b', None)
             | (b', Some addr) \<Rightarrow>
                 (let (slab, result) = slab_page_alloc (slab_page_new addr (sc_obj_size c))
                  in (c\<lparr>sc_pages := (sc_pages c)[sc_count c := Some slab],
                        sc_count := sc_count c + 1\<rparr>, b', result))))"

definition swap :: "'a list \<Rightarrow> nat \<Rightarrow> nat \<Rightarrow> 'a list" where
  "swap xs i j = xs[i := xs ! j, j := xs ! i]"

function compact_loop :: "'a list \<Rightarrow> nat \<Rightarrow> nat \<Rightarrow> 'a list" where
  "compact_loop pages i stop =
     (if i < stop then compact_loop (swap pages i (i + 1)) (i + 1) stop else pages)"
  by pat_completeness auto
termination by (relation "measure (\<lambda>(pages, i, stop). stop - i)") auto

definition compact :: "slab_cache \<Rightarrow> nat \<Rightarrow> slab_cache" where
  "compact c removed =
     c\<lparr>sc_pages := (if removed < sc_count c - 1
                    then compact_loop (sc_pages c) removed (sc_count c - 1) else sc_pages c),
       sc_count := sc_count c - 1\<rparr>"

definition slab_cache_free :: "slab_cache \<Rightarrow> usize \<Rightarrow> buddy \<Rightarrow> slab_cache \<times> buddy \<times> bool" where
  "slab_cache_free c ptr b =
     (case first_from (page_sat c (\<lambda>p. slab_page_contains p ptr)) 0 (sc_count c) of
        None \<Rightarrow> (c, b, False)
      | Some i \<Rightarrow>
          (let page = fst (slab_page_free (the (sc_pages c ! i)) ptr);
               empty = slab_page_is_empty page;
               base = sp_base page;
               c1 = c\<lparr>sc_pages := (sc_pages c)[i := Some page]\<rparr>
           in if empty \<and> sc_count c1 > 1 \<and>
                 (\<exists>j\<in>set [0..<sc_count c1]. j \<noteq> i \<and> page_sat c1 slab_page_is_empty j)
              then (compact (c1\<lparr>sc_pages := (sc_pages c1)[i := None]\<rparr>) i, free_one b base, True)
              else (c1, b, True)))"

type_synonym slab_allocator = "slab_cache list"

definition slab_new :: slab_allocator where
  "slab_new = map slab_cache_new SLAB_SIZES"

fun slab_alloc :: "slab_allocator \<Rightarrow> usize \<Rightarrow> buddy \<Rightarrow> slab_allocator \<times> buddy \<times> usize option" where
  "slab_alloc [] sz b = ([], b, None)"
| "slab_alloc (c # cs) sz b =
     (if sc_obj_size c \<ge> sz
      then (let (c', b', r) = slab_cache_alloc c b in (c' # cs, b', r))
      else (let (cs', b', r) = slab_alloc cs sz b in (c # cs', b', r)))"

fun slab_free :: "slab_allocator \<Rightarrow> usize \<Rightarrow> buddy \<Rightarrow> slab_allocator \<times> buddy \<times> bool" where
  "slab_free [] ptr b = ([], b, False)"
| "slab_free (c # cs) ptr b =
     (case slab_cache_free c ptr b of
        (c', b', True) \<Rightarrow> (c' # cs, b', True)
      | (c', b', False) \<Rightarrow> (let (cs', b'', r) = slab_free cs ptr b' in (c' # cs', b'', r)))"

declare compact_loop.simps [simp del]

section \<open>A slab page implements a set of occupied slots\<close>

definition slots :: "slab_page \<Rightarrow> nat set" where
  "slots p = {i. i < 256 \<and> bit (sp_bitmap p ! (i div 64)) (i mod 64)}"

definition slab_page_wf :: "slab_page \<Rightarrow> bool" where
  "slab_page_wf p \<longleftrightarrow>
     length (sp_bitmap p) = 4 \<and> sp_capacity p \<le> 256 \<and> 0 < sp_obj_size p \<and>
     sp_capacity p * sp_obj_size p \<le> PAGE_SIZE \<and> sp_base p + PAGE_SIZE < 2 ^ 64 \<and>
     slots p \<subseteq> {..<sp_capacity p}"

lemma trailing_zeros_bit: "w \<noteq> 0 \<Longrightarrow> trailing_zeros w < 64 \<and> bit w (trailing_zeros w)"
proof -
  assume "w \<noteq> 0"
  then obtain n where "bit w n" using bit_eqI [of w 0] by auto
  then have "n < 64" using bit_imp_le_length [of w n] by simp
  with \<open>bit w n\<close> have "first_from (bit w) 0 64 \<noteq> None" by (auto simp: first_from_None)
  then show ?thesis
    by (auto simp: trailing_zeros_def dest: first_from_SomeD(2,3) split: option.splits)
qed

lemma below_trailing_zeros: "k < trailing_zeros w \<Longrightarrow> \<not> bit w k"
  by (auto simp: trailing_zeros_def first_from_None dest: first_from_SomeD(4) split: option.splits)

lemma not_word_bit: "k < 64 \<Longrightarrow> bit (NOT (w :: u64)) k \<longleftrightarrow> \<not> bit w k"
  by (simp add: bit_not_iff)

lemma slots_word:
  assumes "i < 256" shows "i \<in> slots p \<longleftrightarrow> \<not> bit (NOT (sp_bitmap p ! (i div 64))) (i mod 64)"
  using assms by (simp add: slots_def not_word_bit)

lemma slab_search_Some:
  assumes wf: "slab_page_wf p"
    and found: "first_from (\<lambda>word. let free = NOT (sp_bitmap p ! word)
        in free \<noteq> 0 \<and> \<not> (word * 64 + trailing_zeros free \<ge> sp_capacity p)) 0 4 = Some w"
  shows "first_from (\<lambda>i. i \<notin> slots p) 0 (sp_capacity p) =
      Some (w * 64 + trailing_zeros (NOT (sp_bitmap p ! w)))"
    and "trailing_zeros (NOT (sp_bitmap p ! w)) < 64" and "w < 4"
proof -
  let ?tz = "trailing_zeros (NOT (sp_bitmap p ! w))"
  from found have w: "w < 4" "NOT (sp_bitmap p ! w) \<noteq> 0" "w * 64 + ?tz < sp_capacity p"
    and less: "\<And>v. v < w \<Longrightarrow> NOT (sp_bitmap p ! v) = 0 \<or>
        v * 64 + trailing_zeros (NOT (sp_bitmap p ! v)) \<ge> sp_capacity p"
    by (auto simp: first_from_Some Let_def)
  have tz: "?tz < 64" "bit (NOT (sp_bitmap p ! w)) ?tz" using trailing_zeros_bit [OF w(2)] by auto
  have cap: "sp_capacity p \<le> 256" using wf by (simp add: slab_page_wf_def)
  show "trailing_zeros (NOT (sp_bitmap p ! w)) < 64" "w < 4" using tz w by auto
  show "first_from (\<lambda>i. i \<notin> slots p) 0 (sp_capacity p) = Some (w * 64 + ?tz)"
  proof (rule first_from_least)
    have "w * 64 + ?tz < 256" using w(3) cap by linarith
    then show "w * 64 + ?tz \<notin> slots p" using tz by (simp add: slots_word)
    fix k assume k: "k < w * 64 + ?tz"
    then have k256: "k < 256" using w(3) cap by linarith
    show "\<not> k \<notin> slots p"
    proof (cases "k div 64 < w")
      case True
      have "trailing_zeros (NOT (sp_bitmap p ! (k div 64))) < 64"
        if "NOT (sp_bitmap p ! (k div 64)) \<noteq> 0" using trailing_zeros_bit [OF that] by simp
      then have "NOT (sp_bitmap p ! (k div 64)) = 0" using less [OF True] w(3) True by fastforce
      then show ?thesis using k256 by (simp add: slots_word)
    next
      case False
      with k tz(1) have "k div 64 = w" by linarith
      moreover from this have "k mod 64 < ?tz" using k div_mult_mod_eq [of k 64] by simp
      ultimately have "k div 64 = w" "k mod 64 < ?tz" by blast+
      then show ?thesis using k256 below_trailing_zeros by (simp add: slots_word)
    qed
  qed (use w in auto)
qed

lemma slab_search_None:
  assumes wf: "slab_page_wf p"
    and none: "first_from (\<lambda>word. let free = NOT (sp_bitmap p ! word)
        in free \<noteq> 0 \<and> \<not> (word * 64 + trailing_zeros free \<ge> sp_capacity p)) 0 4 = None"
  shows "first_from (\<lambda>i. i \<notin> slots p) 0 (sp_capacity p) = None"
  unfolding first_from_None
proof (intro allI impI)
  fix k assume k: "0 \<le> k \<and> k < 0 + sp_capacity p"
  then have k256: "k < 256" using wf by (simp add: slab_page_wf_def)
  let ?v = "NOT (sp_bitmap p ! (k div 64))"
  have "k div 64 < 4" using k256 by linarith
  then have "?v = 0 \<or> k div 64 * 64 + trailing_zeros ?v \<ge> sp_capacity p"
    using none by (auto simp: first_from_None Let_def)
  then show "\<not> k \<notin> slots p"
  proof
    assume "?v = 0" then show ?thesis using k256 by (simp add: slots_word)
  next
    assume "k div 64 * 64 + trailing_zeros ?v \<ge> sp_capacity p"
    then have "k mod 64 < trailing_zeros ?v" using k div_mod_decomp [of k 64] by linarith
    then show ?thesis using k256 below_trailing_zeros by (simp add: slots_word)
  qed
qed

definition occupy :: "slab_page \<Rightarrow> nat \<Rightarrow> slab_page" where
  "occupy p i = p\<lparr>sp_bitmap := (sp_bitmap p)
     [i div 64 := sp_bitmap p ! (i div 64) OR push_bit (i mod 64) 1]\<rparr>"

definition vacate :: "slab_page \<Rightarrow> nat \<Rightarrow> slab_page" where
  "vacate p i = p\<lparr>sp_bitmap := (sp_bitmap p)
     [i div 64 := sp_bitmap p ! (i div 64) AND NOT (push_bit (i mod 64) 1)]\<rparr>"

lemma occupy_vacate_frame [simp]:
  "sp_base (occupy p i) = sp_base p" "sp_obj_size (occupy p i) = sp_obj_size p"
  "sp_capacity (occupy p i) = sp_capacity p" "length (sp_bitmap (occupy p i)) = length (sp_bitmap p)"
  "sp_base (vacate p i) = sp_base p" "sp_obj_size (vacate p i) = sp_obj_size p"
  "sp_capacity (vacate p i) = sp_capacity p" "length (sp_bitmap (vacate p i)) = length (sp_bitmap p)"
  by (simp_all add: occupy_def vacate_def)

lemma same_slot: "(m::nat) div 64 = n div 64 \<Longrightarrow> m mod 64 = n mod 64 \<longleftrightarrow> m = n"
  by (metis div_mod_decomp)

lemma slots_occupy:
  "length (sp_bitmap p) = 4 \<Longrightarrow> i < 256 \<Longrightarrow> slots (occupy p i) = insert i (slots p)"
  by (auto simp: slots_def occupy_def nth_list_update bit_or_iff bit_exp_iff same_slot
      split: if_splits)

lemma slots_vacate:
  "length (sp_bitmap p) = 4 \<Longrightarrow> i < 256 \<Longrightarrow> slots (vacate p i) = slots p - {i}"
  by (auto simp: slots_def vacate_def nth_list_update bit_and_iff bit_not_iff bit_exp_iff same_slot
      split: if_splits)

lemma occupy_wf: "slab_page_wf p \<Longrightarrow> i < sp_capacity p \<Longrightarrow> slab_page_wf (occupy p i)"
  by (auto simp: slab_page_wf_def slots_occupy)

lemma vacate_wf: "slab_page_wf p \<Longrightarrow> i < sp_capacity p \<Longrightarrow> slab_page_wf (vacate p i)"
  by (auto simp: slab_page_wf_def slots_vacate)

lemma slot_addr_bound:
  assumes "slab_page_wf p" "i < sp_capacity p"
  shows "i * sp_obj_size p + sp_obj_size p \<le> PAGE_SIZE"
proof -
  have "(i + 1) * sp_obj_size p \<le> sp_capacity p * sp_obj_size p"
    using assms(2) by (intro mult_le_mono1) simp
  then show ?thesis using assms(1) by (simp add: slab_page_wf_def)
qed

lemma slot_addr:
  assumes "slab_page_wf p" "i < sp_capacity p"
  shows "usz (sp_base p + usz (i * sp_obj_size p)) = sp_base p + i * sp_obj_size p"
  using slot_addr_bound [OF assms] assms(1) by (auto simp: slab_page_wf_def)

lemma slab_page_alloc_eq:
  assumes wf: "slab_page_wf p"
  shows "slab_page_alloc p =
    (case first_from (\<lambda>i. i \<notin> slots p) 0 (sp_capacity p) of
       None \<Rightarrow> (p, None)
     | Some i \<Rightarrow> (occupy p i, Some (sp_base p + i * sp_obj_size p)))"
proof (cases "first_from (\<lambda>word. let free = NOT (sp_bitmap p ! word)
        in free \<noteq> 0 \<and> \<not> (word * 64 + trailing_zeros free \<ge> sp_capacity p)) 0 4")
  case None
  with slab_search_None [OF wf None] show ?thesis by (simp add: slab_page_alloc_def)
next
  case (Some w)
  note found = slab_search_Some [OF wf Some]
  let ?i = "w * 64 + trailing_zeros (NOT (sp_bitmap p ! w))"
  have "?i < sp_capacity p" using first_from_SomeD(2) [OF found(1)] by simp
  then show ?thesis
    using found slot_addr [OF wf] Some by (simp add: slab_page_alloc_def Let_def occupy_def)
qed

lemma slab_page_end_eq:
  assumes "slab_page_wf p"
  shows "slab_page_end p = sp_base p + sp_capacity p * sp_obj_size p"
  using assms by (auto simp: slab_page_end_def slab_page_wf_def)

lemma slot_index:
  fixes a base sz cap :: nat
  assumes "base \<le> a" "a < base + cap * sz" shows "(a - base) div sz < cap"
  using assms by (metis add_less_cancel_left le_add_diff_inverse less_mult_imp_div_less)

lemma slab_page_free_eq:
  "slab_page_free p a =
    (if slab_page_contains p a then (vacate p ((a - sp_base p) div sp_obj_size p), True)
     else (p, False))"
  by (auto simp: slab_page_free_def slab_page_contains_def Let_def vacate_def)

lemma contains_iff:
  assumes "slab_page_wf p"
  shows "slab_page_contains p a \<longleftrightarrow>
    sp_base p \<le> a \<and> a < sp_base p + sp_capacity p * sp_obj_size p"
  by (simp add: slab_page_contains_def slab_page_end_eq [OF assms])

lemma full_word_iff: "(w :: u64) = - 1 \<longleftrightarrow> (\<forall>k<64. bit w k)"
proof
  assume "\<forall>k<64. bit w k"
  then show "w = - 1" by (intro bit_word_eqI) simp
qed simp

lemma masked_word_iff:
  assumes "r < 64"
  shows "(w :: u64) AND (push_bit r 1 - 1) = push_bit r 1 - 1 \<longleftrightarrow> (\<forall>k<r. bit w k)"
proof -
  have m: "push_bit r 1 - 1 = (mask r :: u64)" by (simp add: mask_eq_exp_minus_1)
  have "w AND mask r = mask r \<longleftrightarrow> (\<forall>k<64. bit (w AND mask r) k = bit (mask r :: u64) k)"
    by (auto intro!: bit_word_eqI)
  also have "\<dots> \<longleftrightarrow> (\<forall>k<r. bit w k)"
    using assms by (auto simp: bit_and_iff bit_mask_iff) (meson less_trans)
  finally show ?thesis unfolding m .
qed

lemma all_below_split: "(\<forall>i<c. P i) \<longleftrightarrow>
    (\<forall>w<c div 64. \<forall>k<64. P (w * 64 + k)) \<and> (\<forall>k<c mod 64. P (c div 64 * 64 + k))" for c :: nat
proof safe
  fix w k assume "\<forall>i<c. P i" "w < c div 64" "k < (64::nat)"
  moreover then have "w * 64 + 64 \<le> c" by (intro block_fits)
  ultimately show "P (w * 64 + k)" by simp
next
  fix k assume "\<forall>i<c. P i" "k < c mod 64"
  moreover then have "c div 64 * 64 + k < c" using div_mult_mod_eq [of c 64] by linarith
  ultimately show "P (c div 64 * 64 + k)" by simp
next
  fix i assume *: "\<forall>w<c div 64. \<forall>k<64. P (w * 64 + k)" "\<forall>k<c mod 64. P (c div 64 * 64 + k)" "i < c"
  have i: "i div 64 * 64 + i mod 64 = i" by simp
  show "P i"
  proof (cases "i div 64 < c div 64")
    case True
    then have "\<forall>k<64. P (i div 64 * 64 + k)" using *(1) by blast
    then have "P (i div 64 * 64 + i mod 64)" using mod_less_divisor [of 64 i, OF zero_less_numeral] by blast
    then show ?thesis unfolding i .
  next
    case False
    then have "i div 64 = c div 64" using *(3) by (meson div_le_mono le_less_linear less_imp_le nat_less_le order_antisym)
    moreover have "i mod 64 < c mod 64" using calculation *(3) by (metis div_mult_mod_eq add_less_cancel_left)
    ultimately show ?thesis using *(2) i by metis
  qed
qed

lemma slab_page_is_full_iff:
  assumes "slab_page_wf p"
  shows "slab_page_is_full p \<longleftrightarrow> {..<sp_capacity p} \<subseteq> slots p"
proof -
  let ?c = "sp_capacity p"
  have c: "?c \<le> 256" using assms by (simp add: slab_page_wf_def)
  have slot: "w * 64 + k \<in> slots p \<longleftrightarrow> bit (sp_bitmap p ! w) k"
    if "w * 64 + k < ?c" "k < 64" for w k
    using that c by (simp add: slots_def)
  have "{..<?c} \<subseteq> slots p \<longleftrightarrow> (\<forall>i<?c. i \<in> slots p)" by auto
  also have "\<dots> \<longleftrightarrow> (\<forall>w<?c div 64. \<forall>k<64. w * 64 + k \<in> slots p) \<and>
      (\<forall>k<?c mod 64. ?c div 64 * 64 + k \<in> slots p)" by (rule all_below_split)
  also have "(\<forall>w<?c div 64. \<forall>k<64. w * 64 + k \<in> slots p) \<longleftrightarrow>
      (\<forall>w<?c div 64. sp_bitmap p ! w = - 1)"
  proof -
    have "w * 64 + k < ?c" if "w < ?c div 64" "k < 64" for w k
      using block_fits [OF that(1)] that(2) by linarith
    then show ?thesis unfolding full_word_iff using slot by simp
  qed
  also have "(\<forall>k<?c mod 64. ?c div 64 * 64 + k \<in> slots p) \<longleftrightarrow>
      (\<forall>k<?c mod 64. bit (sp_bitmap p ! (?c div 64)) k)"
  proof -
    have "?c div 64 * 64 + k < ?c" "k < 64" if "k < ?c mod 64" for k
      using that div_mult_mod_eq [of ?c 64] mod_less_divisor [of 64 ?c] by linarith+
    then show ?thesis using slot by simp
  qed
  finally show ?thesis
    using masked_word_iff [of "?c mod 64" "sp_bitmap p ! (?c div 64)"]
    by (auto simp: slab_page_is_full_def Let_def)
qed

lemma slab_page_is_empty_iff:
  assumes "length (sp_bitmap p) = 4"
  shows "slab_page_is_empty p \<longleftrightarrow> slots p = {}"
proof
  assume "slab_page_is_empty p"
  then show "slots p = {}" by (auto simp: slab_page_is_empty_def slots_def nth_replicate)
next
  assume none: "slots p = {}"
  have "sp_bitmap p ! w = 0" if "w < 4" for w
  proof (rule bit_word_eqI)
    fix n assume "n < LENGTH(64)"
    then have "w * 64 + n \<notin> slots p \<longleftrightarrow> \<not> bit (sp_bitmap p ! w) n"
      using that by (simp add: slots_def)
    then show "bit (sp_bitmap p ! w) n = bit 0 n" using none by simp
  qed
  then show "slab_page_is_empty p"
    using assms by (simp add: slab_page_is_empty_def list_eq_iff_nth_eq)
qed

section \<open>A slab cache is a list of slab pages\<close>

definition page_of :: "usize \<Rightarrow> slab_page \<Rightarrow> bool" where
  "page_of obj p \<longleftrightarrow>
     slab_page_wf p \<and> sp_obj_size p = obj \<and> sp_capacity p = PAGE_SIZE div obj"

text \<open>
  \<open>cache_rep c ps\<close>: the array holds exactly the pages \<open>ps\<close>, in order, in its first
  \<open>count\<close> entries and \<open>None\<close> behind them. This is the invariant of a cache and its
  abstraction at once.
\<close>

definition cache_rep :: "slab_cache \<Rightarrow> slab_page list \<Rightarrow> bool" where
  "cache_rep c ps \<longleftrightarrow>
     sc_obj_size c \<in> set SLAB_SIZES \<and> sc_count c = length ps \<and> length ps \<le> MAX_SLABS_PER_SIZE \<and>
     sc_pages c = map Some ps @ replicate (MAX_SLABS_PER_SIZE - length ps) None \<and>
     (\<forall>p\<in>set ps. page_of (sc_obj_size c) p)"

lemma cache_rep_new: "obj \<in> set SLAB_SIZES \<Longrightarrow> cache_rep (slab_cache_new obj) []"
  by (simp add: cache_rep_def slab_cache_new_def)

lemma page_sat_iff: "cache_rep c ps \<Longrightarrow> i < length ps \<Longrightarrow> page_sat c q i \<longleftrightarrow> q (ps ! i)"
  by (simp add: page_sat_def cache_rep_def nth_append)

lemma cache_page: "cache_rep c ps \<Longrightarrow> i < length ps \<Longrightarrow> sc_pages c ! i = Some (ps ! i)"
  by (simp add: cache_rep_def nth_append)

lemma cache_search:
  assumes "cache_rep c ps"
  shows "first_from (page_sat c q) 0 (sc_count c) = first_from (\<lambda>i. q (ps ! i)) 0 (length ps)"
proof -
  have len: "sc_count c = length ps" using assms by (simp add: cache_rep_def)
  show ?thesis
  proof (cases "first_from (\<lambda>i. q (ps ! i)) 0 (length ps)")
    case None
    then have "first_from (page_sat c q) 0 (length ps) = None"
      using page_sat_iff [OF assms] by (auto simp: first_from_None)
    with None len show ?thesis by simp
  next
    case (Some j)
    then have "first_from (page_sat c q) 0 (length ps) = Some j"
      using page_sat_iff [OF assms] by (auto simp: first_from_Some)
    with Some len show ?thesis by simp
  qed
qed

lemma cache_rep_update:
  assumes "cache_rep c ps" "i < length ps" "page_of (sc_obj_size c) p"
  shows "cache_rep (c\<lparr>sc_pages := (sc_pages c)[i := Some p]\<rparr>) (ps[i := p])"
  using assms set_update_subset_insert [of ps i p]
  by (auto simp: cache_rep_def list_update_append map_update)

lemma cache_rep_append:
  assumes "cache_rep c ps" "length ps < MAX_SLABS_PER_SIZE" "page_of (sc_obj_size c) p"
  shows "cache_rep (c\<lparr>sc_pages := (sc_pages c)[sc_count c := Some p],
    sc_count := sc_count c + 1\<rparr>) (ps @ [p])"
proof -
  obtain n where "MAX_SLABS_PER_SIZE - length ps = Suc n"
    using assms(2) by (metis Suc_diff_Suc)
  then show ?thesis
    using assms by (auto simp: cache_rep_def list_update_append Suc_diff_Suc)
qed

lemma compact_loop_eq:
  "i \<le> stop \<Longrightarrow> stop < length xs \<Longrightarrow>
   compact_loop xs i stop = take i xs @ drop (Suc i) (take (Suc stop) xs) @ xs ! i # drop (Suc stop) xs"
proof (induction xs i stop rule: compact_loop.induct)
  case (1 xs i stop)
  show ?case
  proof (cases "i < stop")
    case True
    let ?ys = "swap xs i (i + 1)"
    have IH: "compact_loop ?ys (i + 1) stop = take (i + 1) ?ys @
        drop (Suc (i + 1)) (take (Suc stop) ?ys) @ ?ys ! (i + 1) # drop (Suc stop) ?ys"
      using "1.IH" [OF True] True "1.prems" by (simp add: swap_def)
    have "take (i + 1) ?ys = take i xs @ [xs ! (i + 1)]"
      using True "1.prems" by (simp add: swap_def take_Suc_conv_app_nth)
    moreover have "?ys ! (i + 1) = xs ! i" using True "1.prems" by (simp add: swap_def)
    moreover have "drop (Suc stop) ?ys = drop (Suc stop) xs"
      using True by (simp add: swap_def)
    moreover have "drop (Suc (i + 1)) (take (Suc stop) ?ys) = drop (Suc (i + 1)) (take (Suc stop) xs)"
      using True by (simp add: swap_def take_update_swap drop_take)
    moreover have "drop (Suc i) (take (Suc stop) xs) =
        xs ! (i + 1) # drop (Suc (i + 1)) (take (Suc stop) xs)"
      using True "1.prems" by (subst Cons_nth_drop_Suc [symmetric]) auto
    ultimately show ?thesis
      using True by (subst compact_loop.simps) (simp only: IH if_True append_assoc append_Cons append_Nil)
  next
    case False
    then have "stop = i" using "1.prems" by simp
    then show ?thesis
      using "1.prems" by (subst compact_loop.simps) (simp add: id_take_nth_drop)
  qed
qed

lemma compact_rep:
  assumes rep: "cache_rep c ps" and i: "i < length ps"
  shows "cache_rep (compact (c\<lparr>sc_pages := (sc_pages c)[i := None]\<rparr>) i)
    (take i ps @ drop (Suc i) ps)"
proof -
  let ?n = "length ps" and ?m = "MAX_SLABS_PER_SIZE - length ps"
  have c: "sc_count c = ?n" "sc_pages c = map Some ps @ replicate ?m None"
    "?n \<le> MAX_SLABS_PER_SIZE" using rep by (simp_all add: cache_rep_def)
  let ?xs = "(sc_pages c)[i := None]"
  have "take ?n ?xs = (map Some ps)[i := None]" "drop ?n ?xs = replicate ?m None"
    "?xs ! i = None" "take i ?xs = take i (map Some ps)" "Suc (?n - 1) = ?n" "?n - 1 < length ?xs"
    using i c(3) by (simp_all add: c(2) list_update_append nth_append)
  then have "compact_loop ?xs i (?n - 1) =
      take i (map Some ps) @ drop (Suc i) (map Some ps) @ None # replicate ?m None"
    using i compact_loop_eq [of i "?n - 1" ?xs] by simp
  moreover have "(if i < ?n - 1 then compact_loop ?xs i (?n - 1) else ?xs) =
      compact_loop ?xs i (?n - 1)"
    by (auto simp: compact_loop.simps [of ?xs i "?n - Suc 0"])
  moreover have "None # replicate ?m None = replicate (MAX_SLABS_PER_SIZE - (?n - 1)) None"
    using i c(3) by (simp add: Suc_diff_le flip: replicate_Suc)
  moreover have "?n - Suc 0 \<le> MAX_SLABS_PER_SIZE" using c(3) by linarith
  ultimately show ?thesis
    using rep i by (auto simp: cache_rep_def compact_def c take_map drop_map
        dest: in_set_takeD in_set_dropD)
qed

lemma page_of_occupy: "page_of obj p \<Longrightarrow> i < sp_capacity p \<Longrightarrow> page_of obj (occupy p i)"
  by (simp add: page_of_def occupy_wf)

lemma page_of_vacate: "page_of obj p \<Longrightarrow> i < sp_capacity p \<Longrightarrow> page_of obj (vacate p i)"
  by (simp add: page_of_def vacate_wf)

lemma slab_size_bounds:
  "obj \<in> set SLAB_SIZES \<Longrightarrow> 0 < obj \<and> 2 \<le> PAGE_SIZE div obj \<and> PAGE_SIZE div obj \<le> 256 \<and>
     PAGE_SIZE div obj * obj = PAGE_SIZE"
  by (auto simp: SLAB_SIZES_def PAGE_SIZE_def)

lemma slots_new [simp]: "slots (slab_page_new a obj) = {}"
  by (auto simp: slots_def slab_page_new_def Let_def)

lemma slab_page_new_fields [simp]:
  "sp_base (slab_page_new a obj) = a" "sp_obj_size (slab_page_new a obj) = obj"
  by (simp_all add: slab_page_new_def Let_def)

lemma page_of_new:
  assumes "obj \<in> set SLAB_SIZES" "a + PAGE_SIZE < 2 ^ 64"
  shows "page_of obj (slab_page_new a obj)"
  using slab_size_bounds [OF assms(1)] assms(2)
  by (simp add: page_of_def slab_page_wf_def) (simp add: slab_page_new_def Let_def)

lemma slab_page_alloc_new:
  assumes "obj \<in> set SLAB_SIZES" "a + PAGE_SIZE < 2 ^ 64"
  shows "slab_page_alloc (slab_page_new a obj) = (occupy (slab_page_new a obj) 0, Some a)"
proof -
  have wf: "slab_page_wf (slab_page_new a obj)" and cap: "0 < sp_capacity (slab_page_new a obj)"
    using page_of_new [OF assms] slab_size_bounds [OF assms(1)] by (auto simp: page_of_def)
  have "first_from (\<lambda>i. i \<notin> slots (slab_page_new a obj)) 0 (sp_capacity (slab_page_new a obj)) = Some 0"
    using cap by (simp add: first_from_Some)
  then show ?thesis
    by (simp add: slab_page_alloc_eq [OF wf])
qed

lemma alloc_full_iff:
  assumes "slab_page_wf p"
  shows "slab_page_is_full p \<longleftrightarrow> first_from (\<lambda>i. i \<notin> slots p) 0 (sp_capacity p) = None"
  by (auto simp: slab_page_is_full_iff [OF assms] first_from_None)

text \<open>The four outcomes of a cache allocation, over the pages the cache represents.\<close>

lemma slab_cache_alloc_cases:
  assumes rep: "cache_rep c ps"
  obtains
    (slot) i j c' where "i < length ps" "\<forall>k<i. slab_page_is_full (ps ! k)"
      "j < sp_capacity (ps ! i)" "j \<notin> slots (ps ! i)" "\<forall>k<j. k \<in> slots (ps ! i)"
      "slab_cache_alloc c b = (c', b, Some (sp_base (ps ! i) + j * sc_obj_size c))"
      "cache_rep c' (ps[i := occupy (ps ! i) j])" "sc_obj_size c' = sc_obj_size c"
  | (no_room) "\<forall>p\<in>set ps. slab_page_is_full p" "length ps = MAX_SLABS_PER_SIZE"
      "slab_cache_alloc c b = (c, b, None)"
  | (no_page) b' where "\<forall>p\<in>set ps. slab_page_is_full p" "alloc_one b = (b', None)"
      "slab_cache_alloc c b = (c, b', None)"
  | (page) b' a where "\<forall>p\<in>set ps. slab_page_is_full p" "length ps < MAX_SLABS_PER_SIZE"
      "alloc_one b = (b', Some a)"
      "a + PAGE_SIZE < 2 ^ 64 \<Longrightarrow>
        snd (slab_cache_alloc c b) = (b', Some a) \<and>
        sc_obj_size (fst (slab_cache_alloc c b)) = sc_obj_size c \<and>
        cache_rep (fst (slab_cache_alloc c b)) (ps @ [occupy (slab_page_new a (sc_obj_size c)) 0])"
proof (cases "first_from (\<lambda>i. \<not> slab_page_is_full (ps ! i)) 0 (length ps)")
  case (Some i)
  then have i: "i < length ps" "\<not> slab_page_is_full (ps ! i)" "\<forall>k<i. slab_page_is_full (ps ! k)"
    by (auto simp: first_from_Some)
  have pg: "page_of (sc_obj_size c) (ps ! i)" using rep i(1) by (auto simp: cache_rep_def)
  then have wf: "slab_page_wf (ps ! i)" by (simp add: page_of_def)
  obtain j where j: "first_from (\<lambda>i'. i' \<notin> slots (ps ! i)) 0 (sp_capacity (ps ! i)) = Some j"
    using i(2) alloc_full_iff [OF wf] by auto
  then have jb: "j < sp_capacity (ps ! i)" "j \<notin> slots (ps ! i)" "\<forall>k<j. k \<in> slots (ps ! i)"
    by (auto simp: first_from_Some)
  show thesis
  proof (rule slot [OF i(1,3) jb])
    show "slab_cache_alloc c b =
        (c\<lparr>sc_pages := (sc_pages c)[i := Some (occupy (ps ! i) j)]\<rparr>, b,
         Some (sp_base (ps ! i) + j * sc_obj_size c))"
      using Some j pg by (simp add: slab_cache_alloc_def cache_search [OF rep]
          cache_page [OF rep i(1)] slab_page_alloc_eq [OF wf] page_of_def)
  qed (auto intro: cache_rep_update [OF rep i(1)] page_of_occupy pg jb(1))
next
  case None
  then have full: "\<forall>p\<in>set ps. slab_page_is_full p"
    by (auto simp: first_from_None in_set_conv_nth)
  have cnt: "sc_count c = length ps" "length ps \<le> MAX_SLABS_PER_SIZE"
    and obj: "sc_obj_size c \<in> set SLAB_SIZES"
    using rep by (simp_all add: cache_rep_def)
  have srch: "first_from (page_sat c (\<lambda>p. \<not> slab_page_is_full p)) 0 (sc_count c) = None"
    using None cache_search [OF rep] by simp
  show thesis
  proof (cases "length ps = MAX_SLABS_PER_SIZE")
    case True
    then have "MAX_SLABS_PER_SIZE \<le> sc_count c" using cnt by simp
    with True show thesis by (intro no_room full) (simp_all add: slab_cache_alloc_def srch)
  next
    case False
    then have less: "length ps < MAX_SLABS_PER_SIZE" using cnt by simp
    obtain b' r where one: "alloc_one b = (b', r)" by fastforce
    show thesis
    proof (cases r)
      case None': None
      then have "\<not> MAX_SLABS_PER_SIZE \<le> sc_count c" using cnt less by simp
      with None' one show thesis
        by (intro no_page [of b'] full) (simp_all add: slab_cache_alloc_def srch)
    next
      case (Some a)
      let ?p = "slab_page_new a (sc_obj_size c)"
      have call: "slab_cache_alloc c b = (c\<lparr>sc_pages := (sc_pages c)[sc_count c :=
          Some (fst (slab_page_alloc ?p))], sc_count := sc_count c + 1\<rparr>, b', snd (slab_page_alloc ?p))"
      proof -
        have "\<not> MAX_SLABS_PER_SIZE \<le> sc_count c" using cnt less by simp
        then show ?thesis using one Some by (simp add: slab_cache_alloc_def srch split_beta)
      qed
      show thesis
      proof (rule page [OF full less])
        assume a: "a + PAGE_SIZE < 2 ^ 64"
        have pg: "page_of (sc_obj_size c) (occupy ?p 0)"
          using page_of_new [OF obj a] slab_size_bounds [OF obj]
          by (intro page_of_occupy) (auto simp: page_of_def)
        show "snd (slab_cache_alloc c b) = (b', Some a) \<and>
            sc_obj_size (fst (slab_cache_alloc c b)) = sc_obj_size c \<and>
            cache_rep (fst (slab_cache_alloc c b)) (ps @ [occupy ?p 0])"
          using cache_rep_append [OF rep less pg]
          by (simp add: call slab_page_alloc_new [OF obj a])
      qed (use one Some call in simp_all)
    qed
  qed
qed

text \<open>
  A cache releases the slot a pointer falls in; it gives the page back to the page allocator only
  when the page became empty and the cache holds another empty page.
\<close>

definition release_page :: "slab_page list \<Rightarrow> nat \<Rightarrow> slab_page \<Rightarrow> bool" where
  "release_page ps i p \<longleftrightarrow>
     slots p = {} \<and> (\<exists>j<length ps. j \<noteq> i \<and> slots (ps ! j) = {})"

lemma page_slots_empty: "page_of obj p \<Longrightarrow> slab_page_is_empty p \<longleftrightarrow> slots p = {}"
  by (rule slab_page_is_empty_iff) (simp add: page_of_def slab_page_wf_def)

lemma slab_cache_free_cases:
  assumes rep: "cache_rep c ps"
  obtains
    (absent) "\<forall>p\<in>set ps. \<not> slab_page_contains p a" "slab_cache_free c a b = (c, b, False)"
  | (found) i p c' where "i < length ps" "slab_page_contains (ps ! i) a"
      "\<forall>k<i. \<not> slab_page_contains (ps ! k) a"
      "p = vacate (ps ! i) ((a - sp_base (ps ! i)) div sc_obj_size c)"
      "page_of (sc_obj_size c) p" "sp_base p = sp_base (ps ! i)"
      "slots p = slots (ps ! i) - {(a - sp_base (ps ! i)) div sc_obj_size c}"
      "slab_cache_free c a b =
        (c', if release_page ps i p then free_one b (sp_base p) else b, True)"
      "cache_rep c' (if release_page ps i p then take i ps @ drop (Suc i) ps else ps[i := p])"
      "sc_obj_size c' = sc_obj_size c"
proof (cases "first_from (\<lambda>i. slab_page_contains (ps ! i) a) 0 (length ps)")
  case None
  then have "\<forall>p\<in>set ps. \<not> slab_page_contains p a"
    by (auto simp: first_from_None in_set_conv_nth)
  moreover have "first_from (page_sat c (\<lambda>p. slab_page_contains p a)) 0 (sc_count c) = None"
    using None cache_search [OF rep] by simp
  ultimately show thesis by (intro absent) (simp_all add: slab_cache_free_def)
next
  case (Some i)
  then have i: "i < length ps" "slab_page_contains (ps ! i) a"
      "\<forall>k<i. \<not> slab_page_contains (ps ! k) a"
    by (auto simp: first_from_Some)
  have srch: "first_from (page_sat c (\<lambda>p. slab_page_contains p a)) 0 (sc_count c) = Some i"
    using Some cache_search [OF rep] by simp
  have pg: "page_of (sc_obj_size c) (ps ! i)" using rep i(1) by (auto simp: cache_rep_def)
  then have wf: "slab_page_wf (ps ! i)" and obj: "sp_obj_size (ps ! i) = sc_obj_size c"
    by (simp_all add: page_of_def)
  define k where "k = (a - sp_base (ps ! i)) div sc_obj_size c"
  define p where "p = vacate (ps ! i) k"
  have k: "k < sp_capacity (ps ! i)"
    using i(2) contains_iff [OF wf] obj slot_index by (simp add: k_def)
  then have k256: "k < 256" "length (sp_bitmap (ps ! i)) = 4"
    using wf by (simp_all add: slab_page_wf_def)
  have pgp: "page_of (sc_obj_size c) p" unfolding p_def using pg k by (rule page_of_vacate)
  have slots: "slots p = slots (ps ! i) - {k}" unfolding p_def using slots_vacate k256 by simp
  let ?c1 = "c\<lparr>sc_pages := (sc_pages c)[i := Some p]\<rparr>"
  have rep1: "cache_rep ?c1 (ps[i := p])" using cache_rep_update [OF rep i(1) pgp] .
  have cnt: "sc_count c = length ps" using rep by (simp add: cache_rep_def)
  have others: "page_sat ?c1 slab_page_is_empty j \<longleftrightarrow> slots (ps ! j) = {}"
    if "j < length ps" "j \<noteq> i" for j
  proof -
    have "page_of (sc_obj_size c) (ps ! j)" using rep that(1) by (auto simp: cache_rep_def)
    then show ?thesis using page_sat_iff [OF rep1, of j] that page_slots_empty by simp
  qed
  have guard: "slab_page_is_empty p \<and> sc_count c > 1 \<and>
      (\<exists>j\<in>set [0..<sc_count c]. j \<noteq> i \<and> page_sat ?c1 slab_page_is_empty j) \<longleftrightarrow> release_page ps i p"
    using others i(1) page_slots_empty [OF pgp] by (auto simp: cnt release_page_def)
  have free: "fst (slab_page_free (the (sc_pages c ! i)) a) = p"
    using i(2) by (simp add: cache_page [OF rep i(1)] slab_page_free_eq obj p_def k_def)
  have call: "slab_cache_free c a b =
      (if release_page ps i p
       then (compact (?c1\<lparr>sc_pages := (sc_pages ?c1)[i := None]\<rparr>) i, free_one b (sp_base p), True)
       else (?c1, b, True))"
    unfolding slab_cache_free_def srch option.case Let_def free
    using guard by simp
  have drop: "cache_rep (compact (?c1\<lparr>sc_pages := (sc_pages ?c1)[i := None]\<rparr>) i)
      (take i ps @ drop (Suc i) ps)"
    using compact_rep [OF rep1, of i] i(1) by simp
  show thesis
    by (rule found [OF i, of p "if release_page ps i p
        then compact (?c1\<lparr>sc_pages := (sc_pages ?c1)[i := None]\<rparr>) i else ?c1"])
      (use pgp slots call drop rep1 in \<open>simp_all add: p_def k_def compact_def\<close>)
qed

lemma alloc_one_below_top:
  assumes "buddy_wf b" "bd_base b + bd_total_pages b * PAGE_SIZE < 2 ^ 64" "alloc_one b = (b', Some a)"
  shows "block_ok b 0 a" "a + PAGE_SIZE < 2 ^ 64" "b' = fst (alloc_one b)"
proof -
  show ok: "block_ok b 0 a" using alloc_pages_block [OF assms(1), of 0 a] assms(3) by (simp add: alloc_one_def)
  then show "a + PAGE_SIZE < 2 ^ 64" using assms(2) by (simp add: block_ok_def)
qed (use assms in simp)

section \<open>Properties\<close>

text \<open>
  C4: a slab page implements a set of occupied slots. \<open>alloc\<close> returns the address of the least
  free slot and occupies exactly that slot, or fails, changing nothing, when every slot is
  occupied; \<open>is_full\<close> answers exactly whether it would fail.
\<close>

theorem slab_page_alloc_takes_least_free_slot:
  assumes "slab_page_wf p"
  shows "case slab_page_alloc p of
      (p', None) \<Rightarrow> p' = p \<and> slots p = {..<sp_capacity p} \<and> slab_page_is_full p
    | (p', Some a) \<Rightarrow> \<not> slab_page_is_full p \<and> slab_page_wf p' \<and>
        (\<exists>i < sp_capacity p. i \<notin> slots p \<and> {..<i} \<subseteq> slots p \<and>
           a = sp_base p + i * sp_obj_size p \<and> slots p' = insert i (slots p))"
proof (cases "first_from (\<lambda>i. i \<notin> slots p) 0 (sp_capacity p)")
  case None
  moreover have "slots p \<subseteq> {..<sp_capacity p}" using assms by (simp add: slab_page_wf_def)
  ultimately show ?thesis
    using alloc_full_iff [OF assms] slab_page_is_full_iff [OF assms]
    by (auto simp: slab_page_alloc_eq [OF assms])
next
  case (Some i)
  then have i: "i < sp_capacity p" "i \<notin> slots p" "{..<i} \<subseteq> slots p"
    by (auto simp: first_from_Some)
  moreover have "slots (occupy p i) = insert i (slots p)"
    using i assms by (intro slots_occupy) (auto simp: slab_page_wf_def)
  ultimately show ?thesis
    using Some alloc_full_iff [OF assms] occupy_wf [OF assms, of i]
    by (auto simp: slab_page_alloc_eq [OF assms])
qed

theorem slab_page_alloc_takes_least_free_slot_witness:
  "slab_page_wf (slab_page_new 0x5000 1024) \<and>
   snd (slab_page_alloc (slab_page_new 0x5000 1024)) = Some 0x5000 \<and>
   slots (fst (slab_page_alloc (slab_page_new 0x5000 1024))) = {0}"
proof -
  have obj: "1024 \<in> set SLAB_SIZES" by (simp add: SLAB_SIZES_def)
  have wf: "slab_page_wf (slab_page_new 0x5000 1024)"
    using page_of_new [OF obj, of "0x5000"] by (simp add: page_of_def PAGE_SIZE_def)
  have "slab_page_alloc (slab_page_new 0x5000 1024) = (occupy (slab_page_new 0x5000 1024) 0, Some 0x5000)"
    using slab_page_alloc_new [OF obj, of "0x5000"] by (simp add: PAGE_SIZE_def)
  with slab_page_alloc_takes_least_free_slot [OF wf] wf show ?thesis by auto
qed

text \<open>
  Freeing what \<open>alloc\<close> returned restores the page exactly, and a pointer anywhere inside a
  slot releases that slot and no other; a pointer outside the slots changes nothing.
\<close>

theorem slab_page_free_undoes_alloc:
  assumes wf: "slab_page_wf p"
  shows "(case slab_page_alloc p of
      (p', Some a) \<Rightarrow> slab_page_free p' a = (p, True) | (p', None) \<Rightarrow> p' = p) \<and>
    (\<forall>i < sp_capacity p. \<forall>d < sp_obj_size p.
      slots (fst (slab_page_free p (sp_base p + i * sp_obj_size p + d))) = slots p - {i}) \<and>
    (\<forall>a. a < sp_base p \<or> sp_base p + sp_capacity p * sp_obj_size p \<le> a \<longrightarrow>
      slab_page_free p a = (p, False))"
proof (intro conjI allI impI)
  have len: "length (sp_bitmap p) = 4" "sp_capacity p \<le> 256" "0 < sp_obj_size p"
    using wf by (simp_all add: slab_page_wf_def)
  have inside: "slab_page_contains p (sp_base p + i * sp_obj_size p + d) \<and>
      (sp_base p + i * sp_obj_size p + d - sp_base p) div sp_obj_size p = i"
    if "i < sp_capacity p" "d < sp_obj_size p" for i d
  proof -
    have "(i + 1) * sp_obj_size p \<le> sp_capacity p * sp_obj_size p"
      using that(1) by (intro mult_le_mono1) simp
    then show ?thesis using that(2) by (simp add: contains_iff [OF wf])
  qed
  show "case slab_page_alloc p of
      (p', Some a) \<Rightarrow> slab_page_free p' a = (p, True) | (p', None) \<Rightarrow> p' = p"
  proof (cases "first_from (\<lambda>i. i \<notin> slots p) 0 (sp_capacity p)")
    case (Some i)
    then have i: "i < sp_capacity p" "i \<notin> slots p" by (auto simp: first_from_Some)
    have "sp_bitmap p ! (i div 64) AND NOT (push_bit (i mod 64) 1) = sp_bitmap p ! (i div 64)"
      using i len by (intro bit_word_eqI) (auto simp: slots_def bit_and_iff bit_not_iff bit_exp_iff)
    moreover have "(w OR m) AND NOT m = w AND NOT m" for w m :: u64
      by (intro bit_word_eqI) (auto simp: bit_or_iff bit_and_iff bit_not_iff)
    moreover have "i div 64 < 4" using i len by linarith
    ultimately have "vacate (occupy p i) i = p"
      using len by (simp add: vacate_def occupy_def)
    moreover have "slab_page_contains (occupy p i) x = slab_page_contains p x" for x
      by (simp add: slab_page_contains_def slab_page_end_def)
    ultimately show ?thesis
      using Some inside [OF i(1), of 0] len by (simp add: slab_page_alloc_eq [OF wf] slab_page_free_eq)
  qed (simp add: slab_page_alloc_eq [OF wf])
  show "slots (fst (slab_page_free p (sp_base p + i * sp_obj_size p + d))) = slots p - {i}"
    if "i < sp_capacity p" "d < sp_obj_size p" for i d
    using inside [OF that] slots_vacate [of p i] that len by (simp add: slab_page_free_eq)
  show "slab_page_free p a = (p, False)"
    if "a < sp_base p \<or> sp_base p + sp_capacity p * sp_obj_size p \<le> a" for a
    using that by (auto simp: slab_page_free_eq contains_iff [OF wf])
qed

theorem slab_page_free_undoes_alloc_witness:
  "slab_page_free (fst (slab_page_alloc (slab_page_new 0x5000 1024))) 0x5000 =
     (slab_page_new 0x5000 1024, True)"
proof -
  have obj: "1024 \<in> set SLAB_SIZES" by (simp add: SLAB_SIZES_def)
  have wf: "slab_page_wf (slab_page_new 0x5000 1024)"
    using page_of_new [OF obj, of "0x5000"] by (simp add: page_of_def PAGE_SIZE_def)
  show ?thesis
    using slab_page_free_undoes_alloc [OF wf] slab_page_alloc_new [OF obj, of "0x5000"]
    by (simp add: PAGE_SIZE_def)
qed

text \<open>
  Allocation from a cache. On success either the first page that is not full gives its least
  free slot and nothing else changes, or all pages are full and the slot is the first one of a
  fresh page appended at the end; on failure all pages are full and either all sixteen entries are
  taken or the page allocator has no page. The representation invariant holds again in every case.
\<close>

theorem slab_cache_alloc_spec:
  assumes rep: "cache_rep c ps" and wf: "buddy_wf b"
    and top: "bd_base b + bd_total_pages b * PAGE_SIZE < 2 ^ 64"
  shows "case slab_cache_alloc c b of
      (c', b', None) \<Rightarrow> c' = c \<and> (\<forall>p\<in>set ps. slab_page_is_full p) \<and>
        (length ps = MAX_SLABS_PER_SIZE \<and> b' = b \<or> alloc_one b = (b', None))
    | (c', b', Some a) \<Rightarrow>
        (\<exists>i j. i < length ps \<and> (\<forall>k<i. slab_page_is_full (ps ! k)) \<and>
           j < sp_capacity (ps ! i) \<and> j \<notin> slots (ps ! i) \<and>
           a = sp_base (ps ! i) + j * sc_obj_size c \<and> b' = b \<and>
           cache_rep c' (ps[i := occupy (ps ! i) j])) \<or>
        (\<forall>p\<in>set ps. slab_page_is_full p) \<and> length ps < MAX_SLABS_PER_SIZE \<and>
          alloc_one b = (b', Some a) \<and>
          cache_rep c' (ps @ [occupy (slab_page_new a (sc_obj_size c)) 0])"
proof (cases b rule: slab_cache_alloc_cases [OF rep, case_names slot no_room no_page page])
  case (slot i j c')
  then show ?thesis by auto
next
  case no_room
  then show ?thesis by simp
next
  case (no_page b')
  then show ?thesis by simp
next
  case (page b' a)
  then show ?thesis
    using alloc_one_below_top(2) [OF wf top page(3)] by (auto simp: split_beta)
qed

theorem slab_cache_alloc_spec_witness:
  defines "c \<equiv> slab_cache_new 64" and "b \<equiv> buddy_init buddy_new 0x100000 0x10000"
  shows "snd (snd (slab_cache_alloc c b)) = Some 0x100000 \<and>
    (\<exists>ps. cache_rep (fst (slab_cache_alloc c b)) ps \<and> length ps = 1)"
proof -
  have rep: "cache_rep c []" by (simp add: c_def cache_rep_new SLAB_SIZES_def)
  have wf: "buddy_wf b" "bd_base b + bd_total_pages b * PAGE_SIZE < 2 ^ 64"
    by (simp_all add: b_def buddy_wf_init PAGE_SIZE_def)
  have one: "snd (alloc_one b) = Some 0x100000"
    using alloc_one_bump(1) [OF wf(1), of 0]
    by (simp add: b_def free_bits_init lessThan_atLeast0 BITMAP_SIZE_val PAGE_SIZE_def)
  obtain c' b' r where call: "slab_cache_alloc c b = (c', b', r)" by (metis prod_cases3)
  then show ?thesis
    using slab_cache_alloc_spec [OF rep wf] one
    by (cases r) (auto simp: MAX_SLABS_PER_SIZE_def)
qed

text \<open>
  Freeing into a cache. A pointer outside every page is refused and changes nothing. Otherwise
  the first page holding it loses exactly the slot the pointer falls in; the page goes back to the
  page allocator, and the later pages move up, exactly when it became empty and another page of
  the cache is empty too. The representation invariant holds again.
\<close>

theorem slab_cache_free_spec:
  assumes "cache_rep c ps"
  shows "case slab_cache_free c a b of
      (c', b', False) \<Rightarrow> c' = c \<and> b' = b \<and> (\<forall>p\<in>set ps. \<not> slab_page_contains p a)
    | (c', b', True) \<Rightarrow>
        (\<exists>i p. i < length ps \<and> slab_page_contains (ps ! i) a \<and>
           (\<forall>k<i. \<not> slab_page_contains (ps ! k) a) \<and> sp_base p = sp_base (ps ! i) \<and>
           slots p = slots (ps ! i) - {(a - sp_base (ps ! i)) div sc_obj_size c} \<and>
           (if release_page ps i p
            then b' = free_one b (sp_base p) \<and> cache_rep c' (take i ps @ drop (Suc i) ps)
            else b' = b \<and> cache_rep c' (ps[i := p])))"
proof (cases a b rule: slab_cache_free_cases [OF assms, case_names absent found])
  case absent
  then show ?thesis by simp
next
  case (found i p c')
  show ?thesis
    unfolding found(8) prod.case bool.case
    by (intro exI [of _ i] exI [of _ p] conjI) (use found(1-3,6,7,9) in \<open>simp_all split: if_splits\<close>)
qed

theorem slab_cache_free_spec_witness:
  defines "c \<equiv> fst (slab_cache_alloc (slab_cache_new 64) (buddy_init buddy_new 0x100000 0x10000))"
  shows "snd (snd (slab_cache_free c 0x100010 buddy_new))"
proof -
  let ?b = "buddy_init buddy_new 0x100000 0x10000" and ?p = "slab_page_new 0x100000 64"
  have obj: "64 \<in> set SLAB_SIZES" by (simp add: SLAB_SIZES_def)
  have one: "alloc_one ?b = (fst (alloc_one ?b), Some 0x100000)"
    using alloc_one_bump(1) [of ?b 0]
    by (simp add: prod_eq_iff buddy_wf_init free_bits_init lessThan_atLeast0 BITMAP_SIZE_val PAGE_SIZE_def)
  have rep: "cache_rep c [occupy ?p 0]"
  proof (cases ?b rule: slab_cache_alloc_cases [OF cache_rep_new [OF obj], case_names slot no_room no_page page])
    case (page b' a)
    then have "a = 0x100000" using one by simp
    then show ?thesis using page(4) by (simp add: c_def PAGE_SIZE_def slab_cache_new_def)
  qed (use one in \<open>simp_all add: MAX_SLABS_PER_SIZE_def\<close>)
  have "slab_page_contains (occupy ?p 0) 0x100010"
  proof -
    have "page_of (sc_obj_size c) (occupy ?p 0)" using rep by (simp add: cache_rep_def)
    then have "page_of 64 (occupy ?p 0)" by (simp add: page_of_def)
    then show ?thesis by (simp add: page_of_def contains_iff PAGE_SIZE_def)
  qed
  then show ?thesis
    using slab_cache_free_spec [OF rep, of "0x100010" buddy_new]
    by (cases "slab_cache_free c 0x100010 buddy_new") (auto split: bool.splits)
qed

end
