(* ===== verification/Contracts.thy ===== *)
theory Contracts
  imports Prelude
begin

text \<open>
  Interfaces between components, as locales. \<open>region_allocator\<close> is what the kernel's memory
  providers promise their callers; \<open>event_system\<close> is what a component with a step function and
  an invariant promises to whoever drives it. Both carry their consequences for whole runs, which
  each provider then gets by interpretation.
\<close>

section \<open>Allocating from a region\<close>

text \<open>
  A run of requests: each call returns the new state and an address, 0 for the null pointer;
  \<open>None\<close> is a call that does not return.
\<close>

fun run_alloc :: "('s \<Rightarrow> 'q \<Rightarrow> ('s \<times> usize) option) \<Rightarrow> 's \<Rightarrow> 'q list \<Rightarrow> ('s \<times> usize list) option" where
  "run_alloc alloc s [] = Some (s, [])"
| "run_alloc alloc s (q # qs) =
     do { (s', a) \<leftarrow> alloc s q; (s'', as) \<leftarrow> run_alloc alloc s' qs; Some (s'', a # as) }"

locale region_allocator =
  fixes alloc :: "'s \<Rightarrow> 'q \<Rightarrow> ('s \<times> usize) option"
    and inv :: "'s \<Rightarrow> bool" and region :: "'s \<Rightarrow> usize \<times> usize"
    and admissible :: "'q \<Rightarrow> bool" and extent :: "'q \<Rightarrow> nat"
  assumes alloc_returns: "inv s \<Longrightarrow> admissible q \<Longrightarrow> \<exists>s' a. alloc s q = Some (s', a)"
    and alloc_inv: "inv s \<Longrightarrow> admissible q \<Longrightarrow> alloc s q = Some (s', a) \<Longrightarrow> inv s' \<and> region s' = region s"
    and alloc_region: "inv s \<Longrightarrow> admissible q \<Longrightarrow> alloc s q = Some (s', a) \<Longrightarrow>
      a = 0 \<or> fst (region s) \<le> a \<and> a + extent q \<le> snd (region s)"
begin

lemma run_alloc_safe:
  "inv s \<Longrightarrow> list_all admissible qs \<Longrightarrow>
   \<exists>s' as. run_alloc alloc s qs = Some (s', as) \<and> inv s' \<and> region s' = region s \<and>
     list_all2 (\<lambda>q a. a = 0 \<or> fst (region s) \<le> a \<and> a + extent q \<le> snd (region s)) qs as"
proof (induction qs arbitrary: s)
  case (Cons q qs)
  obtain s' a where q: "alloc s q = Some (s', a)" using alloc_returns Cons.prems by fastforce
  with Cons.prems have "inv s'" "region s' = region s"
    and a: "a = 0 \<or> fst (region s) \<le> a \<and> a + extent q \<le> snd (region s)"
    using alloc_inv alloc_region by fastforce+
  with Cons.IH [of s'] Cons.prems q show ?case by fastforce
qed simp

end

section \<open>Systems driven by events\<close>

fun run_events :: "('s \<Rightarrow> 'e \<Rightarrow> 's option) \<Rightarrow> 's \<Rightarrow> 'e list \<Rightarrow> 's option" where
  "run_events step s [] = Some s"
| "run_events step s (e # es) = do { s' \<leftarrow> step s e; run_events step s' es }"

locale event_system =
  fixes step :: "'s \<Rightarrow> 'e \<Rightarrow> 's option" and inv :: "'s \<Rightarrow> bool"
  assumes step_safe: "inv s \<Longrightarrow> \<exists>s'. step s e = Some s' \<and> inv s'"
begin

lemma run_safe: "inv s \<Longrightarrow> \<exists>s'. run_events step s es = Some s' \<and> inv s'"
proof (induction es arbitrary: s)
  case (Cons e es)
  then obtain s' where "step s e = Some s'" "inv s'" using step_safe by blast
  with Cons.IH [of s'] show ?case by simp
qed simp

lemma step_inv: "inv s \<Longrightarrow> step s e = Some s' \<Longrightarrow> inv s'"
  using step_safe [of s e] by auto

lemma run_append:
  "run_events step s (es @ fs) = Option.bind (run_events step s es) (\<lambda>t. run_events step t fs)"
  by (induction es arbitrary: s) (auto simp: Option.bind_assoc)

end

end
