(* ===== verification/Mem.thy ===== *)
theory Mem
  imports Slab Contracts
begin

text \<open>
  The kernel heap of \<open>src/kern/mem.rs\<close>: \<open>init\<close> over the boot memory map, \<open>kmalloc\<close>,
  \<open>kfree\<close>, \<open>kmalloc_aligned\<close>, the page interface and the direct-map conversions. The statics
  \<open>BUDDY\<close>, \<open>SLAB\<close> and \<open>HHDM\<close> are the fields of \<open>mem\<close>; pointers are addresses and 0 is
  the null pointer. The page-table walks of the same file are in \<open>Paging\<close>.
\<close>

section \<open>State and operations\<close>

record mem =
  m_buddy :: buddy
  m_slab :: slab_allocator
  m_hhdm :: u64

definition mem_boot :: mem where
  "mem_boot = \<lparr>m_buddy = buddy_new, m_slab = slab_new, m_hhdm = 0\<rparr>"

text \<open>What \<open>init\<close> reads of a boot loader memory map entry.\<close>

record mmap_entry =
  me_usable :: bool
  me_base :: u64
  me_length :: u64

fun best_region :: "mmap_entry list \<Rightarrow> u64 \<times> u64 \<Rightarrow> u64 \<times> u64" where
  "best_region [] best = best"
| "best_region (e # es) (best_base, best_size) =
     best_region es (if me_usable e \<and> me_length e > best_size then (me_base e, me_length e)
                     else (best_base, best_size))"

definition mem_init :: "mem \<Rightarrow> u64 \<Rightarrow> mmap_entry list \<Rightarrow> mem" where
  "mem_init m hhdm_offset entries =
     (let m1 = m\<lparr>m_hhdm := hhdm_offset\<rparr>;
          (best_base, best_size) = best_region entries (0, 0)
      in if best_size = 0 then m1
         else m1\<lparr>m_buddy := buddy_init (m_buddy m1) (unat (hhdm_offset + best_base)) (unat best_size)\<rparr>)"

text \<open>
  The loop \<open>while (1 << order) < pages { order += 1 }\<close>. The shift amount wraps at 64, so for a
  count above \<open>2 ^ 63\<close> the loop would not end: \<open>None\<close>.
\<close>

partial_function (option) order_for :: "usize \<Rightarrow> usize \<Rightarrow> usize option" where
  "order_for pages order =
     (if shl64 1 order < pages then order_for pages (usz (order + 1)) else Some order)"

definition pages_for :: "usize \<Rightarrow> usize" where
  "pages_for sz = usz (sz + PAGE_SIZE - 1) div PAGE_SIZE"

definition mem_alloc_pages :: "mem \<Rightarrow> usize \<Rightarrow> mem \<times> usize option" where
  "mem_alloc_pages m order =
     (let (b, r) = buddy_alloc_pages (m_buddy m) order in (m\<lparr>m_buddy := b\<rparr>, r))"

definition mem_free_pages :: "mem \<Rightarrow> usize \<Rightarrow> usize \<Rightarrow> mem" where
  "mem_free_pages m addr order = m\<lparr>m_buddy := buddy_free_pages (m_buddy m) addr order\<rparr>"

definition total_pages :: "mem \<Rightarrow> usize" where
  "total_pages m = buddy_total_pages (m_buddy m)"

definition alloc_rounded :: "mem \<Rightarrow> usize \<Rightarrow> (mem \<times> usize) option" where
  "alloc_rounded m sz =
     do { order \<leftarrow> order_for (pages_for sz) 0;
          let (b, r) = buddy_alloc_pages (m_buddy m) order;
          Some (m\<lparr>m_buddy := b\<rparr>, case r of Some addr \<Rightarrow> addr | None \<Rightarrow> 0) }"

definition kmalloc :: "mem \<Rightarrow> usize \<Rightarrow> (mem \<times> usize) option" where
  "kmalloc m sz =
     (if sz = 0 then Some (m, 0)
      else if sz \<le> 2048
      then (let (slab, b, r) = slab_alloc (m_slab m) sz (m_buddy m);
                m1 = m\<lparr>m_slab := slab, m_buddy := b\<rparr>
            in case r of Some ptr \<Rightarrow> Some (m1, ptr) | None \<Rightarrow> alloc_rounded m1 sz)
      else alloc_rounded m sz)"

definition free_rounded :: "mem \<Rightarrow> usize \<Rightarrow> usize \<Rightarrow> mem option" where
  "free_rounded m ptr sz =
     do { order \<leftarrow> order_for (pages_for sz) 0;
          Some (m\<lparr>m_buddy := buddy_free_pages (m_buddy m) ptr order\<rparr>) }"

definition kfree :: "mem \<Rightarrow> usize \<Rightarrow> usize \<Rightarrow> mem option" where
  "kfree m ptr sz =
     (if ptr = 0 \<or> sz = 0 then Some m
      else if sz \<le> 2048
      then (let (slab, b, r) = slab_free (m_slab m) ptr (m_buddy m);
                m1 = m\<lparr>m_slab := slab, m_buddy := b\<rparr>
            in if r then Some m1 else free_rounded m1 ptr sz)
      else free_rounded m ptr sz)"

definition kmalloc_aligned :: "mem \<Rightarrow> usize \<Rightarrow> usize \<Rightarrow> (mem \<times> usize) option" where
  "kmalloc_aligned m sz align =
     (if sz = 0 then Some (m, 0)
      else alloc_rounded m (if sz < align then align else sz))"

definition virt_to_phys :: "mem \<Rightarrow> usize \<Rightarrow> u64" where
  "virt_to_phys m vaddr = of_nat vaddr - m_hhdm m"

definition phys_to_virt_pub :: "mem \<Rightarrow> u64 \<Rightarrow> usize" where
  "phys_to_virt_pub m phys = unat (m_hhdm m + phys)"

section \<open>Rounding a size up to an order\<close>

definition least_order :: "usize \<Rightarrow> usize \<Rightarrow> bool" where
  "least_order pages k \<longleftrightarrow> pages \<le> 2 ^ k \<and> (\<forall>j<k. 2 ^ j < pages)"

lemma least_order_unique: "least_order p j \<Longrightarrow> least_order p k \<Longrightarrow> j = k"
  unfolding least_order_def by (metis leD linorder_neqE_nat)

lemma order_for_from:
  assumes "p \<le> 2 ^ 63" "k \<le> 63" "\<forall>j<k. 2 ^ j < p"
  shows "\<exists>r. order_for p k = Some r \<and> r \<le> 63 \<and> least_order p r"
  using assms
proof (induction "63 - k" arbitrary: k)
  case 0
  then have "k = 63" by simp
  with 0 show ?case by (subst order_for.simps) (auto simp: least_order_def)
next
  case (Suc n)
  show ?case
  proof (cases "2 ^ k < p")
    case True
    with Suc.hyps(2) Suc.prems have "order_for p k = order_for p (Suc k)"
      by (subst order_for.simps) simp
    with Suc.hyps(1) [of "Suc k"] Suc.hyps(2) Suc.prems True show ?thesis
      by (auto simp: less_Suc_eq)
  next
    case False
    with Suc.prems show ?thesis by (subst order_for.simps) (auto simp: least_order_def)
  qed
qed

lemma order_for_iff:
  assumes "p \<le> 2 ^ 63" shows "order_for p 0 = Some k \<longleftrightarrow> least_order p k"
  using order_for_from [OF assms, of 0] least_order_unique by auto

lemma pages_for_bound: "pages_for sz \<le> 2 ^ 63"
proof -
  have "usz (sz + PAGE_SIZE - 1) < 2 ^ 64" by (rule usz_less)
  then show ?thesis by (simp add: pages_for_def PAGE_SIZE_def)
qed

lemma order_for_total:
  obtains k where "order_for (pages_for sz) 0 = Some k" "least_order (pages_for sz) k"
  using order_for_from [OF pages_for_bound, of 0 sz] by auto

lemma pages_for_covers:
  assumes "sz + PAGE_SIZE \<le> 2 ^ 64" shows "sz \<le> pages_for sz * PAGE_SIZE"
proof -
  have "sz + PAGE_SIZE - 1 < 2 ^ 64" using assms by (simp add: PAGE_SIZE_def)
  then have "pages_for sz = (sz + PAGE_SIZE - 1) div PAGE_SIZE" by (simp add: pages_for_def)
  then show ?thesis by (simp add: PAGE_SIZE_def)
qed

section \<open>The heap invariant\<close>

text \<open>
  The page allocator is well formed, its region starts above address 0 and ends below
  \<open>2 ^ 64\<close>; the eight caches represent lists of slab pages, each of which lies in the region.
\<close>

definition slab_rep :: "buddy \<Rightarrow> slab_allocator \<Rightarrow> slab_page list list \<Rightarrow> bool" where
  "slab_rep b cs pss \<longleftrightarrow>
     map sc_obj_size cs = SLAB_SIZES \<and> list_all2 cache_rep cs pss \<and>
     (\<forall>ps\<in>set pss. \<forall>p\<in>set ps. block_ok b 0 (sp_base p))"

definition region_ok :: "buddy \<Rightarrow> bool" where
  "region_ok b \<longleftrightarrow> buddy_wf b \<and> 0 < bd_base b \<and>
     bd_base b + bd_total_pages b * PAGE_SIZE < 2 ^ 64"

definition mem_inv :: "mem \<Rightarrow> bool" where
  "mem_inv m \<longleftrightarrow> region_ok (m_buddy m) \<and> (\<exists>pss. slab_rep (m_buddy m) (m_slab m) pss)"

definition same_region :: "buddy \<Rightarrow> buddy \<Rightarrow> bool" where
  "same_region b b' \<longleftrightarrow> bd_base b' = bd_base b \<and> bd_total_pages b' = bd_total_pages b \<and>
     bd_max_order b' = bd_max_order b"

lemma same_region_refl [simp]: "same_region b b"
  by (simp add: same_region_def)

lemma same_region_ops [simp]:
  "same_region b (fst (buddy_alloc_pages b k))" "same_region b (buddy_free_pages b a k)"
  "same_region b (fst (alloc_one b))" "same_region b (free_one b a)"
  by (simp_all add: same_region_def alloc_one_def free_one_def)

lemma same_regionD:
  assumes "same_region b b'"
  shows "region_ok b' = region_ok b" "block_ok b' = block_ok b"
  using assms by (simp_all add: same_region_def region_ok_def buddy_wf_def block_ok_def fun_eq_iff)

text \<open>One cache at a time: allocation and free keep the pages in the region.\<close>

lemma cache_alloc_region:
  assumes rep: "cache_rep c ps" and reg: "region_ok b" "\<forall>p\<in>set ps. block_ok b 0 (sp_base p)"
  shows "\<exists>ps'. cache_rep (fst (slab_cache_alloc c b)) ps' \<and>
      sc_obj_size (fst (slab_cache_alloc c b)) = sc_obj_size c \<and>
      (\<forall>p\<in>set ps'. block_ok b 0 (sp_base p)) \<and> same_region b (fst (snd (slab_cache_alloc c b))) \<and>
      (case snd (snd (slab_cache_alloc c b)) of None \<Rightarrow> True
       | Some a \<Rightarrow> bd_base b \<le> a \<and>
           a + sc_obj_size c \<le> bd_base b + bd_total_pages b * PAGE_SIZE)"
proof (cases b rule: slab_cache_alloc_cases [OF rep, case_names slot no_room no_page page])
  case (slot i j c')
  have pg: "page_of (sc_obj_size c) (ps ! i)" and bl: "block_ok b 0 (sp_base (ps ! i))"
    using rep reg(2) slot(1) by (auto simp: cache_rep_def)
  have "j * sc_obj_size c + sc_obj_size c \<le> PAGE_SIZE"
    using slot_addr_bound [of "ps ! i" j] pg slot(3) by (simp add: page_of_def)
  then have "bd_base b \<le> sp_base (ps ! i) + j * sc_obj_size c"
    "sp_base (ps ! i) + j * sc_obj_size c + sc_obj_size c \<le> bd_base b + bd_total_pages b * PAGE_SIZE"
    using bl by (simp_all add: block_ok_def)
  moreover have "\<forall>p\<in>set (ps[i := occupy (ps ! i) j]). block_ok b 0 (sp_base p)"
    using reg(2) bl set_update_subset_insert [of ps i "occupy (ps ! i) j"] by auto
  ultimately show ?thesis using slot(6-8) by auto
next
  case no_room
  then show ?thesis using rep reg by auto
next
  case (no_page b')
  have "same_region b b'" using same_region_ops(3) [of b] no_page(2) by simp
  then show ?thesis using rep reg no_page by auto
next
  case (page b' a)
  have wf: "buddy_wf b" "bd_base b + bd_total_pages b * PAGE_SIZE < 2 ^ 64"
    using reg(1) by (simp_all add: region_ok_def)
  note new = alloc_one_below_top [OF wf page(3)]
  have "same_region b b'" using same_region_ops(3) [of b] page(3) by simp
  moreover have "sc_obj_size c \<le> PAGE_SIZE"
    using rep by (auto simp: cache_rep_def SLAB_SIZES_def PAGE_SIZE_def)
  ultimately show ?thesis
    using page(4) [OF new(2)] new(1) reg(2)
    by (intro exI [of _ "ps @ [occupy (slab_page_new a (sc_obj_size c)) 0]"])
      (auto simp: block_ok_def)
qed

lemma cache_free_region:
  assumes rep: "cache_rep c ps" and reg: "\<forall>p\<in>set ps. block_ok b 0 (sp_base p)"
  shows "\<exists>ps'. cache_rep (fst (slab_cache_free c a b)) ps' \<and>
      sc_obj_size (fst (slab_cache_free c a b)) = sc_obj_size c \<and>
      (\<forall>p\<in>set ps'. block_ok b 0 (sp_base p)) \<and> same_region b (fst (snd (slab_cache_free c a b)))"
proof (cases a b rule: slab_cache_free_cases [OF rep, case_names absent found])
  case absent
  then show ?thesis using rep reg by auto
next
  case (found i p c')
  have bl: "block_ok b 0 (sp_base p)" using reg found(1,6) by auto
  have "\<forall>q\<in>set (if release_page ps i p then take i ps @ drop (Suc i) ps else ps[i := p]).
      block_ok b 0 (sp_base q)"
    using reg bl set_update_subset_insert [of ps i p]
    by (auto dest: in_set_takeD in_set_dropD)
  then show ?thesis using found(8-10) by auto
qed

definition pages_in :: "buddy \<Rightarrow> slab_page list list \<Rightarrow> bool" where
  "pages_in b pss \<longleftrightarrow> (\<forall>ps\<in>set pss. \<forall>p\<in>set ps. block_ok b 0 (sp_base p))"

lemma pages_in_simps [simp]:
  "pages_in b []" "pages_in b (ps # pss) \<longleftrightarrow> (\<forall>p\<in>set ps. block_ok b 0 (sp_base p)) \<and> pages_in b pss"
  by (simp_all add: pages_in_def)

lemma slab_alloc_region:
  assumes "list_all2 cache_rep cs pss" "region_ok b" "pages_in b pss"
  shows "\<exists>pss'. list_all2 cache_rep (fst (slab_alloc cs sz b)) pss' \<and>
      map sc_obj_size (fst (slab_alloc cs sz b)) = map sc_obj_size cs \<and> pages_in b pss' \<and>
      same_region b (fst (snd (slab_alloc cs sz b))) \<and>
      (case snd (snd (slab_alloc cs sz b)) of None \<Rightarrow> True
       | Some a \<Rightarrow> bd_base b \<le> a \<and> a + sz \<le> bd_base b + bd_total_pages b * PAGE_SIZE)"
  using assms
proof (induction cs pss rule: list_all2_induct)
  case Nil
  then show ?case by simp
next
  case (Cons c cs ps pss)
  show ?case
  proof (cases "sz \<le> sc_obj_size c")
    case True
    obtain ps' where *: "cache_rep (fst (slab_cache_alloc c b)) ps'"
      "sc_obj_size (fst (slab_cache_alloc c b)) = sc_obj_size c"
      "\<forall>p\<in>set ps'. block_ok b 0 (sp_base p)" "same_region b (fst (snd (slab_cache_alloc c b)))"
      "case snd (snd (slab_cache_alloc c b)) of None \<Rightarrow> True
       | Some a \<Rightarrow> bd_base b \<le> a \<and> a + sc_obj_size c \<le> bd_base b + bd_total_pages b * PAGE_SIZE"
      using cache_alloc_region [OF Cons.hyps(1), of b] Cons.prems by auto
    with True Cons.hyps Cons.prems show ?thesis
      by (intro exI [of _ "ps' # pss"]) (auto simp: split_beta split: option.splits)
  next
    case False
    with Cons.IH [OF Cons.prems(1)] Cons.prems obtain pss' where
      "list_all2 cache_rep (fst (slab_alloc cs sz b)) pss'"
      "map sc_obj_size (fst (slab_alloc cs sz b)) = map sc_obj_size cs" "pages_in b pss'"
      "same_region b (fst (snd (slab_alloc cs sz b)))"
      "case snd (snd (slab_alloc cs sz b)) of None \<Rightarrow> True
       | Some a \<Rightarrow> bd_base b \<le> a \<and> a + sz \<le> bd_base b + bd_total_pages b * PAGE_SIZE"
      by auto
    with False Cons.hyps Cons.prems show ?thesis
      by (intro exI [of _ "ps # pss'"]) (auto simp: split_beta)
  qed
qed

lemma slab_free_region:
  assumes "list_all2 cache_rep cs pss" "pages_in b pss"
  shows "\<exists>pss'. list_all2 cache_rep (fst (slab_free cs a b)) pss' \<and>
      map sc_obj_size (fst (slab_free cs a b)) = map sc_obj_size cs \<and> pages_in b pss' \<and>
      same_region b (fst (snd (slab_free cs a b)))"
  using assms
proof (induction cs pss arbitrary: b rule: list_all2_induct)
  case Nil
  then show ?case by simp
next
  case (Cons c cs ps pss)
  obtain ps' where c: "cache_rep (fst (slab_cache_free c a b)) ps'"
    "sc_obj_size (fst (slab_cache_free c a b)) = sc_obj_size c"
    "\<forall>p\<in>set ps'. block_ok b 0 (sp_base p)" "same_region b (fst (snd (slab_cache_free c a b)))"
    using cache_free_region [OF Cons.hyps(1), of b a] Cons.prems by auto
  let ?b = "fst (snd (slab_cache_free c a b))"
  have pin: "pages_in ?b qs = pages_in b qs" for qs
    using same_regionD(2) [OF c(4)] by (simp add: pages_in_def)
  obtain pss' where cs: "list_all2 cache_rep (fst (slab_free cs a ?b)) pss'"
    "map sc_obj_size (fst (slab_free cs a ?b)) = map sc_obj_size cs" "pages_in b pss'"
    "same_region ?b (fst (snd (slab_free cs a ?b)))"
    using Cons.IH [of ?b] Cons.prems pin by auto
  have tr: "same_region b (fst (snd (slab_free cs a ?b)))"
    using c(4) cs(4) by (simp add: same_region_def)
  obtain c' b' r where call: "slab_cache_free c a b = (c', b', r)" by (metis prod_cases3)
  show ?case
  proof (cases r)
    case True
    then show ?thesis using c Cons call by (intro exI [of _ "ps' # pss"]) auto
  next
    case False
    then show ?thesis using c cs tr Cons call
      by (intro exI [of _ "ps' # pss'"]) (auto simp: split_beta)
  qed
qed

lemma slab_rep_iff:
  "slab_rep b cs pss \<longleftrightarrow>
     map sc_obj_size cs = SLAB_SIZES \<and> list_all2 cache_rep cs pss \<and> pages_in b pss"
  by (simp add: slab_rep_def pages_in_def)

lemma mem_inv_buddy:
  assumes "mem_inv m" "same_region (m_buddy m) b"
  shows "mem_inv (m\<lparr>m_buddy := b\<rparr>)"
  using assms(1) same_regionD [OF assms(2)] by (auto simp: mem_inv_def slab_rep_def)

lemma alloc_rounded_spec:
  assumes inv: "mem_inv m"
  shows "\<exists>m' a. alloc_rounded m sz = Some (m', a) \<and> mem_inv m' \<and>
    same_region (m_buddy m) (m_buddy m') \<and> m_hhdm m' = m_hhdm m \<and>
    (sz + PAGE_SIZE \<le> 2 ^ 64 \<longrightarrow> a = 0 \<or> bd_base (m_buddy m) \<le> a \<and>
      a + sz \<le> bd_base (m_buddy m) + bd_total_pages (m_buddy m) * PAGE_SIZE)"
proof -
  obtain k where k: "order_for (pages_for sz) 0 = Some k" "least_order (pages_for sz) k"
    by (rule order_for_total)
  let ?r = "buddy_alloc_pages (m_buddy m) k"
  have fits: "sz \<le> 2 ^ k * PAGE_SIZE" if "sz + PAGE_SIZE \<le> 2 ^ 64"
  proof -
    have "sz \<le> pages_for sz * PAGE_SIZE" using that by (rule pages_for_covers)
    also have "\<dots> \<le> 2 ^ k * PAGE_SIZE" using k(2) by (simp add: least_order_def)
    finally show ?thesis .
  qed
  have "mem_inv (m\<lparr>m_buddy := fst ?r\<rparr>)" by (rule mem_inv_buddy [OF inv]) simp
  moreover have "bd_base (m_buddy m) \<le> a \<and>
      a + sz \<le> bd_base (m_buddy m) + bd_total_pages (m_buddy m) * PAGE_SIZE"
    if "snd ?r = Some a" "sz + PAGE_SIZE \<le> 2 ^ 64" for a
    using alloc_pages_block [OF _ that(1)] inv fits [OF that(2)] by (auto simp: block_ok_def mem_inv_def region_ok_def)
  ultimately show ?thesis
    using k(1) by (auto simp: alloc_rounded_def split_beta split: option.splits)
qed

lemma kmalloc_spec:
  assumes inv: "mem_inv m"
  shows "\<exists>m' a. kmalloc m sz = Some (m', a) \<and> mem_inv m' \<and>
    same_region (m_buddy m) (m_buddy m') \<and> m_hhdm m' = m_hhdm m \<and>
    (sz + PAGE_SIZE \<le> 2 ^ 64 \<longrightarrow> a = 0 \<or> bd_base (m_buddy m) \<le> a \<and>
      a + sz \<le> bd_base (m_buddy m) + bd_total_pages (m_buddy m) * PAGE_SIZE)"
proof (cases "0 < sz \<and> sz \<le> 2048")
  case True
  from inv obtain pss where rep: "map sc_obj_size (m_slab m) = SLAB_SIZES"
    "list_all2 cache_rep (m_slab m) pss" "pages_in (m_buddy m) pss" and reg: "region_ok (m_buddy m)"
    by (auto simp: mem_inv_def slab_rep_iff)
  obtain slab b r where call: "slab_alloc (m_slab m) sz (m_buddy m) = (slab, b, r)"
    by (metis prod_cases3)
  let ?m = "m\<lparr>m_slab := slab, m_buddy := b\<rparr>"
  obtain pss' where s: "list_all2 cache_rep slab pss'" "map sc_obj_size slab = SLAB_SIZES"
    "pages_in (m_buddy m) pss'" "same_region (m_buddy m) b"
    "case r of None \<Rightarrow> True | Some a \<Rightarrow> bd_base (m_buddy m) \<le> a \<and>
       a + sz \<le> bd_base (m_buddy m) + bd_total_pages (m_buddy m) * PAGE_SIZE"
    using slab_alloc_region [OF rep(2) reg rep(3), of sz] rep(1) call by auto
  have inv': "mem_inv ?m"
    using s(1-4) reg same_regionD [OF s(4)]
    by (auto simp: mem_inv_def slab_rep_iff pages_in_def)
  show ?thesis
  proof (cases r)
    case None
    then have "kmalloc m sz = alloc_rounded ?m sz" using True call by (simp add: kmalloc_def)
    then show ?thesis
      using alloc_rounded_spec [OF inv', of sz] s(4) by (auto simp: same_region_def)
  next
    case (Some a)
    then show ?thesis using True call inv' s(4,5) by (simp add: kmalloc_def)
  qed
next
  case False
  then show ?thesis
    using alloc_rounded_spec [OF inv, of sz] inv by (auto simp: kmalloc_def)
qed

lemma kfree_spec:
  assumes inv: "mem_inv m"
  shows "\<exists>m'. kfree m a sz = Some m' \<and> mem_inv m' \<and>
    same_region (m_buddy m) (m_buddy m') \<and> m_hhdm m' = m_hhdm m"
proof -
  have rounded: "\<exists>m'. free_rounded n a sz = Some m' \<and> mem_inv m' \<and>
      same_region (m_buddy n) (m_buddy m') \<and> m_hhdm m' = m_hhdm n" if "mem_inv n" for n
  proof -
    obtain k where k: "order_for (pages_for sz) 0 = Some k" by (rule order_for_total)
    show ?thesis using mem_inv_buddy [OF that, of "buddy_free_pages (m_buddy n) a k"] k
      by (simp add: free_rounded_def)
  qed
  from inv obtain pss where rep: "map sc_obj_size (m_slab m) = SLAB_SIZES"
    "list_all2 cache_rep (m_slab m) pss" "pages_in (m_buddy m) pss" and reg: "region_ok (m_buddy m)"
    by (auto simp: mem_inv_def slab_rep_iff)
  obtain slab b r where call: "slab_free (m_slab m) a (m_buddy m) = (slab, b, r)"
    by (metis prod_cases3)
  let ?m = "m\<lparr>m_slab := slab, m_buddy := b\<rparr>"
  obtain pss' where s: "list_all2 cache_rep slab pss'" "map sc_obj_size slab = SLAB_SIZES"
    "pages_in (m_buddy m) pss'" "same_region (m_buddy m) b"
    using slab_free_region [OF rep(2,3), of a] rep(1) call by auto
  have inv': "mem_inv ?m"
    using s(1-4) reg same_regionD [OF s(4)]
    by (auto simp: mem_inv_def slab_rep_iff pages_in_def)
  show ?thesis
    using rounded [OF inv] rounded [OF inv'] inv inv' call s(4)
    by (cases r) (auto simp: kfree_def same_region_def Let_def)
qed

lemma mem_inv_init:
  assumes "best_region es (0, 0) = (base, len)" "base + hhdm \<noteq> 0"
    "unat (hhdm + base) + unat len < 2 ^ 64" "0 < len"
  shows "mem_inv (mem_init mem_boot hhdm es)"
proof -
  let ?b = "buddy_init buddy_new (unat (hhdm + base)) (unat len)"
  have "unat (hhdm + base) + unat len div PAGE_SIZE * PAGE_SIZE < 2 ^ 64"
    using assms(3) by (rule le_less_trans [rotated]) simp
  then have "region_ok ?b"
    using assms(2,3) buddy_wf_init [of "unat (hhdm + base)" "unat len" buddy_new]
    by (simp add: region_ok_def unat_gt_0 add.commute)
  moreover have "slab_rep ?b slab_new (replicate 8 [])"
    by (simp add: slab_rep_iff slab_new_def SLAB_SIZES_def cache_rep_new numeral_eq_Suc)
      (simp add: slab_cache_new_def)
  ultimately show ?thesis
    using assms(1,4) by (auto simp: mem_inv_def mem_init_def mem_boot_def Let_def)
qed

section \<open>The heap as a region allocator and as an event system\<close>

definition mem_region :: "mem \<Rightarrow> usize \<times> usize" where
  "mem_region m = (bd_base (m_buddy m), bd_base (m_buddy m) + bd_total_pages (m_buddy m) * PAGE_SIZE)"

lemma mem_region_same: "same_region (m_buddy m) (m_buddy m') \<Longrightarrow> mem_region m' = mem_region m"
  by (simp add: mem_region_def same_region_def)

interpretation kheap: region_allocator kmalloc mem_inv mem_region
  "\<lambda>sz. sz + PAGE_SIZE \<le> 2 ^ 64" "\<lambda>sz. sz"
proof unfold_locales
  fix s sz s' a
  assume inv: "mem_inv s" and adm: "sz + PAGE_SIZE \<le> 2 ^ 64"
  note spec = kmalloc_spec [OF inv, of sz]
  show "\<exists>s' a. kmalloc s sz = Some (s', a)" using spec by auto
  assume "kmalloc s sz = Some (s', a)"
  with spec adm show "mem_inv s' \<and> mem_region s' = mem_region s"
    and "a = 0 \<or> fst (mem_region s) \<le> a \<and> a + sz \<le> snd (mem_region s)"
    by (auto simp: mem_region_same) (auto simp: mem_region_def)
qed

interpretation aheap: region_allocator "\<lambda>m (sz, al). kmalloc_aligned m sz al" mem_inv mem_region
  "\<lambda>(sz, al). max sz al + PAGE_SIZE \<le> 2 ^ 64" "\<lambda>(sz, al). sz"
proof unfold_locales
  fix s s' :: mem and q :: "usize \<times> usize" and a :: usize
  assume inv: "mem_inv s" and adm: "case q of (sz, al) \<Rightarrow> max sz al + PAGE_SIZE \<le> 2 ^ 64"
  note spec = alloc_rounded_spec [OF inv, of "max (fst q) (snd q)"]
  have eq: "kmalloc_aligned s sz al = (if sz = 0 then Some (s, 0) else alloc_rounded s (max sz al))"
    for sz al by (simp add: kmalloc_aligned_def max_def)
  show "\<exists>s' a. (case q of (sz, al) \<Rightarrow> kmalloc_aligned s sz al) = Some (s', a)"
    using spec by (auto simp: eq split_beta)
  assume "(case q of (sz, al) \<Rightarrow> kmalloc_aligned s sz al) = Some (s', a)"
  with spec adm inv show "mem_inv s' \<and> mem_region s' = mem_region s"
    and "a = 0 \<or> fst (mem_region s) \<le> a \<and> a + (case q of (sz, al) \<Rightarrow> sz) \<le> snd (mem_region s)"
    by (auto simp: mem_region_same eq split_beta split: if_splits) (auto simp: mem_region_def)
qed

text \<open>Every entry point of the heap, with arbitrary arguments.\<close>

datatype heap_call =
    Kmalloc usize
  | KmallocAligned usize usize
  | Kfree usize usize
  | AllocPages usize
  | FreePages usize usize

fun heap_step :: "mem \<Rightarrow> heap_call \<Rightarrow> mem option" where
  "heap_step m (Kmalloc sz) = map_option fst (kmalloc m sz)"
| "heap_step m (KmallocAligned sz align) = map_option fst (kmalloc_aligned m sz align)"
| "heap_step m (Kfree ptr sz) = kfree m ptr sz"
| "heap_step m (AllocPages order) = Some (fst (mem_alloc_pages m order))"
| "heap_step m (FreePages addr order) = Some (mem_free_pages m addr order)"

lemma heap_step_safe:
  assumes "mem_inv m"
  shows "\<exists>m'. heap_step m c = Some m' \<and> mem_inv m' \<and> mem_region m' = mem_region m"
proof (cases c)
  case (Kmalloc sz)
  then show ?thesis using kmalloc_spec [OF assms, of sz] by (auto simp: mem_region_same)
next
  case (KmallocAligned sz al)
  then show ?thesis
    using alloc_rounded_spec [OF assms, of "if sz < al then al else sz"] assms
    by (auto simp: mem_region_same kmalloc_aligned_def)
next
  case (Kfree ptr sz)
  then show ?thesis using kfree_spec [OF assms, of ptr sz] by (auto simp: mem_region_same)
next
  case (AllocPages k)
  then show ?thesis using mem_inv_buddy [OF assms same_region_ops(1)]
    by (simp add: mem_alloc_pages_def split_beta mem_region_def)
next
  case (FreePages a k)
  then show ?thesis using mem_inv_buddy [OF assms same_region_ops(2)]
    by (simp add: mem_free_pages_def mem_region_def)
qed

interpretation heap_events: event_system heap_step "\<lambda>m. mem_inv m \<and> mem_region m = r" for r
  by unfold_locales (use heap_step_safe in fastforce)

section \<open>Properties\<close>

text \<open>
  C5: heap safety. After \<open>init\<close> over a memory map whose largest usable range does not wrap,
  any sequence of \<open>kmalloc\<close> requests of at most \<open>2 ^ 64 - 4096\<close> bytes runs to its end, and every
  non-null pointer returned has its whole extent inside that range of the direct map.
\<close>

theorem kmalloc_sequence_in_region:
  assumes "best_region es (0, 0) = (base, len)" "0 < len" "base + hhdm \<noteq> 0"
    and "unat (hhdm + base) + unat len < 2 ^ 64"
    and "\<forall>sz\<in>set szs. sz + PAGE_SIZE \<le> 2 ^ 64"
  shows "\<exists>m ps. run_alloc kmalloc (mem_init mem_boot hhdm es) szs = Some (m, ps) \<and>
    length ps = length szs \<and>
    (\<forall>i<length szs. ps ! i = 0 \<or> unat (hhdm + base) \<le> ps ! i \<and>
       ps ! i + szs ! i \<le> unat (hhdm + base) + unat len)"
proof -
  let ?m = "mem_init mem_boot hhdm es"
  have region: "mem_region ?m =
      (unat (hhdm + base), unat (hhdm + base) + unat len div PAGE_SIZE * PAGE_SIZE)"
    using assms(1,2) by (auto simp: mem_region_def mem_init_def mem_boot_def Let_def)
  have "mem_inv ?m" by (rule mem_inv_init) (use assms in auto)
  moreover have "list_all (\<lambda>sz. sz + PAGE_SIZE \<le> 2 ^ 64) szs"
    using assms(5) by (simp add: list_all_iff)
  ultimately obtain m ps where run: "run_alloc kmalloc ?m szs = Some (m, ps)"
    "list_all2 (\<lambda>sz a. a = 0 \<or> fst (mem_region ?m) \<le> a \<and> a + sz \<le> snd (mem_region ?m)) szs ps"
    using kheap.run_alloc_safe by blast
  have "unat len div PAGE_SIZE * PAGE_SIZE \<le> unat len" by simp
  then have "ps ! i = 0 \<or> unat (hhdm + base) \<le> ps ! i \<and>
      ps ! i + szs ! i \<le> unat (hhdm + base) + unat len" if "i < length szs" for i
    using list_all2_nthD [OF run(2) that] unfolding region fst_conv snd_conv by linarith
  with run(1) list_all2_lengthD [OF run(2)] show ?thesis by auto
qed

theorem kmalloc_sequence_in_region_witness:
  "\<exists>m ps. run_alloc kmalloc (mem_init mem_boot 0x1000
       [\<lparr>me_usable = True, me_base = 0x100000, me_length = 0x10000\<rparr>]) [64, 5000, 0] = Some (m, ps) \<and>
     length ps = 3 \<and> (ps ! 1 = 0 \<or> 0x101000 \<le> ps ! 1)"
  using kmalloc_sequence_in_region [of "[\<lparr>me_usable = True, me_base = 0x100000, me_length = 0x10000\<rparr>]"
      "0x100000" "0x10000" "0x1000" "[64, 5000, 0]"]
  by (fastforce simp: PAGE_SIZE_def)

text \<open>
  C6: every heap entry point returns and keeps the heap invariant, whatever its arguments (any
  size, any pointer, double frees, frees with a wrong size): the page allocator and the slab
  caches stay well formed and the managed region never changes, along any sequence of calls.
\<close>

theorem heap_calls_return_and_keep_invariant:
  assumes "mem_inv m"
  shows "\<exists>m'. run_events heap_step m cs = Some m' \<and> mem_inv m' \<and> mem_region m' = mem_region m"
  using heap_events.run_safe [of m "mem_region m" cs] assms by blast

theorem heap_calls_return_and_keep_invariant_witness:
  defines "m \<equiv> mem_init mem_boot 0x1000 [\<lparr>me_usable = True, me_base = 0x100000, me_length = 0x10000\<rparr>]"
  shows "\<exists>m'. run_events heap_step m [Kmalloc 64, Kfree 0x101000 64, Kfree 0x101000 64, Kmalloc 100000] = Some m' \<and>
    mem_inv m' \<and> mem_region m' = (0x101000, 0x111000)"
proof -
  have "mem_inv m"
    unfolding m_def by (rule mem_inv_init [of _ "0x100000" "0x10000"]) simp_all
  moreover have "mem_region m = (0x101000, 0x111000)"
    by (simp add: m_def mem_region_def mem_init_def mem_boot_def Let_def PAGE_SIZE_def)
  ultimately show ?thesis
    using heap_calls_return_and_keep_invariant [of m
        "[Kmalloc 64, Kfree 0x101000 64, Kfree 0x101000 64, Kmalloc 100000]"] by simp
qed

text \<open>
  A request above the slab sizes is served by the page allocator with the least order whose
  block covers it, and \<open>kfree\<close> of the same size gives back a block of that same order.
\<close>

theorem kmalloc_uses_least_covering_order:
  assumes "2048 < sz" "sz + PAGE_SIZE \<le> 2 ^ 64" "ptr \<noteq> 0"
  shows "\<exists>k. sz \<le> 2 ^ k * PAGE_SIZE \<and> (\<forall>j<k. 2 ^ j * PAGE_SIZE < sz) \<and>
    kmalloc m sz = Some (fst (mem_alloc_pages m k), case snd (mem_alloc_pages m k) of None \<Rightarrow> 0 | Some a \<Rightarrow> a) \<and>
    kfree m ptr sz = Some (mem_free_pages m ptr k)"
proof -
  obtain k where k: "order_for (pages_for sz) 0 = Some k" "least_order (pages_for sz) k"
    by (rule order_for_total)
  have "sz + PAGE_SIZE - 1 < 2 ^ 64" using assms(2) by (simp add: PAGE_SIZE_def)
  then have pages: "pages_for sz = (sz + PAGE_SIZE - 1) div PAGE_SIZE" by (simp add: pages_for_def)
  have cover: "pages_for sz \<le> n \<longleftrightarrow> sz \<le> n * PAGE_SIZE" for n
    unfolding pages by (simp add: PAGE_SIZE_def) linarith
  then have "sz \<le> 2 ^ k * PAGE_SIZE \<and> (\<forall>j<k. 2 ^ j * PAGE_SIZE < sz)"
    using k(2) by (simp add: least_order_def flip: not_le)
  with k(1) assms show ?thesis
    by (intro exI [of _ k]) (simp add: kmalloc_def kfree_def alloc_rounded_def free_rounded_def
        mem_alloc_pages_def mem_free_pages_def split_beta)
qed

theorem kmalloc_uses_least_covering_order_witness:
  "\<exists>k. 5000 \<le> 2 ^ k * PAGE_SIZE \<and> (\<forall>j<k. 2 ^ j * PAGE_SIZE < 5000) \<and>
    kfree mem_boot 0x1000 5000 = Some (mem_free_pages mem_boot 0x1000 k)"
  using kmalloc_uses_least_covering_order [of 5000 "0x1000" mem_boot] by (auto simp: PAGE_SIZE_def)

text \<open>
  The rounding \<open>size + PAGE_SIZE - 1\<close> wraps for the largest sizes: a request of more than
  \<open>2 ^ 64 - 4096\<close> bytes is answered with a single page.
\<close>

theorem kmalloc_of_huge_size_is_one_page:
  assumes "2 ^ 64 - PAGE_SIZE < sz" "sz < 2 ^ 64"
  shows "kmalloc m sz = Some (m\<lparr>m_buddy := fst (alloc_one (m_buddy m))\<rparr>,
    case snd (alloc_one (m_buddy m)) of None \<Rightarrow> 0 | Some a \<Rightarrow> a)"
proof -
  have "usz (sz + PAGE_SIZE - 1) < PAGE_SIZE"
    using assms by (simp add: usz_def PAGE_SIZE_def le_mod_geq)
  then have "pages_for sz = 0" by (simp add: pages_for_def)
  moreover have "order_for 0 0 = Some 0" by (subst order_for.simps) simp
  ultimately show ?thesis
    using assms by (simp add: kmalloc_def alloc_rounded_def alloc_one_def split_beta PAGE_SIZE_def)
qed

theorem kmalloc_of_huge_size_is_one_page_witness:
  defines "m \<equiv> mem_init mem_boot 0x1000 [\<lparr>me_usable = True, me_base = 0x100000, me_length = 0x10000\<rparr>]"
  shows "map_option snd (kmalloc m (2 ^ 64 - 1)) = Some 0x101000"
proof -
  have b: "m_buddy m = buddy_init buddy_new 0x101000 0x10000"
    by (simp add: m_def mem_init_def mem_boot_def Let_def)
  have "snd (alloc_one (m_buddy m)) = Some 0x101000"
    using alloc_one_bump(1) [of "m_buddy m" 0]
    by (simp add: b buddy_wf_init free_bits_init lessThan_atLeast0 BITMAP_SIZE_val PAGE_SIZE_def)
  then show ?thesis
    using kmalloc_of_huge_size_is_one_page [of "2 ^ 64 - 1" m] by (simp add: PAGE_SIZE_def)
qed

lemma virt_phys_roundtrip:
  "virt_to_phys m (phys_to_virt_pub m p) = p"
  "v < 2 ^ 64 \<Longrightarrow> phys_to_virt_pub m (virt_to_phys m v) = v"
  by (simp_all add: virt_to_phys_def phys_to_virt_pub_def unat_of_nat take_bit_eq_mod)

end
