(* ===== verification/Sched.thy ===== *)
theory Sched
  imports Interrupts Pic Mem
begin

text \<open>
  The scheduler (\<open>src/kern/sched.rs\<close>): the task table, context save and restore, the timer
  interrupt's round-robin switch, task creation and exit, and the preemption counter. Indexing past
  the table is a panic, \<open>None\<close>. \<open>sd_if\<close> is the interrupt flag as \<open>cli\<close> and \<open>sti\<close> leave it;
  the address of \<open>task_trampoline\<close> is the linker's.
\<close>

section \<open>State\<close>

definition MAX_TASKS :: nat where "MAX_TASKS = 16"
definition TASK_STACK_SIZE :: usize where "TASK_STACK_SIZE = 0x4000"
definition TASK_STACK_ORDER :: usize where "TASK_STACK_ORDER = 2"
definition TIMER_HZ :: u32 where "TIMER_HZ = 100"
definition TIMER_VECTOR :: nat where "TIMER_VECTOR = 32"

datatype task_state = Empty | Ready | Running | Exited

record task =
  t_rip :: u64
  t_rsp :: u64
  t_rflags :: u64
  t_rax :: u64
  t_rbx :: u64
  t_rcx :: u64
  t_rdx :: u64
  t_rsi :: u64
  t_rdi :: u64
  t_rbp :: u64
  t_r8 :: u64
  t_r9 :: u64
  t_r10 :: u64
  t_r11 :: u64
  t_r12 :: u64
  t_r13 :: u64
  t_r14 :: u64
  t_r15 :: u64
  t_state :: task_state
  t_id :: u16
  t_stack_base :: usize
  t_stack_size :: usize
  t_name :: "u8 list"

definition task_empty :: task where
  "task_empty =
     \<lparr>t_rip = 0, t_rsp = 0, t_rflags = 0, t_rax = 0, t_rbx = 0, t_rcx = 0, t_rdx = 0, t_rsi = 0,
      t_rdi = 0, t_rbp = 0, t_r8 = 0, t_r9 = 0, t_r10 = 0, t_r11 = 0, t_r12 = 0, t_r13 = 0,
      t_r14 = 0, t_r15 = 0, t_state = Empty, t_id = 0, t_stack_base = 0, t_stack_size = 0,
      t_name = replicate 16 0\<rparr>"

record sched =
  sd_tasks :: "task list"
  sd_current :: usize
  sd_active :: bool
  sd_ticks :: u64
  sd_preempt :: u32
  sd_if :: bool

definition sched_boot :: sched where
  "sched_boot = \<lparr>sd_tasks = replicate MAX_TASKS task_empty, sd_current = 0, sd_active = False,
     sd_ticks = 0, sd_preempt = 0, sd_if = False\<rparr>"

section \<open>Operations\<close>

definition save_ctx :: "isr_context \<Rightarrow> task \<Rightarrow> task" where
  "save_ctx c t =
     t\<lparr>t_rip := cx_rip c, t_rsp := cx_rsp c, t_rflags := cx_rflags c, t_rax := cx_rax c,
       t_rbx := cx_rbx c, t_rcx := cx_rcx c, t_rdx := cx_rdx c, t_rsi := cx_rsi c,
       t_rdi := cx_rdi c, t_rbp := cx_rbp c, t_r8 := cx_r8 c, t_r9 := cx_r9 c, t_r10 := cx_r10 c,
       t_r11 := cx_r11 c, t_r12 := cx_r12 c, t_r13 := cx_r13 c, t_r14 := cx_r14 c,
       t_r15 := cx_r15 c\<rparr>"

definition load_ctx :: "task \<Rightarrow> isr_context \<Rightarrow> isr_context" where
  "load_ctx t c =
     c\<lparr>cx_rip := t_rip t, cx_rsp := t_rsp t, cx_rflags := t_rflags t, cx_rax := t_rax t,
       cx_rbx := t_rbx t, cx_rcx := t_rcx t, cx_rdx := t_rdx t, cx_rsi := t_rsi t,
       cx_rdi := t_rdi t, cx_rbp := t_rbp t, cx_r8 := t_r8 t, cx_r9 := t_r9 t, cx_r10 := t_r10 t,
       cx_r11 := t_r11 t, cx_r12 := t_r12 t, cx_r13 := t_r13 t, cx_r14 := t_r14 t,
       cx_r15 := t_r15 t, cx_cs := 0x08, cx_ss := 0x10\<rparr>"

definition task_at :: "sched \<Rightarrow> nat \<Rightarrow> task" where
  "task_at s i = sd_tasks s ! i"

definition set_task :: "nat \<Rightarrow> task \<Rightarrow> sched \<Rightarrow> sched" where
  "set_task i t s = s\<lparr>sd_tasks := (sd_tasks s)[i := t]\<rparr>"

text \<open>The search loop: step to the next slot, stop at a ready one, give up after \<open>n\<close> slots.\<close>

fun next_ready :: "task list \<Rightarrow> nat \<Rightarrow> nat \<Rightarrow> nat" where
  "next_ready ts 0 nxt = nxt"
| "next_ready ts (Suc n) nxt =
     (let nxt = (nxt + 1) mod MAX_TASKS
      in if t_state (ts ! nxt) = Ready then nxt else next_ready ts n nxt)"

definition timer_tick ::
  "isr_context \<Rightarrow> sched \<Rightarrow> tss \<Rightarrow> io \<Rightarrow> (isr_context \<times> sched \<times> tss \<times> io) option" where
  "timer_tick ctx s tss io =
     (let s = s\<lparr>sd_ticks := sd_ticks s + 1\<rparr>
      in if \<not> sd_active s \<or> sd_preempt s > 0 then Some (ctx, s, tss, eoi 0 io)
         else let cur = sd_current s
              in if cur \<ge> length (sd_tasks s) then None
                 else let t = save_ctx ctx (task_at s cur);
                          t = (if t_state t = Running then t\<lparr>t_state := Ready\<rparr> else t);
                          s = set_task cur t s;
                          nxt = next_ready (sd_tasks s) MAX_TASKS cur
                      in if t_state (task_at s nxt) \<noteq> Ready \<and> t_state (task_at s 0) = Exited
                         then Some (ctx, s, tss, eoi 0 io)
                         else let nxt = (if t_state (task_at s nxt) \<noteq> Ready then 0 else nxt);
                                  s = set_task nxt ((task_at s nxt)\<lparr>t_state := Running\<rparr>) s;
                                  s = s\<lparr>sd_current := nxt\<rparr>;
                                  t = task_at s nxt
                              in Some (load_ctx t ctx, s,
                                   set_kernel_stack (of_nat (usz (t_stack_base t + t_stack_size t))) tss,
                                   eoi 0 io))"

text \<open>\<open>task_exit\<close> up to its final halt loop; \<open>task_trampoline\<close> runs it when the entry returned.\<close>

definition task_exit :: "sched \<Rightarrow> io \<Rightarrow> (sched \<times> io) option" where
  "task_exit s io =
     (let s = s\<lparr>sd_if := False\<rparr>; cur = sd_current s
      in if cur \<ge> length (sd_tasks s) then None
         else let s = set_task cur ((task_at s cur)\<lparr>t_state := Exited\<rparr>) s
              in do { io \<leftarrow> puts ''sched: task '' io;
                      io \<leftarrow> dec (of_nat cur) io;
                      io \<leftarrow> puts '' exited\<newline>'' io;
                      Some (s\<lparr>sd_if := True\<rparr>, io) })"

definition trampoline_return :: "32 word \<Rightarrow> sched \<Rightarrow> io \<Rightarrow> (sched \<times> io) option" where
  "trampoline_return ret s io =
     do { io \<leftarrow> puts ''sched: task exited, ret='' io;
          io \<leftarrow> dec (scast ret) io;
          io \<leftarrow> puts ''\<newline>'' io;
          task_exit s io }"

definition sched_init :: "sched \<Rightarrow> idt \<Rightarrow> io \<Rightarrow> (sched \<times> idt \<times> io) option" where
  "sched_init s d io =
     do { io \<leftarrow> puts ''sched: init\<newline>'' io;
          let t = task_at s 0;
          let s = set_task 0 (t\<lparr>t_state := Running, t_id := 0,
                t_name := str_bytes ''idle'' @ drop 4 (t_name t)\<rparr>) s;
          let d = register_ctx_handler TIMER_VECTOR Timer_tick d;
          io \<leftarrow> pit_init TIMER_HZ io;
          let io = clear_mask 0 io;
          io \<leftarrow> puts ''sched: PIT '' io;
          io \<leftarrow> dec (ucast TIMER_HZ) io;
          io \<leftarrow> puts '' Hz, IRQ0 enabled\<newline>'' io;
          Some (s, d, io) }"

definition spawn_slot :: "sched \<Rightarrow> nat option" where
  "spawn_slot s = first_from (\<lambda>i. t_state (task_at s i) = Empty \<or> t_state (task_at s i) = Exited) 1 (MAX_TASKS - 1)"

definition new_task :: "u64 \<Rightarrow> nat \<Rightarrow> usize \<Rightarrow> u64 \<Rightarrow> u64 \<Rightarrow> u8 list \<Rightarrow> task" where
  "new_task trampoline i stack_base entry api name =
     task_empty\<lparr>t_id := of_nat i, t_state := Ready, t_stack_base := stack_base,
       t_stack_size := TASK_STACK_SIZE,
       t_name := take 15 name @ drop (min (length name) 15) (t_name task_empty),
       t_rip := trampoline, t_rsp := of_nat (usz (stack_base + TASK_STACK_SIZE - 8)),
       t_rflags := 0x202, t_rdi := entry, t_rsi := api\<rparr>"

definition spawn :: "u64 \<Rightarrow> u64 \<Rightarrow> u64 \<Rightarrow> u8 list \<Rightarrow> sched \<Rightarrow> mem \<Rightarrow> io \<Rightarrow>
    (u16 option \<times> sched \<times> mem \<times> io) option" where
  "spawn trampoline entry api name s m io =
     (let s = s\<lparr>sd_if := False\<rparr>
      in case spawn_slot s of
           None \<Rightarrow> do { io \<leftarrow> puts ''sched: no free task slots\<newline>'' io;
                        Some (None, s\<lparr>sd_if := True\<rparr>, m, io) }
         | Some i \<Rightarrow>
             (case mem_alloc_pages m TASK_STACK_ORDER of
                (m, None) \<Rightarrow> do { io \<leftarrow> puts ''sched: cannot alloc stack\<newline>'' io;
                                 Some (None, s\<lparr>sd_if := True\<rparr>, m, io) }
              | (m, Some stack_base) \<Rightarrow>
                  (let s = set_task i (new_task trampoline i stack_base entry api name) s
                   in do { io \<leftarrow> puts ''sched: spawned task '' io;
                           io \<leftarrow> dec (of_nat i) io;
                           io \<leftarrow> put_bytes [0x20, 0x27] io;
                           io \<leftarrow> put_bytes (take 15 name) io;
                           io \<leftarrow> put_bytes [0x27, 0x0A] io;
                           Some (Some (of_nat i), s\<lparr>sd_if := True\<rparr>, m, io) })))"

definition sched_start :: "sched \<Rightarrow> io \<Rightarrow> (sched \<times> io) option" where
  "sched_start s io = do { io \<leftarrow> puts ''sched: starting\<newline>'' io; Some (s\<lparr>sd_active := True\<rparr>, io) }"

definition preempt_disable :: "sched \<Rightarrow> sched" where
  "preempt_disable s = s\<lparr>sd_preempt := sd_preempt s + 1\<rparr>"

definition preempt_enable :: "sched \<Rightarrow> sched" where
  "preempt_enable s = (if sd_preempt s > 0 then s\<lparr>sd_preempt := sd_preempt s - 1\<rparr> else s)"

section \<open>Frames\<close>

lemmas sched_consts = MAX_TASKS_def TASK_STACK_SIZE_def TASK_STACK_ORDER_def

lemma task_at_simps [simp]:
  "task_at (s\<lparr>sd_ticks := a\<rparr>) i = task_at s i" "task_at (s\<lparr>sd_current := c\<rparr>) i = task_at s i"
  "task_at (s\<lparr>sd_if := b\<rparr>) i = task_at s i" "task_at (s\<lparr>sd_preempt := p\<rparr>) i = task_at s i"
  "i < length (sd_tasks s) \<Longrightarrow> task_at (set_task i t s) i = t"
  "i \<noteq> j \<Longrightarrow> task_at (set_task i t s) j = task_at s j"
  by (simp_all add: task_at_def set_task_def)

lemma set_task_fields [simp]:
  "length (sd_tasks (set_task i t s)) = length (sd_tasks s)"
  "sd_current (set_task i t s) = sd_current s" "sd_active (set_task i t s) = sd_active s"
  "sd_preempt (set_task i t s) = sd_preempt s" "sd_ticks (set_task i t s) = sd_ticks s"
  "sd_if (set_task i t s) = sd_if s"
  by (simp_all add: set_task_def)

lemma save_ctx_fields [simp]:
  "t_state (save_ctx c t) = t_state t" "t_stack_base (save_ctx c t) = t_stack_base t"
  "t_stack_size (save_ctx c t) = t_stack_size t" "t_id (save_ctx c t) = t_id t"
  "t_name (save_ctx c t) = t_name t"
  by (simp_all add: save_ctx_def)

lemma preempt_frame [simp]:
  "task_at (preempt_disable s) i = task_at s i" "task_at (preempt_enable s) i = task_at s i"
  "sd_current (preempt_disable s) = sd_current s" "sd_current (preempt_enable s) = sd_current s"
  by (simp_all add: preempt_disable_def preempt_enable_def)

section \<open>The search\<close>

text \<open>The slots visited from \<open>i\<close> on, in order, end with \<open>i\<close> itself.\<close>

definition slot_after :: "nat \<Rightarrow> nat \<Rightarrow> nat" where
  "slot_after i k = (i + k) mod MAX_TASKS"

lemma slot_after_less [simp]: "slot_after i k < MAX_TASKS"
  by (simp add: slot_after_def MAX_TASKS_def)

lemma slot_after_Suc: "slot_after ((i + 1) mod MAX_TASKS) k = slot_after i (Suc k)"
  by (simp add: slot_after_def mod_add_left_eq)

lemma next_ready_spec:
  assumes "n > 0"
  shows "\<exists>k. 1 \<le> k \<and> k \<le> n \<and> next_ready ts n i = slot_after i k \<and>
    (\<forall>j. 1 \<le> j \<and> j < k \<longrightarrow> t_state (ts ! slot_after i j) \<noteq> Ready) \<and>
    (t_state (ts ! slot_after i k) = Ready \<or>
      k = n \<and> (\<forall>j. 1 \<le> j \<and> j \<le> n \<longrightarrow> t_state (ts ! slot_after i j) \<noteq> Ready))"
  using assms
proof (induction n arbitrary: i)
  case (Suc n)
  let ?i = "(i + 1) mod MAX_TASKS"
  have one: "slot_after i 1 = ?i" by (simp add: slot_after_def)
  show ?case
  proof (cases "t_state (ts ! ?i) = Ready \<or> n = 0")
    case True
    then have "next_ready ts (Suc n) i = ?i" by (auto simp: Let_def)
    with True one show ?thesis by (intro exI [of _ 1]) (auto simp: le_Suc_eq)
  next
    case False
    from Suc.IH [of ?i] False obtain k where k: "1 \<le> k" "k \<le> n" "next_ready ts n ?i = slot_after ?i k"
      "\<forall>j. 1 \<le> j \<and> j < k \<longrightarrow> t_state (ts ! slot_after ?i j) \<noteq> Ready"
      "t_state (ts ! slot_after ?i k) = Ready \<or>
        k = n \<and> (\<forall>j. 1 \<le> j \<and> j \<le> n \<longrightarrow> t_state (ts ! slot_after ?i j) \<noteq> Ready)"
      by auto
    have shift: "(\<forall>j. 1 \<le> j \<and> j < m \<longrightarrow> t_state (ts ! slot_after ?i j) \<noteq> Ready) \<Longrightarrow>
        \<forall>j. 1 \<le> j \<and> j < Suc m \<longrightarrow> t_state (ts ! slot_after i j) \<noteq> Ready" for m
    proof (intro allI impI)
      fix j
      assume all: "\<forall>j. 1 \<le> j \<and> j < m \<longrightarrow> t_state (ts ! slot_after ?i j) \<noteq> Ready"
        and j: "1 \<le> j \<and> j < Suc m"
      show "t_state (ts ! slot_after i j) \<noteq> Ready"
      proof (cases "j = 1")
        case True
        then show ?thesis using False one by simp
      next
        case False
        with j obtain l where "j = Suc l" "1 \<le> l" "l < m" by (cases j) auto
        then show ?thesis using all slot_after_Suc [of i l] by auto
      qed
    qed
    show ?thesis
      using k shift [of k] shift [of "Suc n"] False slot_after_Suc [of i k]
      by (intro exI [of _ "Suc k"]) (auto simp: less_Suc_eq_le)
  qed
qed simp

section \<open>The invariant and the tick\<close>

text \<open>Sixteen slots, the current one among them, nobody else running, and slot 0 set up.\<close>

definition sched_inv :: "sched \<Rightarrow> bool" where
  "sched_inv s \<longleftrightarrow> length (sd_tasks s) = MAX_TASKS \<and> sd_current s < MAX_TASKS \<and>
     (\<forall>i<MAX_TASKS. t_state (task_at s i) = Running \<longrightarrow> i = sd_current s) \<and>
     t_state (task_at s 0) \<noteq> Empty"

text \<open>The table after the interrupted task was saved, and the switch to task \<open>i\<close>.\<close>

definition tick_saved :: "isr_context \<Rightarrow> sched \<Rightarrow> sched" where
  "tick_saved ctx s =
     (let t = save_ctx ctx (task_at s (sd_current s))
      in set_task (sd_current s) (if t_state t = Running then t\<lparr>t_state := Ready\<rparr> else t)
           (s\<lparr>sd_ticks := sd_ticks s + 1\<rparr>))"

definition run_task :: "nat \<Rightarrow> sched \<Rightarrow> sched" where
  "run_task i s = (set_task i ((task_at s i)\<lparr>t_state := Running\<rparr>) s)\<lparr>sd_current := i\<rparr>"

definition ready :: "sched \<Rightarrow> nat \<Rightarrow> bool" where
  "ready s i \<longleftrightarrow> t_state (task_at s i) = Ready"

lemma tick_saved_fields [simp]:
  "length (sd_tasks (tick_saved c s)) = length (sd_tasks s)"
  "sd_current (tick_saved c s) = sd_current s" "sd_active (tick_saved c s) = sd_active s"
  "sd_preempt (tick_saved c s) = sd_preempt s" "sd_if (tick_saved c s) = sd_if s"
  by (simp_all add: tick_saved_def Let_def)

lemma tick_saved_state:
  assumes "sched_inv s"
  shows "t_state (task_at (tick_saved c s) i) =
    (if i = sd_current s \<and> t_state (task_at s i) = Running then Ready else t_state (task_at s i))"
    "i \<noteq> sd_current s \<Longrightarrow> task_at (tick_saved c s) i = task_at s i"
  using assms by (cases "i = sd_current s"; simp add: tick_saved_def sched_inv_def Let_def)+

lemma run_task_fields [simp]:
  "length (sd_tasks (run_task i s)) = length (sd_tasks s)" "sd_current (run_task i s) = i"
  "sd_active (run_task i s) = sd_active s" "sd_preempt (run_task i s) = sd_preempt s"
  "i < length (sd_tasks s) \<Longrightarrow> t_state (task_at (run_task i s) j) =
     (if j = i then Running else t_state (task_at s j))"
  by (cases "i = j"; simp add: run_task_def)+

lemma timer_tick_cases:
  assumes inv: "sched_inv s" and on: "sd_active s" "sd_preempt s = 0"
  obtains
    (switch) k where "1 \<le> k" "k \<le> MAX_TASKS"
      "ready (tick_saved ctx s) (slot_after (sd_current s) k)"
      "\<forall>j. 1 \<le> j \<and> j < k \<longrightarrow> \<not> ready (tick_saved ctx s) (slot_after (sd_current s) j)"
      "timer_tick ctx s tss io =
        (let i = slot_after (sd_current s) k; s1 = tick_saved ctx s
         in Some (load_ctx (task_at s1 i) ctx, run_task i s1,
              set_kernel_stack (of_nat (usz (t_stack_base (task_at s1 i) + t_stack_size (task_at s1 i)))) tss,
              eoi 0 io))"
  | (stay) "\<forall>i<MAX_TASKS. \<not> ready (tick_saved ctx s) i" "t_state (task_at s 0) = Exited"
      "timer_tick ctx s tss io = Some (ctx, tick_saved ctx s, tss, eoi 0 io)"
proof -
  let ?s = "tick_saved ctx s" and ?cur = "sd_current s"
  have len: "length (sd_tasks s) = MAX_TASKS" and cur: "?cur < MAX_TASKS"
    using inv by (simp_all add: sched_inv_def)
  have saved: "set_task ?cur (if t_state (save_ctx ctx (task_at s ?cur)) = Running
      then (save_ctx ctx (task_at s ?cur))\<lparr>t_state := Ready\<rparr> else save_ctx ctx (task_at s ?cur))
      (s\<lparr>sd_ticks := sd_ticks s + 1\<rparr>) = ?s"
    by (simp add: tick_saved_def Let_def)
  have pos: "MAX_TASKS > 0" by (simp add: MAX_TASKS_def)
  obtain k where k: "1 \<le> k" "k \<le> MAX_TASKS"
    "next_ready (sd_tasks ?s) MAX_TASKS ?cur = slot_after ?cur k"
    "\<forall>j. 1 \<le> j \<and> j < k \<longrightarrow> \<not> ready ?s (slot_after ?cur j)"
    "ready ?s (slot_after ?cur k) \<or>
      k = MAX_TASKS \<and> (\<forall>j. 1 \<le> j \<and> j \<le> MAX_TASKS \<longrightarrow> \<not> ready ?s (slot_after ?cur j))"
    using next_ready_spec [OF pos, of "sd_tasks ?s" ?cur] by (auto simp: ready_def task_at_def)
  have tick: "timer_tick ctx s tss io =
      (if \<not> ready ?s (slot_after ?cur k) \<and> t_state (task_at ?s 0) = Exited
       then Some (ctx, ?s, tss, eoi 0 io)
       else let nxt = (if \<not> ready ?s (slot_after ?cur k) then 0 else slot_after ?cur k)
            in Some (load_ctx (task_at (run_task nxt ?s) nxt) ctx, run_task nxt ?s,
              set_kernel_stack (of_nat (usz (t_stack_base (task_at (run_task nxt ?s) nxt) +
                t_stack_size (task_at (run_task nxt ?s) nxt)))) tss, eoi 0 io))"
    using on len cur k(3)
    by (simp add: timer_tick_def Let_def ready_def run_task_def flip: saved)
  show ?thesis
  proof (cases "ready ?s (slot_after ?cur k)")
    case True
    let ?i = "slot_after ?cur k"
    have i: "?i < length (sd_tasks ?s)" using len by simp
    have same: "load_ctx (task_at (run_task ?i ?s) ?i) ctx = load_ctx (task_at ?s ?i) ctx"
      "t_stack_base (task_at (run_task ?i ?s) ?i) = t_stack_base (task_at ?s ?i)"
      "t_stack_size (task_at (run_task ?i ?s) ?i) = t_stack_size (task_at ?s ?i)"
      using i by (simp_all add: run_task_def load_ctx_def)
    show ?thesis
      by (rule switch [OF k(1,2) True k(4)]) (use True tick same in \<open>simp add: Let_def\<close>)
  next
    case False
    with k(5) have none: "\<forall>j. 1 \<le> j \<and> j \<le> MAX_TASKS \<longrightarrow> \<not> ready ?s (slot_after ?cur j)" by auto
    have all: "\<not> ready ?s i" if "i < MAX_TASKS" for i
    proof -
      let ?j = "if i > ?cur then i - ?cur else i + MAX_TASKS - ?cur"
      have "1 \<le> ?j \<and> ?j \<le> MAX_TASKS" using that cur by auto
      moreover have "slot_after ?cur ?j = i" using that cur by (auto simp: slot_after_def)
      ultimately show ?thesis using none by metis
    qed
    have zero: "t_state (task_at ?s 0) = t_state (task_at s 0)"
      using all [OF pos] tick_saved_state(1) [OF inv, of ctx 0] by (auto simp: ready_def)
    have "t_state (task_at s 0) = Running \<Longrightarrow> 0 = ?cur" using inv pos unfolding sched_inv_def by blast
    then have "t_state (task_at s 0) \<noteq> Running"
      using all [OF pos] tick_saved_state(1) [OF inv, of ctx 0] by (auto simp: ready_def)
    then have "t_state (task_at s 0) = Exited"
      using inv all [OF pos] zero by (cases "t_state (task_at s 0)") (auto simp: ready_def sched_inv_def)
    then show ?thesis using stay all tick False zero by simp
  qed
qed

lemma timer_tick_off:
  "\<not> sd_active s \<or> sd_preempt s > 0 \<Longrightarrow>
   timer_tick ctx s tss io = Some (ctx, s\<lparr>sd_ticks := sd_ticks s + 1\<rparr>, tss, eoi 0 io)"
  by (auto simp: timer_tick_def Let_def)

lemma sched_inv_saved: "sched_inv s \<Longrightarrow> sched_inv (tick_saved c s)"
  using tick_saved_state(1) [of s c] by (auto simp: sched_inv_def)

lemma saved_not_running: "sched_inv s \<Longrightarrow> i < MAX_TASKS \<Longrightarrow> t_state (task_at (tick_saved c s) i) \<noteq> Running"
  using tick_saved_state(1) [of s c i] by (auto simp: sched_inv_def)

lemma sched_inv_run: "sched_inv s \<Longrightarrow> i < MAX_TASKS \<Longrightarrow> sched_inv (run_task i (tick_saved c s))"
  using saved_not_running [of s] sched_inv_saved [of s c]
  unfolding sched_inv_def by (auto split: if_splits)

section \<open>Creating and ending tasks\<close>

lemma spawn_slot_if [simp]: "spawn_slot (s\<lparr>sd_if := b\<rparr>) = spawn_slot s"
  by (simp add: spawn_slot_def)

lemma spawn_slot_Some:
  "spawn_slot s = Some i \<Longrightarrow> 1 \<le> i \<and> i < MAX_TASKS \<and>
     (t_state (task_at s i) = Empty \<or> t_state (task_at s i) = Exited) \<and>
     (\<forall>j. 1 \<le> j \<and> j < i \<longrightarrow> t_state (task_at s j) = Ready \<or> t_state (task_at s j) = Running)"
  unfolding spawn_slot_def using task_state.exhaust
  by (auto simp: first_from_Some MAX_TASKS_def)

lemma spawn_slot_None:
  "spawn_slot s = None \<Longrightarrow> 1 \<le> j \<Longrightarrow> j < MAX_TASKS \<Longrightarrow>
     t_state (task_at s j) = Ready \<or> t_state (task_at s j) = Running"
  unfolding spawn_slot_def using task_state.exhaust
  by (auto simp: first_from_None MAX_TASKS_def)

lemma spawn_message:
  assumes "tx_live (io_env io)"
  shows "\<exists>io'. do { io \<leftarrow> puts a io; io \<leftarrow> dec v io; io \<leftarrow> put_bytes b io; io \<leftarrow> put_bytes c io; put_bytes d io }
      = Some io' \<and> io_env io' = io_env io"
proof -
  have "prints io (str_bytes a @ number_text 10 v @ b @ c @ d)
      (do { io \<leftarrow> puts a io; io \<leftarrow> dec v io; io \<leftarrow> put_bytes b io; io \<leftarrow> put_bytes c io; put_bytes d io })"
    by (intro prints_bind prints_puts prints_number)
      (use assms put_bytes_sends in \<open>auto simp: sent_env prints_def\<close>)
  then show ?thesis by (auto simp: prints_def sent_env)
qed

lemma spawn_cases:
  assumes live: "tx_live (io_env io)"
  obtains
    (no_slot) io' where "spawn_slot s = None" "io_env io' = io_env io"
      "spawn tr en api name s m io = Some (None, s\<lparr>sd_if := True\<rparr>, m, io')"
  | (no_stack) i m' io' where "spawn_slot s = Some i" "mem_alloc_pages m TASK_STACK_ORDER = (m', None)"
      "io_env io' = io_env io" "spawn tr en api name s m io = Some (None, s\<lparr>sd_if := True\<rparr>, m', io')"
  | (spawned) i m' base io' where "spawn_slot s = Some i"
      "mem_alloc_pages m TASK_STACK_ORDER = (m', Some base)" "io_env io' = io_env io"
      "spawn tr en api name s m io =
        Some (Some (of_nat i), (set_task i (new_task tr i base en api name) s)\<lparr>sd_if := True\<rparr>, m', io')"
proof (cases "spawn_slot s")
  case None
  obtain io' where "puts ''sched: no free task slots\<newline>'' io = Some io'" "io_env io' = io_env io"
    using puts_sends [OF live] sent_env by blast
  with None no_slot show ?thesis by (simp add: spawn_def Let_def)
next
  case (Some i)
  obtain m' r where m: "mem_alloc_pages m TASK_STACK_ORDER = (m', r)" by fastforce
  show ?thesis
  proof (cases r)
    case None
    obtain io' where "puts ''sched: cannot alloc stack\<newline>'' io = Some io'" "io_env io' = io_env io"
      using puts_sends [OF live] sent_env by blast
    with Some None m no_stack show ?thesis by (simp add: spawn_def Let_def)
  next
    case stack: (Some base)
    obtain io' where io': "do { io \<leftarrow> puts ''sched: spawned task '' io; io \<leftarrow> dec (of_nat i) io;
        io \<leftarrow> put_bytes [0x20, 0x27] io; io \<leftarrow> put_bytes (take 15 name) io; put_bytes [0x27, 0x0A] io } = Some io'"
      "io_env io' = io_env io" using spawn_message [OF live] by blast
    have "spawn tr en api name s m io =
        Some (Some (of_nat i), (set_task i (new_task tr i base en api name) s)\<lparr>sd_if := True\<rparr>, m', io')"
      using Some m stack io'(1) by (auto simp: spawn_def Let_def set_task_def bind_eq_Some_conv)
    with Some m stack io'(2) spawned show ?thesis by simp
  qed
qed

lemma sched_inv_if [simp]: "sched_inv (s\<lparr>sd_if := b\<rparr>) = sched_inv s"
  "sched_inv (s\<lparr>sd_preempt := p\<rparr>) = sched_inv s" "sched_inv (s\<lparr>sd_ticks := n\<rparr>) = sched_inv s"
  by (simp_all add: sched_inv_def)

lemma sched_inv_set:
  assumes "sched_inv s" "i < MAX_TASKS" "t_state t \<noteq> Running" "t_state t \<noteq> Empty"
  shows "sched_inv (set_task i t s)"
proof -
  have "t_state (task_at (set_task i t s) j) = (if j = i then t_state t else t_state (task_at s j))" for j
    using assms(1,2) by (cases "i = j") (simp_all add: sched_inv_def)
  with assms show ?thesis by (simp add: sched_inv_def)
qed

lemma new_task_fields [simp]:
  "t_state (new_task tr i b en api name) = Ready" "t_rip (new_task tr i b en api name) = tr"
  "t_stack_base (new_task tr i b en api name) = b"
  by (simp_all add: new_task_def)

lemma new_task_rsp: "t_rsp (new_task tr i b en api name) = of_nat (usz (b + TASK_STACK_SIZE - 8))"
  by (simp add: new_task_def)

lemma task_exit_returns:
  assumes inv: "sched_inv s" and live: "tx_live (io_env io)"
  shows "\<exists>io'. task_exit s io = Some ((set_task (sd_current s)
      ((task_at s (sd_current s))\<lparr>t_state := Exited\<rparr>) s)\<lparr>sd_if := True\<rparr>, io') \<and> io_env io' = io_env io"
proof -
  have "\<exists>io'. do { io \<leftarrow> puts ''sched: task '' io; io \<leftarrow> dec (of_nat (sd_current s)) io; puts '' exited\<newline>'' io }
      = Some io' \<and> io_env io' = io_env io"
    using prints_message(2) [OF live] sent_env unfolding prints_def by fastforce
  then show ?thesis using inv
    by (auto simp: task_exit_def sched_inv_def Let_def set_task_def bind_eq_Some_conv)
qed

section \<open>The scheduler as an event system\<close>

record system =
  sy_sched :: sched
  sy_tss :: tss
  sy_mem :: mem
  sy_io :: io

datatype sched_event =
    Tick isr_context
  | Spawn u64 u64 u64 "u8 list"
  | Exit
  | Preempt_disable
  | Preempt_enable

fun sched_step :: "system \<Rightarrow> sched_event \<Rightarrow> system option" where
  "sched_step y (Tick ctx) =
     do { (ctx', s, t, io) \<leftarrow> timer_tick ctx (sy_sched y) (sy_tss y) (sy_io y);
          Some (y\<lparr>sy_sched := s, sy_tss := t, sy_io := io\<rparr>) }"
| "sched_step y (Spawn tr entry api name) =
     do { (r, s, m, io) \<leftarrow> spawn tr entry api name (sy_sched y) (sy_mem y) (sy_io y);
          Some (y\<lparr>sy_sched := s, sy_mem := m, sy_io := io\<rparr>) }"
| "sched_step y Exit =
     do { (s, io) \<leftarrow> task_exit (sy_sched y) (sy_io y); Some (y\<lparr>sy_sched := s, sy_io := io\<rparr>) }"
| "sched_step y Preempt_disable = Some (y\<lparr>sy_sched := preempt_disable (sy_sched y)\<rparr>)"
| "sched_step y Preempt_enable = Some (y\<lparr>sy_sched := preempt_enable (sy_sched y)\<rparr>)"

definition system_inv :: "system \<Rightarrow> bool" where
  "system_inv y \<longleftrightarrow> sched_inv (sy_sched y) \<and> mem_inv (sy_mem y) \<and> tx_live (io_env (sy_io y))"

lemma tick_returns:
  assumes inv: "sched_inv s"
  shows "\<exists>ctx' s' tss'. timer_tick ctx s tss io = Some (ctx', s', tss', eoi 0 io) \<and> sched_inv s' \<and>
    sd_active s' = sd_active s \<and> sd_preempt s' = sd_preempt s"
proof (cases "sd_active s \<and> sd_preempt s = 0")
  case True
  then have on: "sd_active s" "sd_preempt s = 0" by simp_all
  show ?thesis
  proof (cases ctx tss io rule: timer_tick_cases [OF inv on, case_names switch stay])
    case (switch k)
    then show ?thesis using sched_inv_run [OF inv] by (auto simp: Let_def)
  next
    case stay
    then show ?thesis using sched_inv_saved [OF inv] by auto
  qed
next
  case False
  then have "\<not> sd_active s \<or> sd_preempt s > 0" by (auto simp: word_greater_zero_iff)
  from timer_tick_off [OF this] inv show ?thesis by simp
qed

lemma mem_inv_pages: "mem_inv m \<Longrightarrow> mem_inv (fst (mem_alloc_pages m k))"
  using mem_inv_buddy [OF _ same_region_ops(1)] by (simp add: mem_alloc_pages_def split_beta)

interpretation sched_events: event_system sched_step system_inv
proof unfold_locales
  fix y e
  assume "system_inv y"
  then have inv: "sched_inv (sy_sched y)" and mem: "mem_inv (sy_mem y)" and live: "tx_live (io_env (sy_io y))"
    by (simp_all add: system_inv_def)
  show "\<exists>y'. sched_step y e = Some y' \<and> system_inv y'"
  proof (cases e)
    case (Tick ctx)
    then show ?thesis using tick_returns [OF inv, of ctx "sy_tss y" "sy_io y"] mem live
      by (auto simp: system_inv_def eoi_def Let_def)
  next
    case (Spawn tr en api name)
    show ?thesis
    proof (rule spawn_cases [OF live, of "sy_sched y" tr en api name "sy_mem y"], goal_cases no_slot no_stack spawned)
      case (no_slot io')
      then show ?thesis using Spawn inv mem live by (simp add: system_inv_def)
    next
      case (no_stack i m' io')
      then show ?thesis using Spawn inv mem live mem_inv_pages [OF mem, of TASK_STACK_ORDER]
        by (simp add: system_inv_def)
    next
      case (spawned i m' base io')
      then show ?thesis
        using Spawn inv mem live mem_inv_pages [OF mem, of TASK_STACK_ORDER] spawn_slot_Some [OF spawned(1)]
        by (simp add: system_inv_def sched_inv_set)
    qed
  next
    case Exit
    then show ?thesis
      using task_exit_returns [OF inv live] inv mem live
      by (auto simp: system_inv_def intro!: sched_inv_set) (simp add: sched_inv_def)
  qed (use inv mem live in \<open>simp_all add: system_inv_def preempt_disable_def preempt_enable_def\<close>)
qed

section \<open>Fairness\<close>

text \<open>How many slots ahead of the current one slot \<open>i\<close> is, 16 for the current one itself.\<close>

definition distance_to :: "nat \<Rightarrow> sched \<Rightarrow> nat" where
  "distance_to i s = (if i > sd_current s then i - sd_current s else i + MAX_TASKS - sd_current s)"

lemma slot_after_eq:
  assumes "c < MAX_TASKS" "k \<le> MAX_TASKS"
  shows "slot_after c k = (if c + k < MAX_TASKS then c + k else c + k - MAX_TASKS)"
  using assms le_mod_geq [of MAX_TASKS "c + k"] by (simp add: slot_after_def)

lemma distance_slot:
  assumes "sd_current s < MAX_TASKS" "i < MAX_TASKS"
  shows "1 \<le> distance_to i s" "distance_to i s \<le> MAX_TASKS" "slot_after (sd_current s) (distance_to i s) = i"
proof -
  show d: "1 \<le> distance_to i s" "distance_to i s \<le> MAX_TASKS"
    using assms by (auto simp: distance_to_def)
  show "slot_after (sd_current s) (distance_to i s) = i"
    unfolding slot_after_eq [OF assms(1) d(2)] using assms by (auto simp: distance_to_def)
qed

lemma distance_step:
  assumes "sd_current s < MAX_TASKS" "i < MAX_TASKS" "1 \<le> k" "k < distance_to i s"
    "sd_current s' = slot_after (sd_current s) k"
  shows "distance_to i s' = distance_to i s - k"
proof -
  have "k \<le> MAX_TASKS" using assms(4) distance_slot(2) [OF assms(1,2)] by simp
  note cur = slot_after_eq [OF assms(1) this]
  show ?thesis
  proof (cases "sd_current s < i")
    case True
    then have "sd_current s' = sd_current s + k" "sd_current s + k < i"
      using assms unfolding cur by (simp_all add: distance_to_def)
    then show ?thesis using True by (simp add: distance_to_def)
  next
    case False
    then have k: "k < i + MAX_TASKS - sd_current s" using assms(4) by (simp add: distance_to_def)
    then show ?thesis
      using False assms(1-3,5) unfolding cur distance_to_def by (cases "sd_current s + k < MAX_TASKS") auto
  qed
qed

lemma tick_progress:
  assumes inv: "sched_inv s" and on: "sd_active s" "sd_preempt s = 0"
    and i: "i < MAX_TASKS" "ready s i" and tick: "timer_tick ctx s tss io = Some (ctx', s', tss', io')"
  shows "sd_current s' = i \<and> t_state (task_at s' i) = Running \<or>
    ready s' i \<and> distance_to i s' < distance_to i s"
proof (cases ctx tss io rule: timer_tick_cases [OF inv on, case_names switch stay])
  case (switch k)
  let ?n = "slot_after (sd_current s) k" and ?d = "distance_to i s"
  have cur: "sd_current s < MAX_TASKS" and len: "length (sd_tasks s) = MAX_TASKS"
    using inv by (simp_all add: sched_inv_def)
  have ri: "ready (tick_saved ctx s) i" using i(2) tick_saved_state(1) [OF inv] by (simp add: ready_def)
  have s': "s' = run_task ?n (tick_saved ctx s)" using tick switch(5) by (simp add: Let_def)
  have "k \<le> ?d" using switch(4) distance_slot [OF cur i(1)] ri by (metis not_le)
  show ?thesis
  proof (cases "?n = i")
    case True
    then show ?thesis using s' len i(1) by simp
  next
    case False
    then have "k < ?d" using \<open>k \<le> ?d\<close> distance_slot(3) [OF cur i(1)] by (metis le_neq_implies_less)
    then have "distance_to i s' < ?d"
      using distance_step [OF cur i(1) switch(1), of s'] switch(1) s' by simp
    then show ?thesis using False ri s' len by (simp add: ready_def)
  qed
next
  case stay
  then show ?thesis using i tick_saved_state(1) [OF inv, of ctx i] by (auto simp: ready_def)
qed

fun is_tick :: "sched_event \<Rightarrow> bool" where
  "is_tick (Tick ctx) = True"
| "is_tick _ = False"

lemma other_event_waits:
  assumes y: "system_inv y" and e: "\<not> is_tick e" "e \<noteq> Preempt_disable"
    and i: "ready (sy_sched y) i" "sd_current (sy_sched y) \<noteq> i" "sd_preempt (sy_sched y) = 0"
    and step: "sched_step y e = Some y'"
  shows "ready (sy_sched y') i \<and> sd_current (sy_sched y') = sd_current (sy_sched y) \<and>
    sd_active (sy_sched y') = sd_active (sy_sched y) \<and> sd_preempt (sy_sched y') = 0"
proof (cases e)
  case (Spawn tr en api name)
  have live: "tx_live (io_env (sy_io y))" using y by (simp add: system_inv_def)
  show ?thesis
  proof (rule spawn_cases [OF live, of "sy_sched y" tr en api name "sy_mem y"], goal_cases no_slot no_stack spawned)
    case (no_slot io')
    then show ?thesis using step Spawn i by (auto simp: ready_def)
  next
    case (no_stack j m' io')
    then show ?thesis using step Spawn i by (auto simp: ready_def)
  next
    case (spawned j m' base io')
    then have "j \<noteq> i" using spawn_slot_Some [OF spawned(1)] i(1) by (auto simp: ready_def)
    then show ?thesis using spawned step Spawn i by (auto simp: ready_def)
  qed
next
  case Exit
  then show ?thesis
    using task_exit_returns [of "sy_sched y" "sy_io y"] y step i by (auto simp: system_inv_def ready_def)
qed (use e i step in \<open>auto simp: ready_def preempt_enable_def\<close>)

lemma waits_at_most:
  assumes "system_inv y" "sd_active (sy_sched y)" "sd_preempt (sy_sched y) = 0"
    "i < MAX_TASKS" "ready (sy_sched y) i" "sd_current (sy_sched y) \<noteq> i"
    "Preempt_disable \<notin> set es" "distance_to i (sy_sched y) \<le> length (filter is_tick es)"
  shows "\<exists>n y'. n \<le> length es \<and> run_events sched_step y (take n es) = Some y' \<and>
    sd_current (sy_sched y') = i \<and> t_state (task_at (sy_sched y') i) = Running"
  using assms
proof (induction es arbitrary: y)
  case Nil
  then have "1 \<le> distance_to i (sy_sched y)"
    by (intro distance_slot(1)) (simp_all add: system_inv_def sched_inv_def)
  with Nil show ?case by simp
next
  case (Cons e es)
  let ?s = "sy_sched y"
  obtain y1 where y1: "sched_step y e = Some y1" "system_inv y1"
    using sched_events.step_safe [OF Cons.prems(1)] by blast
  have later: ?case if "\<exists>n y'. n \<le> length es \<and> run_events sched_step y1 (take n es) = Some y' \<and>
      sd_current (sy_sched y') = i \<and> t_state (task_at (sy_sched y') i) = Running"
  proof -
    from that obtain n y' where "n \<le> length es" "run_events sched_step y1 (take n es) = Some y'"
      "sd_current (sy_sched y') = i" "t_state (task_at (sy_sched y') i) = Running" by blast
    then show ?thesis using y1(1) by (intro exI [of _ "Suc n"] exI [of _ y']) simp
  qed
  show ?case
  proof (cases "is_tick e")
    case False
    then have w: "ready (sy_sched y1) i" "sd_current (sy_sched y1) = sd_current ?s"
      "sd_active (sy_sched y1)" "sd_preempt (sy_sched y1) = 0"
      using other_event_waits [OF Cons.prems(1) False _ Cons.prems(5,6,3) y1(1)] Cons.prems by auto
    then have "distance_to i (sy_sched y1) = distance_to i ?s" by (simp add: distance_to_def)
    then show ?thesis using Cons.prems w False y1(2) by (intro later Cons.IH) auto
  next
    case True
    then obtain ctx where e: "e = Tick ctx" by (cases e) auto
    have inv: "sched_inv ?s" using Cons.prems(1) by (simp add: system_inv_def)
    obtain ctx' s' t' io' where tick: "timer_tick ctx ?s (sy_tss y) (sy_io y) = Some (ctx', s', t', io')"
      and on: "sd_active s'" "sd_preempt s' = 0" and ys: "sy_sched y1 = s'"
      using tick_returns [OF inv, of ctx "sy_tss y" "sy_io y"] y1(1) e Cons.prems(2,3) by auto
    consider "sd_current s' = i" "t_state (task_at s' i) = Running"
      | "ready s' i" "distance_to i s' < distance_to i ?s" "sd_current s' \<noteq> i \<or> t_state (task_at s' i) \<noteq> Running"
      using tick_progress [OF inv Cons.prems(2-5) tick] by blast
    then show ?thesis
    proof cases
      case 1
      then show ?thesis using y1(1) ys by (intro exI [of _ 1] exI [of _ y1]) simp
    next
      case 2
      have cur: "sd_current ?s < MAX_TASKS" using inv by (simp add: sched_inv_def)
      have "sd_current s' \<noteq> i"
      proof
        assume "sd_current s' = i"
        then have "distance_to i s' = MAX_TASKS" by (simp add: distance_to_def)
        then show False using 2(2) distance_slot(2) [OF cur Cons.prems(4)] by simp
      qed
      then show ?thesis using 2 on ys y1(2) Cons.prems e by (intro later Cons.IH) auto
    qed
  qed
qed

section \<open>A task that waits keeps its registers\<close>

definition parked :: "nat \<Rightarrow> isr_context \<Rightarrow> sched \<Rightarrow> bool" where
  "parked i ctx s \<longleftrightarrow> i < MAX_TASKS \<and> sd_current s \<noteq> i \<and>
     t_state (task_at s i) = Ready \<and> (\<exists>t. task_at s i = save_ctx ctx t)"

lemma load_saved:
  "load_ctx (save_ctx c t) c2 = c\<lparr>cx_vector := cx_vector c2, cx_error_code := cx_error_code c2,
     cx_cs := 0x08, cx_ss := 0x10\<rparr>"
  by (simp add: load_ctx_def save_ctx_def)

lemma parked_saved: "sched_inv s \<Longrightarrow> parked i ctx s \<Longrightarrow> parked i ctx (tick_saved c s)"
  using tick_saved_state(2) [of s i c] by (auto simp: parked_def)

lemma parked_run:
  "sched_inv s \<Longrightarrow> parked i ctx s \<Longrightarrow> n \<noteq> i \<Longrightarrow> parked i ctx (run_task n s)"
  by (auto simp: parked_def run_task_def)

lemma parked_step:
  assumes y: "system_inv y" and p: "parked i ctx (sy_sched y)"
    and step: "sched_step y e = Some y'" and n: "sd_current (sy_sched y') \<noteq> i"
  shows "parked i ctx (sy_sched y')"
proof (cases e)
  case (Tick c)
  have inv: "sched_inv (sy_sched y)" using y by (simp add: system_inv_def)
  show ?thesis
  proof (cases "sd_active (sy_sched y) \<and> sd_preempt (sy_sched y) = 0")
    case True
    then have on: "sd_active (sy_sched y)" "sd_preempt (sy_sched y) = 0" by simp_all
    note ps = parked_saved [OF inv p, of c] and inv' = sched_inv_saved [OF inv, of c]
    show ?thesis
    proof (cases c "sy_tss y" "sy_io y" rule: timer_tick_cases [OF inv on, case_names switch stay])
      case (switch k)
      then show ?thesis using step Tick n parked_run [OF inv' ps] by (auto simp: Let_def)
    next
      case stay
      then show ?thesis using step Tick ps by auto
    qed
  next
    case False
    then have "\<not> sd_active (sy_sched y) \<or> sd_preempt (sy_sched y) > 0" by (auto simp: word_greater_zero_iff)
    from timer_tick_off [OF this] step Tick p show ?thesis by (auto simp: parked_def)
  qed
next
  case (Spawn tr en api name)
  have live: "tx_live (io_env (sy_io y))" using y by (simp add: system_inv_def)
  show ?thesis
  proof (rule spawn_cases [OF live, of "sy_sched y" tr en api name "sy_mem y"], goal_cases no_slot no_stack spawned)
    case (no_slot io')
    then show ?thesis using step Spawn p by (auto simp: parked_def)
  next
    case (no_stack j m' io')
    then show ?thesis using step Spawn p by (auto simp: parked_def)
  next
    case (spawned j m' base io')
    then have "j \<noteq> i" using spawn_slot_Some [OF spawned(1)] p by (auto simp: parked_def)
    then show ?thesis using spawned step Spawn p by (auto simp: parked_def)
  qed
next
  case Exit
  then show ?thesis
    using task_exit_returns [of "sy_sched y" "sy_io y"] y step p
    by (auto simp: system_inv_def parked_def) (rule exI, rule refl)
qed (use p step in \<open>auto simp: parked_def\<close>)

lemma parked_events:
  assumes "system_inv y" "parked i ctx (sy_sched y)" "run_events sched_step y es = Some y'"
    "\<forall>n\<le>length es. \<forall>z. run_events sched_step y (take n es) = Some z \<longrightarrow> sd_current (sy_sched z) \<noteq> i"
  shows "system_inv y' \<and> parked i ctx (sy_sched y')"
  using assms
proof (induction es arbitrary: y)
  case (Cons e es)
  obtain y1 where y1: "sched_step y e = Some y1" "system_inv y1"
    using sched_events.step_safe [OF Cons.prems(1)] by blast
  have later: "\<forall>n\<le>length es. \<forall>z. run_events sched_step y1 (take n es) = Some z \<longrightarrow> sd_current (sy_sched z) \<noteq> i"
    using Cons.prems(4) y1(1) by (metis Suc_le_mono bind.bind_lunit length_Cons run_events.simps(2) take_Suc_Cons)
  from spec [OF this, of 0] have "sd_current (sy_sched y1) \<noteq> i" by simp
  with parked_step [OF Cons.prems(1,2) y1(1)] have "parked i ctx (sy_sched y1)" by simp
  with Cons.IH [OF y1(2)] later Cons.prems(3) y1(1) show ?case by simp
qed simp

lemma tick_parks:
  assumes inv: "sched_inv s" and on: "sd_active s" "sd_preempt s = 0"
    and run: "t_state (task_at s (sd_current s)) = Running"
    and tick: "timer_tick ctx s tss io = Some (ctx', s', tss', io')" and n: "sd_current s' \<noteq> sd_current s"
  shows "parked (sd_current s) ctx s'"
proof (cases ctx tss io rule: timer_tick_cases [OF inv on, case_names switch stay])
  case (switch k)
  have cur: "sd_current s < MAX_TASKS" and len: "length (sd_tasks s) = MAX_TASKS"
    using inv by (simp_all add: sched_inv_def)
  have "task_at (tick_saved ctx s) (sd_current s) = save_ctx ctx ((task_at s (sd_current s))\<lparr>t_state := Ready\<rparr>)"
    using cur len run by (simp add: tick_saved_def Let_def) (simp add: save_ctx_def)
  then show ?thesis using switch(5) tick n cur by (auto simp: parked_def run_task_def Let_def)
next
  case stay
  then show ?thesis using tick n by simp
qed

lemma tick_resumes:
  assumes inv: "sched_inv s" and p: "parked i ctx s"
    and tick: "timer_tick c2 s tss io = Some (ctx', s', tss', io')" and n: "sd_current s' = i"
  shows "ctx' = ctx\<lparr>cx_vector := cx_vector c2, cx_error_code := cx_error_code c2, cx_cs := 0x08, cx_ss := 0x10\<rparr>"
proof -
  have ne: "sd_current s \<noteq> i" using p by (simp add: parked_def)
  have "sd_active s \<and> sd_preempt s = 0"
  proof (rule ccontr)
    assume "\<not> (sd_active s \<and> sd_preempt s = 0)"
    then have "\<not> sd_active s \<or> sd_preempt s > 0" by (auto simp: word_greater_zero_iff)
    from timer_tick_off [OF this] tick n ne show False by auto
  qed
  then have on: "sd_active s" "sd_preempt s = 0" by simp_all
  show ?thesis
  proof (cases c2 tss io rule: timer_tick_cases [OF inv on, case_names switch stay])
    case (switch k)
    then show ?thesis
      using tick n ne parked_saved [OF inv p, of c2] by (auto simp: parked_def load_saved Let_def)
  next
    case stay
    then show ?thesis using tick n ne by simp
  qed
qed

section \<open>A concrete system\<close>

text \<open>Slot 0 running, slot 1 ready, a 64 KiB region and a console that is always ready.\<close>

definition demo_ctx :: isr_context where
  "demo_ctx = \<lparr>cx_r15 = 15, cx_r14 = 14, cx_r13 = 13, cx_r12 = 12, cx_r11 = 11, cx_r10 = 10, cx_r9 = 9,
     cx_r8 = 8, cx_rbp = 7, cx_rdi = 6, cx_rsi = 5, cx_rdx = 4, cx_rcx = 3, cx_rbx = 2, cx_rax = 1,
     cx_vector = 32, cx_error_code = 0, cx_rip = 0x1000, cx_cs = 8, cx_rflags = 0x202,
     cx_rsp = 0x9000, cx_ss = 0x10\<rparr>"

definition demo_sched :: sched where
  "demo_sched = sched_boot\<lparr>sd_tasks := (replicate MAX_TASKS task_empty)
     [0 := task_empty\<lparr>t_state := Running\<rparr>, 1 := task_empty\<lparr>t_state := Ready, t_rip := 0x4000\<rparr>],
     sd_active := True\<rparr>"

definition demo_system :: system where
  "demo_system = \<lparr>sy_sched = demo_sched, sy_tss = tss_new,
     sy_mem = mem_init mem_boot 0x1000 [\<lparr>me_usable = True, me_base = 0x100000, me_length = 0x10000\<rparr>],
     sy_io = \<lparr>io_env = (\<lambda>_ _. 0x20), io_trace = []\<rparr>\<rparr>"

lemma demo_states:
  "i < 16 \<Longrightarrow> t_state (task_at demo_sched i) = (if i = 0 then Running else if i = 1 then Ready else Empty)"
  by (simp add: demo_sched_def task_at_def sched_boot_def MAX_TASKS_def nth_list_update task_empty_def)

lemma demo_fields [simp]:
  "length (sd_tasks demo_sched) = 16" "sd_current demo_sched = 0" "sd_active demo_sched"
  "sd_preempt demo_sched = 0" "sy_sched demo_system = demo_sched"
  by (simp_all add: demo_sched_def sched_boot_def demo_system_def MAX_TASKS_def)

lemma demo_inv [simp]: "system_inv demo_system" "sched_inv demo_sched"
proof -
  show s: "sched_inv demo_sched"
    unfolding sched_inv_def by (simp add: demo_states MAX_TASKS_def)
  have "mem_inv (sy_mem demo_system)"
    unfolding demo_system_def by (simp, rule mem_inv_init [of _ "0x100000" "0x10000"]) simp_all
  then show "system_inv demo_system" using s by (simp add: system_inv_def) (simp add: demo_system_def tx_live_def)
qed

text \<open>The first tick of the concrete system switches to slot 1, the second one back to slot 0.\<close>

lemma demo_tick:
  "timer_tick demo_ctx demo_sched tss io = Some (load_ctx (task_at demo_sched 1) demo_ctx,
     run_task 1 (tick_saved demo_ctx demo_sched), set_kernel_stack 0 tss, eoi 0 io)"
proof (cases demo_ctx tss io rule: timer_tick_cases [OF demo_inv(2) demo_fields(3,4), case_names switch stay])
  case (switch k)
  have one: "slot_after 0 1 = 1" by (simp add: slot_after_def MAX_TASKS_def)
  have "ready (tick_saved demo_ctx demo_sched) 1"
    using tick_saved_state(1) [OF demo_inv(2), of demo_ctx 1] by (simp add: ready_def demo_states)
  then have "k = 1" using switch(1,4) one by (metis demo_fields(2) le_neq_implies_less order_refl)
  moreover have "task_at (tick_saved demo_ctx demo_sched) 1 = task_at demo_sched 1"
    using tick_saved_state(2) [OF demo_inv(2), of 1 demo_ctx] by simp
  moreover have "t_stack_base (task_at demo_sched 1) = 0" "t_stack_size (task_at demo_sched 1) = 0"
    by (simp_all add: demo_sched_def task_at_def task_empty_def sched_boot_def MAX_TASKS_def)
  ultimately show ?thesis using switch(5) one by (simp add: Let_def)
next
  case stay
  then show ?thesis by (simp add: demo_states)
qed

lemma demo_second_tick:
  defines "s1 \<equiv> run_task 1 (tick_saved demo_ctx demo_sched)"
  shows "\<exists>ctx' s' tss' io'. timer_tick c s1 tss io = Some (ctx', s', tss', io') \<and> sd_current s' = 0"
proof -
  have inv: "sched_inv s1" unfolding s1_def by (rule sched_inv_run [OF demo_inv(2)]) (simp add: MAX_TASKS_def)
  have on: "sd_active s1" "sd_preempt s1 = 0" by (simp_all add: s1_def)
  have st: "t_state (task_at (tick_saved c s1) i) = (if i = 0 \<or> i = 1 then Ready else Empty)" if "i < 16" for i
    using that tick_saved_state(1) [OF inv, of c i] tick_saved_state(1) [OF demo_inv(2), of demo_ctx i]
    by (auto simp: s1_def demo_states)
  show ?thesis
  proof (cases c tss io rule: timer_tick_cases [OF inv on, case_names switch stay])
    case (switch k)
    have less: "slot_after 1 k < 16" using slot_after_less [of 1 k] by (simp add: MAX_TASKS_def)
    have k: "k \<le> 16" using switch(2) by (simp add: MAX_TASKS_def)
    have "slot_after 1 k \<noteq> 1"
    proof
      assume "slot_after 1 k = 1"
      then have "k = 16" using k switch(1) by (auto simp: slot_after_def MAX_TASKS_def mod_if split: if_splits)
      moreover have "slot_after 1 15 = 0" by (simp add: slot_after_def MAX_TASKS_def)
      ultimately show False using switch(4) [THEN spec, of 15] st [of 0] by (simp add: s1_def ready_def)
    qed
    then have "slot_after 1 k = 0"
      using switch(3) st [OF less] by (auto simp: s1_def ready_def split: if_splits)
    then show ?thesis using switch(5) by (simp add: s1_def Let_def)
  next
    case stay
    then show ?thesis using st [of 0] by (simp add: ready_def MAX_TASKS_def)
  qed
qed

section \<open>Properties\<close>

text \<open>
  C13: the scheduler never breaks. Any sequence of timer ticks, task creations, exits and
  preemption calls returns (no index panic) on a live console, and keeps: sixteen slots, a valid
  current slot, at most one running task, which is the current one, and a well-formed heap.
\<close>

theorem scheduler_runs_and_keeps_one_running:
  assumes "system_inv y"
  shows "\<exists>y'. run_events sched_step y es = Some y' \<and> system_inv y' \<and>
    sd_current (sy_sched y') < 16 \<and>
    (\<forall>i<16. t_state (task_at (sy_sched y') i) = Running \<longrightarrow> i = sd_current (sy_sched y'))"
  using sched_events.run_safe [OF assms, of es]
  by (auto simp: system_inv_def sched_inv_def MAX_TASKS_def)

theorem scheduler_runs_and_keeps_one_running_witness:
  "\<exists>y'. run_events sched_step demo_system [Tick demo_ctx, Exit, Spawn 1 2 3 [65], Tick demo_ctx] = Some y' \<and>
    system_inv y'"
  using scheduler_runs_and_keeps_one_running [OF demo_inv(1), of "[Tick demo_ctx, Exit, Spawn 1 2 3 [65], Tick demo_ctx]"]
  by blast

text \<open>
  C14: round-robin fairness. A ready task gets the processor within sixteen timer ticks, whatever
  the other events are in between (spawns, exits of the running task), as long as preemption stays
  enabled.
\<close>

theorem ready_task_runs_within_16_ticks:
  assumes "system_inv y" "sd_active (sy_sched y)" "sd_preempt (sy_sched y) = 0"
    and "i < 16" "t_state (task_at (sy_sched y) i) = Ready" "sd_current (sy_sched y) \<noteq> i"
    and "Preempt_disable \<notin> set es" "16 \<le> length (filter is_tick es)"
  shows "\<exists>n y'. n \<le> length es \<and> run_events sched_step y (take n es) = Some y' \<and>
    sd_current (sy_sched y') = i \<and> t_state (task_at (sy_sched y') i) = Running"
proof (rule waits_at_most)
  show "distance_to i (sy_sched y) \<le> length (filter is_tick es)"
    using assms(1,4,8) distance_slot(2) [of "sy_sched y" i]
    by (simp add: system_inv_def sched_inv_def MAX_TASKS_def)
qed (use assms in \<open>simp_all add: ready_def MAX_TASKS_def\<close>)

theorem ready_task_runs_within_16_ticks_witness:
  "\<exists>n y'. n \<le> 16 \<and> run_events sched_step demo_system (take n (replicate 16 (Tick demo_ctx))) = Some y' \<and>
    sd_current (sy_sched y') = 1"
proof -
  have ticks: "Preempt_disable \<notin> set (replicate 16 (Tick demo_ctx))"
    "16 \<le> length (filter is_tick (replicate 16 (Tick demo_ctx)))" by simp_all
  have one: "(1::nat) < 16" "t_state (task_at (sy_sched demo_system) 1) = Ready"
    "sd_current (sy_sched demo_system) \<noteq> 1" "sd_active (sy_sched demo_system)"
    "sd_preempt (sy_sched demo_system) = 0" by (simp_all add: demo_states)
  from ready_task_runs_within_16_ticks [OF demo_inv(1) one(4,5,1-3) ticks] show ?thesis
    unfolding length_replicate by blast
qed

text \<open>
  C15: context switches are invisible. If a running task is interrupted with registers \<open>ctx\<close> and
  another task is chosen, then whatever happens until the task is next chosen, it resumes with
  exactly the registers, flags, stack and instruction pointer it was interrupted with; only the
  code and stack selectors are forced to the kernel's.
\<close>

theorem preempted_task_resumes_unchanged:
  assumes "system_inv y" "sd_active (sy_sched y)" "sd_preempt (sy_sched y) = 0"
    and "sd_current (sy_sched y) = i" "t_state (task_at (sy_sched y) i) = Running"
    and "timer_tick ctx (sy_sched y) (sy_tss y) (sy_io y) = Some (ctx1, s1, tss1, io1)"
    and "run_events sched_step (y\<lparr>sy_sched := s1, sy_tss := tss1, sy_io := io1\<rparr>) es = Some y2"
    and "\<forall>n\<le>length es. \<forall>z. run_events sched_step (y\<lparr>sy_sched := s1, sy_tss := tss1, sy_io := io1\<rparr>)
           (take n es) = Some z \<longrightarrow> sd_current (sy_sched z) \<noteq> i"
    and "timer_tick ctx2 (sy_sched y2) tss2 io2 = Some (ctx', s', tss', io')" "sd_current s' = i"
  shows "ctx' = ctx\<lparr>cx_vector := cx_vector ctx2, cx_error_code := cx_error_code ctx2,
    cx_cs := 0x08, cx_ss := 0x10\<rparr>"
proof -
  let ?y1 = "y\<lparr>sy_sched := s1, sy_tss := tss1, sy_io := io1\<rparr>"
  have inv: "sched_inv (sy_sched y)" using assms(1) by (simp add: system_inv_def)
  have "sched_step y (Tick ctx) = Some ?y1" using assms(6) by simp
  then have y1: "system_inv ?y1" by (rule sched_events.step_inv [OF assms(1)])
  have "sd_current s1 \<noteq> i" using spec [OF assms(8), of 0] by simp
  then have "parked i ctx s1" using tick_parks [OF inv assms(2,3) _ assms(6)] assms(4,5) by simp
  then have "system_inv y2 \<and> parked i ctx (sy_sched y2)"
    using parked_events [OF y1 _ assms(7,8)] by simp
  then show ?thesis using tick_resumes [OF _ _ assms(9,10)] by (simp add: system_inv_def)
qed

theorem preempted_task_resumes_unchanged_witness:
  "\<exists>s1 tss1 io1 ctx1 s' tss' io'.
     timer_tick demo_ctx demo_sched tss_new (sy_io demo_system) = Some (ctx1, s1, tss1, io1) \<and> cx_rip ctx1 = 0x4000 \<and>
     timer_tick ctx1 s1 tss1 io1 = Some (demo_ctx, s', tss', io')"
proof -
  let ?s1 = "run_task 1 (tick_saved demo_ctx demo_sched)" and ?io = "eoi 0 (sy_io demo_system)"
    and ?c1 = "load_ctx (task_at demo_sched 1) demo_ctx"
  let ?y2 = "demo_system\<lparr>sy_sched := ?s1, sy_tss := set_kernel_stack 0 tss_new, sy_io := ?io\<rparr>"
  obtain ctx' s' tss' io' where t2:
    "timer_tick ?c1 (sy_sched ?y2) (set_kernel_stack 0 tss_new) ?io = Some (ctx', s', tss', io')" "sd_current s' = 0"
    using demo_second_tick [of ?c1 "set_kernel_stack 0 tss_new" ?io] by auto
  have y: "sd_active (sy_sched demo_system)" "sd_preempt (sy_sched demo_system) = 0"
    "sd_current (sy_sched demo_system) = 0" "t_state (task_at (sy_sched demo_system) 0) = Running"
    by (simp_all add: demo_states)
  have tss: "sy_tss demo_system = tss_new" by (simp add: demo_system_def)
  have "ctx' = demo_ctx\<lparr>cx_vector := cx_vector ?c1, cx_error_code := cx_error_code ?c1, cx_cs := 0x08, cx_ss := 0x10\<rparr>"
    by (rule preempted_task_resumes_unchanged [OF demo_inv(1) y, of demo_ctx ?c1 ?s1 "set_kernel_stack 0 tss_new" ?io "[]" ?y2,
          OF _ _ _ t2]) (simp_all add: demo_tick tss)
  then have "ctx' = demo_ctx" by (simp add: load_ctx_def demo_ctx_def)
  moreover have "cx_rip ?c1 = 0x4000"
    by (simp add: load_ctx_def demo_sched_def task_at_def sched_boot_def MAX_TASKS_def)
  ultimately show ?thesis using t2(1) demo_tick [of tss_new "sy_io demo_system"] by auto
qed

text \<open>
  Creating a task. On a live console \<open>spawn\<close> returns. It takes the first slot from 1 on that
  is empty or exited, fails (changing no slot) exactly when there is none or no stack block is
  left, and otherwise the new task is ready at the trampoline with its arguments, its stack pointer
  8 below the top of a 16 KiB block inside the managed memory; no other slot changes.
\<close>

theorem spawn_creates_ready_task:
  assumes "sched_inv s" "mem_inv m" "tx_live (io_env io)"
  shows "\<exists>r s' m' io'. spawn tr entry api name s m io = Some (r, s', m', io') \<and> sd_if s' \<and>
    sched_inv s' \<and> mem_inv m' \<and>
    (r = None \<longleftrightarrow> (\<forall>i. 1 \<le> i \<and> i < 16 \<longrightarrow> t_state (task_at s i) \<in> {Ready, Running}) \<or>
       snd (mem_alloc_pages m 2) = None) \<and>
    (r = None \<longrightarrow> sd_tasks s' = sd_tasks s) \<and>
    (\<forall>n. r = Some n \<longrightarrow> (\<exists>i base. n = of_nat i \<and> 1 \<le> i \<and> i < 16 \<and>
       t_state (task_at s i) \<in> {Empty, Exited} \<and>
       (\<forall>j. 1 \<le> j \<and> j < i \<longrightarrow> t_state (task_at s j) \<in> {Ready, Running}) \<and>
       fst (mem_region m) \<le> base \<and> base + 0x4000 \<le> snd (mem_region m) \<and>
       task_at s' i = new_task tr i base entry api name \<and>
       unat (t_rsp (task_at s' i)) = base + 0x4000 - 8 \<and>
       (\<forall>j. j \<noteq> i \<longrightarrow> task_at s' j = task_at s j)))"
proof (rule spawn_cases [OF assms(3), of s tr entry api name m], goal_cases no_slot no_stack spawned)
  case (no_slot io')
  then have "\<forall>i. 1 \<le> i \<and> i < 16 \<longrightarrow> t_state (task_at s i) \<in> {Ready, Running}"
    using spawn_slot_None by (auto simp: MAX_TASKS_def)
  then show ?case using no_slot assms by simp
next
  case (no_stack i m' io')
  then show ?case using assms mem_inv_pages [OF assms(2), of 2] by (simp add: TASK_STACK_ORDER_def)
next
  case (spawned i m' base io')
  have i: "1 \<le> i" "i < 16" "t_state (task_at s i) \<in> {Empty, Exited}"
    "\<forall>j. 1 \<le> j \<and> j < i \<longrightarrow> t_state (task_at s j) \<in> {Ready, Running}"
    using spawn_slot_Some [OF spawned(1)] by (auto simp: MAX_TASKS_def)
  have call: "snd (buddy_alloc_pages (m_buddy m) 2) = Some base"
    using spawned(2) by (auto simp: mem_alloc_pages_def TASK_STACK_ORDER_def split_beta)
  have reg: "region_ok (m_buddy m)" using assms(2) by (simp add: mem_inv_def)
  then have "block_ok (m_buddy m) 2 base" using alloc_pages_block [OF _ call] by (simp add: region_ok_def)
  then have base: "fst (mem_region m) \<le> base" "base + 0x4000 \<le> snd (mem_region m)"
    by (simp_all add: block_ok_def mem_region_def PAGE_SIZE_def)
  moreover have "snd (mem_region m) < 2 ^ 64" using reg by (simp add: region_ok_def mem_region_def)
  ultimately have rsp: "unat (t_rsp (new_task tr i base entry api name)) = base + 0x4000 - 8"
    unfolding new_task_rsp TASK_STACK_SIZE_def by (subst unat_of_usz) (simp_all del: of_nat_add)
  have len: "i < length (sd_tasks s)" using assms(1) i(2) by (simp add: sched_inv_def MAX_TASKS_def)
  let ?t = "new_task tr i base entry api name"
  let ?s = "(set_task i ?t s)\<lparr>sd_if := True\<rparr>"
  have "t_state (task_at s i) \<notin> {Ready, Running}" using i(3) by auto
  then have slot: "\<not> (\<forall>i. 1 \<le> i \<and> i < 16 \<longrightarrow> t_state (task_at s i) \<in> {Ready, Running})" using i(1,2) by blast
  have m': "mem_inv m'" "snd (mem_alloc_pages m 2) \<noteq> None"
    using spawned(2) mem_inv_pages [OF assms(2), of 2] by (simp_all add: TASK_STACK_ORDER_def)
  have inv: "sched_inv ?s" using sched_inv_set [OF assms(1), of i ?t] i(2) by (simp add: MAX_TASKS_def)
  have at: "task_at ?s i = ?t" "\<forall>j. j \<noteq> i \<longrightarrow> task_at ?s j = task_at s j" using len by simp_all
  show ?case
    by (intro exI [of _ "Some (of_nat i)"] exI [of _ ?s] exI [of _ m'] exI [of _ io'] conjI allI impI)
      (use spawned(4) inv m' slot in simp_all, intro exI [of _ i] exI [of _ base],
        use i base rsp at in simp)
qed

theorem spawn_creates_ready_task_witness:
  "\<exists>r s' m' io'. spawn 1 2 3 [65] demo_sched (sy_mem demo_system) (sy_io demo_system) = Some (r, s', m', io') \<and>
    sched_inv s' \<and> (r = None \<longleftrightarrow> snd (mem_alloc_pages (sy_mem demo_system) 2) = None)"
proof -
  have inv: "mem_inv (sy_mem demo_system)" "tx_live (io_env (sy_io demo_system))"
    using demo_inv(1) by (simp_all add: system_inv_def)
  have "t_state (task_at demo_sched 2) \<notin> {Ready, Running}" by (simp add: demo_states)
  then have "\<not> (\<forall>i. 1 \<le> i \<and> i < 16 \<longrightarrow> t_state (task_at demo_sched i) \<in> {Ready, Running})"
    by (auto intro!: exI [of _ 2])
  with spawn_creates_ready_task [OF demo_inv(2) inv, of 1 2 3 "[65]"] show ?thesis by metis
qed

text \<open>
  A task interrupted in user mode resumes in kernel mode. The context saved by the tick does
  not hold the selectors and \<open>load_ctx\<close> forces the kernel ones: whenever the running task is
  interrupted by the timer, even with a ring 3 code selector and even when it is itself chosen
  again, the tick returns to ring 0.
\<close>

theorem tick_returns_to_ring_0:
  assumes "sched_inv s" "sd_active s" "sd_preempt s = 0" "t_state (task_at s (sd_current s)) = Running"
  shows "\<exists>ctx' s' tss' io'. timer_tick (ctx\<lparr>cx_cs := 0x23, cx_ss := 0x1B\<rparr>) s tss io = Some (ctx', s', tss', io') \<and>
    cx_cs ctx' = 0x08 \<and> cx_ss ctx' = 0x10"
proof (cases "ctx\<lparr>cx_cs := 0x23, cx_ss := 0x1B\<rparr>" tss io
    rule: timer_tick_cases [OF assms(1-3), case_names switch stay])
  case (switch k)
  then show ?thesis by (simp add: Let_def load_ctx_def)
next
  case stay
  have "sd_current s < MAX_TASKS" using assms(1) by (simp add: sched_inv_def)
  then show ?thesis using stay(1) tick_saved_state(1) [OF assms(1)] assms(4) by (auto simp: ready_def)
qed

theorem tick_returns_to_ring_0_witness:
  "\<exists>ctx' s' tss' io'. timer_tick (demo_ctx\<lparr>cx_cs := 0x23, cx_ss := 0x1B\<rparr>) demo_sched tss_new (sy_io demo_system) =
    Some (ctx', s', tss', io') \<and> cx_cs ctx' = 0x08"
proof -
  have "t_state (task_at demo_sched (sd_current demo_sched)) = Running" by (simp add: demo_states)
  from tick_returns_to_ring_0 [OF demo_inv(2) demo_fields(3,4) this, of demo_ctx tss_new "sy_io demo_system"]
  show ?thesis by blast
qed

end
