(* ===== verification/Ring.thy ===== *)
theory Ring
  imports Prelude
begin

text \<open>
  The bounded queue interface, with what follows for whole runs, and the index arithmetic of ring
  buffers. The message rings of \<open>Ipc\<close> and the key buffer of \<open>Ps2\<close> provide the interface.
\<close>

section \<open>The interface\<close>

datatype 'a queue_op = Push 'a | Pop

text \<open>A run gives the final queue, the values accepted and the values delivered.\<close>

fun run_queue :: "('q \<Rightarrow> 'a \<Rightarrow> 'q \<times> bool) \<Rightarrow> ('q \<Rightarrow> 'q \<times> 'a option) \<Rightarrow> 'q \<Rightarrow> 'a queue_op list \<Rightarrow>
    'q \<times> 'a list \<times> 'a list" where
  "run_queue push pop q [] = (q, [], [])"
| "run_queue push pop q (Push a # ops) =
     (let (q', ok) = push q a; (q'', acc, del) = run_queue push pop q' ops
      in (q'', (if ok then a # acc else acc), del))"
| "run_queue push pop q (Pop # ops) =
     (let (q', r) = pop q; (q'', acc, del) = run_queue push pop q' ops
      in (q'', acc, (case r of Some a \<Rightarrow> a # del | None \<Rightarrow> del)))"

lemma run_queue_preserves:
  assumes "\<And>q a. P q \<Longrightarrow> P (fst (push q a))" "\<And>q. P q \<Longrightarrow> P (fst (pop q))"
  shows "P q \<Longrightarrow> P (fst (run_queue push pop q ops))"
proof (induction ops arbitrary: q)
  case (Cons op ops)
  then show ?case using assms by (cases op) (simp_all add: split_beta Let_def)
qed simp

text \<open>The reference: a list that takes values at its end while it is shorter than \<open>n\<close>.\<close>

definition list_push :: "nat \<Rightarrow> 'a list \<Rightarrow> 'a \<Rightarrow> 'a list \<times> bool" where
  "list_push n as a = (if length as < n then (as @ [a], True) else (as, False))"

fun list_pop :: "'a list \<Rightarrow> 'a list \<times> 'a option" where
  "list_pop [] = ([], None)"
| "list_pop (a # as) = (as, Some a)"

locale bounded_queue =
  fixes push :: "'q \<Rightarrow> 'a \<Rightarrow> 'q \<times> bool" and pop :: "'q \<Rightarrow> 'q \<times> 'a option"
    and contents :: "'q \<Rightarrow> 'a list" and inv :: "'q \<Rightarrow> bool" and capacity :: nat
  assumes bounded: "inv q \<Longrightarrow> length (contents q) \<le> capacity"
    and push_full: "inv q \<Longrightarrow> length (contents q) = capacity \<Longrightarrow> push q a = (q, False)"
    and push_room: "inv q \<Longrightarrow> length (contents q) < capacity \<Longrightarrow>
      snd (push q a) \<and> inv (fst (push q a)) \<and> contents (fst (push q a)) = contents q @ [a]"
    and pop_empty: "inv q \<Longrightarrow> contents q = [] \<Longrightarrow> pop q = (q, None)"
    and pop_some: "inv q \<Longrightarrow> contents q = a # as \<Longrightarrow>
      snd (pop q) = Some a \<and> inv (fst (pop q)) \<and> contents (fst (pop q)) = as"
begin

lemma push_cases:
  assumes "inv q"
  shows "inv (fst (push q a))"
    "contents (fst (push q a)) = contents q @ (if snd (push q a) then [a] else [])"
    "snd (push q a) \<longleftrightarrow> length (contents q) < capacity"
  using push_full [OF assms, of a] push_room [OF assms, of a] bounded [OF assms] assms
  by (cases "length (contents q) = capacity"; simp)+

lemma pop_cases:
  assumes "inv q"
  shows "inv (fst (pop q))"
    "contents q = (case snd (pop q) of Some a \<Rightarrow> a # contents (fst (pop q)) | None \<Rightarrow> contents (fst (pop q)))"
    "snd (pop q) = None \<longleftrightarrow> contents q = []"
  using pop_empty [OF assms] pop_some [OF assms] assms by (cases "contents q"; simp)+

text \<open>First in, first out: what was accepted comes out in order, and what is left is the rest.\<close>

lemma fifo:
  "inv q \<Longrightarrow> run_queue push pop q ops = (q', acc, del) \<Longrightarrow>
   inv q' \<and> contents q @ acc = del @ contents q'"
proof (induction ops arbitrary: q acc del)
  case (Cons op ops)
  show ?case
  proof (cases op)
    case (Push a)
    obtain p acc' d where run: "run_queue push pop (fst (push q a)) ops = (p, acc', d)"
      by (metis prod_cases3)
    with Push Cons.prems(2) have eqs: "p = q'" "d = del"
      and acc: "acc = (if snd (push q a) then a # acc' else acc')"
      by (auto simp: split_beta Let_def)
    note run = run [unfolded eqs]
    show ?thesis
      using Cons.IH [OF push_cases(1) [OF Cons.prems(1)] run] push_cases(2) [OF Cons.prems(1), of a]
      by (auto simp: acc)
  next
    case Pop
    obtain p e del' where run: "run_queue push pop (fst (pop q)) ops = (p, e, del')"
      by (metis prod_cases3)
    with Pop Cons.prems(2) have eqs: "p = q'" "e = acc"
      and del: "del = (case snd (pop q) of Some a \<Rightarrow> a # del' | None \<Rightarrow> del')"
      by (auto simp: split_beta Let_def split: option.splits)
    note run = run [unfolded eqs]
    show ?thesis
      using Cons.IH [OF pop_cases(1) [OF Cons.prems(1)] run] pop_cases(2) [OF Cons.prems(1)]
      by (auto simp: del split: option.splits)
  qed
qed simp

text \<open>Every run is the run of the reference: the same values accepted, refused and delivered.\<close>

lemma push_reference: "inv q \<Longrightarrow> list_push capacity (contents q) a = (contents (fst (push q a)), snd (push q a))"
  using push_cases [of q a] by (cases "snd (push q a)") (simp_all add: list_push_def)

lemma pop_reference: "inv q \<Longrightarrow> list_pop (contents q) = (contents (fst (pop q)), snd (pop q))"
  using pop_empty [of q] pop_some [of q] by (cases "contents q") simp_all

lemma run_reference:
  "inv q \<Longrightarrow> run_queue push pop q ops = (q', acc, del) \<Longrightarrow>
   run_queue (list_push capacity) list_pop (contents q) ops = (contents q', acc, del)"
proof (induction ops arbitrary: q q' acc del)
  case (Cons op ops)
  show ?case
  proof (cases op)
    case (Push a)
    obtain p acc' d where run: "run_queue push pop (fst (push q a)) ops = (p, acc', d)" by (metis prod_cases3)
    from Cons.IH [OF push_cases(1) [OF Cons.prems(1)] this] show ?thesis
      using Push Cons.prems(2) run push_reference [OF Cons.prems(1), of a] by (auto simp: split_beta Let_def)
  next
    case Pop
    obtain p acc' d where run: "run_queue push pop (fst (pop q)) ops = (p, acc', d)" by (metis prod_cases3)
    from Cons.IH [OF pop_cases(1) [OF Cons.prems(1)] this] show ?thesis
      using Pop Cons.prems(2) run pop_reference [OF Cons.prems(1)] by (cases "snd (pop q)") (auto simp: split_beta Let_def)
  qed
qed simp

text \<open>Nothing is refused while the queue has room for everything offered.\<close>

lemma accepts_all:
  "inv q \<Longrightarrow> length (contents q) + length as \<le> capacity \<Longrightarrow>
   run_queue push pop q (map Push as) = (q', acc, del) \<Longrightarrow> acc = as \<and> del = []"
proof (induction as arbitrary: q acc del)
  case (Cons a as)
  then have room: "length (contents q) < capacity" by simp
  note p = push_room [OF Cons.prems(1) room, of a]
  obtain r acc' d where run: "run_queue push pop (fst (push q a)) (map Push as) = (r, acc', d)"
    by (metis prod_cases3)
  with Cons.prems(3) p have "r = q'" "d = del" "acc = a # acc'"
    by (auto simp: split_beta Let_def)
  with Cons.IH [of "fst (push q a)" acc' del] p Cons.prems(2) run show ?case by simp
qed simp

end

section \<open>Ring buffers\<close>

definition ring_contents :: "'a list \<Rightarrow> nat \<Rightarrow> nat \<Rightarrow> 'a list" where
  "ring_contents buf head tail =
     map (\<lambda>i. buf ! ((tail + i) mod length buf)) [0..<(head + length buf - tail) mod length buf]"

lemma ring_distance:
  fixes h n t :: nat
  assumes "h < n" "t < n" shows "(h + n - t) mod n = (if t \<le> h then h - t else h + n - t)"
proof (cases "t \<le> h")
  case True
  then have "h + n - t = h - t + n" by simp
  then have "(h + n - t) mod n = (h - t) mod n" by (metis mod_add_self2)
  then show ?thesis using True assms by simp
next
  case False
  then show ?thesis using assms by simp
qed

lemma ring_next: "h < n \<Longrightarrow> (h + 1) mod n = (if Suc h = n then 0 else Suc h)" for h n :: nat
  by auto

lemma ring_full_iff:
  fixes h n t :: nat
  assumes "h < n" "t < n"
  shows "(h + 1) mod n = t \<longleftrightarrow> (h + n - t) mod n = n - 1"
  unfolding ring_distance [OF assms] ring_next [OF assms(1)] using assms by auto

lemma ring_push:
  assumes "h < length buf" "t < length buf" "(h + 1) mod length buf \<noteq> t"
  shows "ring_contents (buf[h := a]) ((h + 1) mod length buf) t = ring_contents buf h t @ [a]"
proof -
  let ?n = "length buf" and ?d = "(h + length buf - t) mod length buf"
  have d: "((h + 1) mod ?n + ?n - t) mod ?n = Suc ?d"
    using assms ring_distance [of "(h + 1) mod ?n" ?n t] ring_distance [OF assms(1,2)]
    unfolding ring_next [OF assms(1)] by (auto split: if_splits)
  have pos: "(t + ?d) mod ?n = h" using assms(1,2) by (auto simp: ring_distance split: if_splits)
  have "(t + i) mod ?n \<noteq> h" if "i < ?d" for i
    using that assms(1,2) unfolding ring_distance [OF assms(1,2)]
    by (cases "t + i < ?n") (auto simp: le_mod_geq split: if_splits)
  then have same: "buf[h := a] ! ((t + i) mod ?n) = buf ! ((t + i) mod ?n)" if "i < ?d" for i
    using that by (metis nth_list_update_neq)
  have "map (\<lambda>i. buf[h := a] ! ((t + i) mod ?n)) [0..<?d] = map (\<lambda>i. buf ! ((t + i) mod ?n)) [0..<?d]"
    by (rule map_cong) (simp_all add: same)
  then show ?thesis unfolding ring_contents_def length_list_update d
    using assms(1) pos by simp
qed

lemma ring_pop:
  assumes "h < length buf" "t < length buf" "t \<noteq> h"
  shows "ring_contents buf h t = buf ! t # ring_contents buf h ((t + 1) mod length buf)"
proof -
  let ?n = "length buf" and ?d = "(h + length buf - (t + 1) mod length buf) mod length buf"
  have d: "(h + ?n - t) mod ?n = Suc ?d"
    using assms ring_distance [of h ?n "(t + 1) mod ?n"] ring_distance [OF assms(1,2)]
    unfolding ring_next [OF assms(2)] by (auto split: if_splits)
  have "(t + Suc i) mod ?n = ((t + 1) mod ?n + i) mod ?n" for i
    by (simp add: mod_add_left_eq)
  then show ?thesis unfolding ring_contents_def d
    using assms(2) by (simp add: upt_conv_Cons map_Suc_upt [symmetric] comp_def del: upt_Suc)
qed

lemma ring_empty_iff:
  assumes "h < length buf" "t < length buf"
  shows "ring_contents buf h t = [] \<longleftrightarrow> t = h"
  using assms by (auto simp: ring_contents_def ring_distance split: if_splits)

lemma ring_length: "length (ring_contents buf h t) = (h + length buf - t) mod length buf"
  by (simp add: ring_contents_def)

lemma ring_length_less: "buf \<noteq> [] \<Longrightarrow> length (ring_contents buf h t) < length buf"
  by (simp add: ring_length)

end
