(* ===== verification/Ps2.thy ===== *)
theory Ps2
  imports Ring Interrupts Pic Contracts
begin

text \<open>
  The keyboard driver (\<open>src/kern/drv/ps2/mod.rs\<close>): the controller handshake with its bounded
  polls, the key buffer, the scancode translation with its modifier state, the interrupt handler
  and the initialisation. The character constants of the tables are written as numbers.
\<close>

section \<open>Constants\<close>

definition DATA_PORT :: u16 where "DATA_PORT = 0x60"
definition STATUS_PORT :: u16 where "STATUS_PORT = 0x64"
definition CMD_PORT :: u16 where "CMD_PORT = 0x64"
definition STATUS_OUTPUT_FULL :: u8 where "STATUS_OUTPUT_FULL = 1"
definition STATUS_INPUT_FULL :: u8 where "STATUS_INPUT_FULL = 2"
definition KB_IRQ :: u8 where "KB_IRQ = 1"
definition KB_VECTOR :: nat where "KB_VECTOR = 33"
definition KB_BUF_SIZE :: nat where "KB_BUF_SIZE = 256"

definition SCANCODE_TABLE :: "u8 list" where
  "SCANCODE_TABLE =
    [0, 27, 49, 50, 51, 52, 53, 54, 55, 56, 57, 48, 45, 61, 8, 9,
     113, 119, 101, 114, 116, 121, 117, 105, 111, 112, 91, 93, 10, 0, 97, 115,
     100, 102, 103, 104, 106, 107, 108, 59, 39, 96, 0, 92, 122, 120, 99, 118,
     98, 110, 109, 44, 46, 47, 0, 42, 0, 32, 0, 0, 0, 0, 0, 0,
     0, 0, 0, 0, 0, 0, 0, 0, 0, 0, 45, 0, 0, 0, 43, 0,
     0, 0, 0, 0, 0, 0, 0, 0, 0, 0, 0, 0, 0, 0, 0, 0,
     0, 0, 0, 0, 0, 0, 0, 0, 0, 0, 0, 0, 0, 0, 0, 0,
     0, 0, 0, 0, 0, 0, 0, 0, 0, 0, 0, 0, 0, 0, 0, 0]"

definition SCANCODE_TABLE_SHIFT :: "u8 list" where
  "SCANCODE_TABLE_SHIFT =
    [0, 27, 33, 64, 35, 36, 37, 94, 38, 42, 40, 41, 95, 43, 8, 9,
     81, 87, 69, 82, 84, 89, 85, 73, 79, 80, 123, 125, 10, 0, 65, 83,
     68, 70, 71, 72, 74, 75, 76, 58, 34, 126, 0, 124, 90, 88, 67, 86,
     66, 78, 77, 60, 62, 63, 0, 42, 0, 32, 0, 0, 0, 0, 0, 0,
     0, 0, 0, 0, 0, 0, 0, 0, 0, 0, 45, 0, 0, 0, 43, 0,
     0, 0, 0, 0, 0, 0, 0, 0, 0, 0, 0, 0, 0, 0, 0, 0,
     0, 0, 0, 0, 0, 0, 0, 0, 0, 0, 0, 0, 0, 0, 0, 0,
     0, 0, 0, 0, 0, 0, 0, 0, 0, 0, 0, 0, 0, 0, 0, 0]"

definition SC_LSHIFT :: u8 where "SC_LSHIFT = 0x2A"
definition SC_RSHIFT :: u8 where "SC_RSHIFT = 0x36"
definition SC_LCTRL :: u8 where "SC_LCTRL = 0x1D"
definition SC_LALT :: u8 where "SC_LALT = 0x38"
definition SC_CAPSLOCK :: u8 where "SC_CAPSLOCK = 0x3A"

section \<open>The controller\<close>

fun wait_input :: "nat \<Rightarrow> io \<Rightarrow> io" where
  "wait_input 0 s = s"
| "wait_input (Suc n) s =
     (let (v, s) = inb STATUS_PORT s in if v AND STATUS_INPUT_FULL = 0 then s else wait_input n s)"

fun wait_output :: "nat \<Rightarrow> io \<Rightarrow> bool \<times> io" where
  "wait_output 0 s = (False, s)"
| "wait_output (Suc n) s =
     (let (v, s) = inb STATUS_PORT s
      in if v AND STATUS_OUTPUT_FULL \<noteq> 0 then (True, s) else wait_output n s)"

definition POLLS :: nat where "POLLS = 100000"

definition send_command :: "u8 \<Rightarrow> io \<Rightarrow> io" where
  "send_command cmd s = outb CMD_PORT cmd (wait_input POLLS s)"

definition send_data :: "u8 \<Rightarrow> io \<Rightarrow> io" where
  "send_data d s = outb DATA_PORT d (wait_input POLLS s)"

definition read_data :: "io \<Rightarrow> u8 \<times> io" where
  "read_data s = (let (ok, s) = wait_output POLLS s in if ok then inb DATA_PORT s else (0, s))"

fun flush_loop :: "nat \<Rightarrow> io \<Rightarrow> io" where
  "flush_loop 0 s = s"
| "flush_loop (Suc n) s =
     (let (v, s) = inb STATUS_PORT s
      in if v AND STATUS_OUTPUT_FULL = 0 then s else flush_loop n (snd (inb DATA_PORT s)))"

definition flush_output :: "io \<Rightarrow> io" where
  "flush_output s = flush_loop 32 s"

section \<open>The key buffer\<close>

record kbd =
  kb_buf :: "u8 list"
  kb_head :: usize
  kb_tail :: usize
  kb_shift :: bool
  kb_ctrl :: bool
  kb_alt :: bool
  kb_caps :: bool

definition kbd_boot :: kbd where
  "kbd_boot = \<lparr>kb_buf = replicate KB_BUF_SIZE 0, kb_head = 0, kb_tail = 0,
     kb_shift = False, kb_ctrl = False, kb_alt = False, kb_caps = False\<rparr>"

definition buf_push :: "u8 \<Rightarrow> kbd \<Rightarrow> kbd" where
  "buf_push ch k =
     (let head = kb_head k; nxt = (head + 1) AND (KB_BUF_SIZE - 1)
      in if nxt \<noteq> kb_tail k then k\<lparr>kb_buf := (kb_buf k)[head := ch], kb_head := nxt\<rparr> else k)"

definition read_key :: "kbd \<Rightarrow> kbd \<times> u8 option" where
  "read_key k =
     (if kb_tail k = kb_head k then (k, None)
      else (k\<lparr>kb_tail := (kb_tail k + 1) AND (KB_BUF_SIZE - 1)\<rparr>, Some (kb_buf k ! kb_tail k)))"

definition has_key :: "kbd \<Rightarrow> bool" where
  "has_key k = (kb_tail k \<noteq> kb_head k)"

section \<open>Scancodes\<close>

text \<open>The character choice of \<open>process_scancode\<close> for a pressed key.\<close>

definition key_char :: "bool \<Rightarrow> bool \<Rightarrow> u8 \<Rightarrow> u8" where
  "key_char caps shift code =
     (let base = SCANCODE_TABLE ! unat code
      in if caps \<and> \<not> shift then (if base \<ge> 97 \<and> base \<le> 122 then base - 32 else base)
         else if caps \<and> shift then
           (if base \<ge> 97 \<and> base \<le> 122 then base else SCANCODE_TABLE_SHIFT ! unat code)
         else if shift then SCANCODE_TABLE_SHIFT ! unat code
         else base)"

definition process_scancode :: "u8 \<Rightarrow> kbd \<Rightarrow> kbd" where
  "process_scancode scancode k =
     (if scancode = 0xE0 then k
      else let released = (scancode AND 0x80 \<noteq> 0); code = scancode AND 0x7F
           in if code = SC_LSHIFT \<or> code = SC_RSHIFT then k\<lparr>kb_shift := \<not> released\<rparr>
              else if code = SC_LCTRL then k\<lparr>kb_ctrl := \<not> released\<rparr>
              else if code = SC_LALT then k\<lparr>kb_alt := \<not> released\<rparr>
              else if code = SC_CAPSLOCK \<and> \<not> released then k\<lparr>kb_caps := \<not> kb_caps k\<rparr>
              else if released then k
              else let ch = key_char (kb_caps k) (kb_shift k) code
                   in if ch \<noteq> 0 then buf_push ch k else k)"

definition ps2_poll :: "kbd \<Rightarrow> io \<Rightarrow> kbd \<times> io" where
  "ps2_poll k s =
     (let (status, s) = inb STATUS_PORT s
      in if status AND STATUS_OUTPUT_FULL \<noteq> 0
         then (let (scancode, s) = inb DATA_PORT s in (process_scancode scancode k, s))
         else (k, s))"

definition keyboard_irq_handler :: "kbd \<Rightarrow> io \<Rightarrow> kbd \<times> io" where
  "keyboard_irq_handler k s =
     (let (scancode, s) = inb DATA_PORT s in (process_scancode scancode k, eoi KB_IRQ s))"

section \<open>Initialisation\<close>

definition reset_report :: "u8 \<Rightarrow> io \<Rightarrow> io option" where
  "reset_report ack s =
     (if ack = 0xFA
      then (let (st, s) = read_data s
            in if st = 0xAA then puts ''ps2: keyboard reset OK\<newline>'' s
               else do { s \<leftarrow> puts ''ps2: keyboard self-test returned 0x'' s;
                         s \<leftarrow> hex (ucast st) s;
                         puts ''\<newline>'' s })
      else do { s \<leftarrow> puts ''ps2: keyboard reset no ACK (0x'' s;
                s \<leftarrow> hex (ucast ack) s;
                puts '')\<newline>'' s })"

text \<open>
  \<open>ps2_self_test\<close> is the part of \<open>init\<close> up to the controller self-test; it gives the result byte
  and the configuration byte written back.
\<close>

definition ps2_self_test :: "io \<Rightarrow> (u8 \<times> u8 \<times> io) option" where
  "ps2_self_test s =
     do { s \<leftarrow> puts ''ps2: init\<newline>'' s;
          let s = flush_output (send_command 0xA7 (send_command 0xAD s));
          let (config, s) = read_data (send_command 0x20 s);
          let config = (config OR 1) AND NOT 0x10;
          let s = send_data config (send_command 0x60 s);
          let (test_result, s) = read_data (send_command 0xAA s);
          Some (test_result, config, s) }"

definition ps2_init :: "idt \<Rightarrow> io \<Rightarrow> (idt \<times> io) option" where
  "ps2_init d s =
     do { (test_result, config, s) \<leftarrow> ps2_self_test s;
          if test_result \<noteq> 0x55
          then do { s \<leftarrow> puts ''ps2: controller self-test FAILED (0x'' s;
                    s \<leftarrow> hex (ucast test_result) s;
                    s \<leftarrow> puts '')\<newline>'' s;
                    Some (d, s) }
          else do { s \<leftarrow> puts ''ps2: self-test OK\<newline>'' s;
                    let s = send_data config (send_command 0x60 s);
                    let s = send_data 0xFF (send_command 0xAE s);
                    let (ack, s) = read_data s;
                    s \<leftarrow> reset_report ack s;
                    let s = flush_output s;
                    let d = register_ctx_handler KB_VECTOR Keyboard_irq_handler d;
                    let s = clear_mask KB_IRQ s;
                    s \<leftarrow> puts ''ps2: keyboard IRQ1 enabled\<newline>'' s;
                    Some (d, s) } }"

section \<open>The key buffer as a bounded queue\<close>

definition kb_keys :: "kbd \<Rightarrow> u8 list" where
  "kb_keys k = ring_contents (kb_buf k) (kb_head k) (kb_tail k)"

definition kbd_inv :: "kbd \<Rightarrow> bool" where
  "kbd_inv k \<longleftrightarrow> length (kb_buf k) = KB_BUF_SIZE \<and> kb_head k < KB_BUF_SIZE \<and> kb_tail k < KB_BUF_SIZE"

lemma kb_mask: "n AND (KB_BUF_SIZE - 1) = n mod KB_BUF_SIZE"
proof -
  have "KB_BUF_SIZE - 1 = mask 8" "KB_BUF_SIZE = 2 ^ 8" by (simp_all add: KB_BUF_SIZE_def mask_eq_exp_minus_1)
  then show ?thesis using take_bit_eq_mask [of 8 n] take_bit_eq_mod [of 8 n] by simp
qed

lemma kbd_inv_boot [simp]: "kbd_inv kbd_boot" "kb_keys kbd_boot = []"
  by (simp_all add: kbd_inv_def kbd_boot_def kb_keys_def ring_contents_def KB_BUF_SIZE_def)

text \<open>\<open>buf_push\<close> drops the character when there is no room; the flag says whether it did not.\<close>

definition try_push :: "kbd \<Rightarrow> u8 \<Rightarrow> kbd \<times> bool" where
  "try_push k ch = (buf_push ch k, length (kb_keys k) < 255)"

lemma kb_full_iff:
  assumes "kbd_inv k"
  shows "(kb_head k + 1) mod KB_BUF_SIZE = kb_tail k \<longleftrightarrow> length (kb_keys k) = 255"
    "length (kb_keys k) \<le> 255"
proof -
  show "(kb_head k + 1) mod KB_BUF_SIZE = kb_tail k \<longleftrightarrow> length (kb_keys k) = 255"
    using ring_full_iff [of "kb_head k" KB_BUF_SIZE "kb_tail k"] assms
    by (simp add: kbd_inv_def kb_keys_def ring_length) (simp add: KB_BUF_SIZE_def)
  show "length (kb_keys k) \<le> 255"
    using ring_length_less [of "kb_buf k" "kb_head k" "kb_tail k"] assms
    by (cases "kb_buf k = []") (auto simp: kbd_inv_def kb_keys_def KB_BUF_SIZE_def)
qed

lemma kb_empty_iff: "kbd_inv k \<Longrightarrow> kb_keys k = [] \<longleftrightarrow> kb_tail k = kb_head k"
  using ring_empty_iff [of "kb_head k" "kb_buf k" "kb_tail k"] by (simp add: kbd_inv_def kb_keys_def)

interpretation keyq: bounded_queue try_push read_key kb_keys kbd_inv 255
proof unfold_locales
  fix k ch cs
  assume inv: "kbd_inv k"
  then have len: "length (kb_buf k) = KB_BUF_SIZE" and idx: "kb_head k < KB_BUF_SIZE" "kb_tail k < KB_BUF_SIZE"
    by (simp_all add: kbd_inv_def)
  have pos: "KB_BUF_SIZE > 0" by (simp add: KB_BUF_SIZE_def)
  show "length (kb_keys k) \<le> 255" by (rule kb_full_iff(2) [OF inv])
  show "try_push k ch = (k, False)" if "length (kb_keys k) = 255"
    using that kb_full_iff(1) [OF inv] unfolding try_push_def buf_push_def kb_mask by simp
  show "snd (try_push k ch) \<and> kbd_inv (fst (try_push k ch)) \<and>
      kb_keys (fst (try_push k ch)) = kb_keys k @ [ch]" if "length (kb_keys k) < 255"
  proof -
    have "(kb_head k + 1) mod length (kb_buf k) \<noteq> kb_tail k"
      using that kb_full_iff(1) [OF inv] len by simp
    from ring_push [OF _ _ this] this show ?thesis
      using that len idx pos
      unfolding try_push_def buf_push_def kb_mask by (simp add: kbd_inv_def kb_keys_def Let_def)
  qed
  show "read_key k = (k, None)" if "kb_keys k = []"
    using that kb_empty_iff [OF inv] by (simp add: read_key_def)
  show "snd (read_key k) = Some ch \<and> kbd_inv (fst (read_key k)) \<and> kb_keys (fst (read_key k)) = cs"
    if "kb_keys k = ch # cs"
  proof -
    have ne: "kb_tail k \<noteq> kb_head k" using that kb_empty_iff [OF inv] by auto
    from ring_pop [of "kb_head k" "kb_buf k" "kb_tail k"] this show ?thesis
      using that len idx pos unfolding read_key_def kb_mask by (auto simp: kbd_inv_def kb_keys_def)
  qed
qed

lemma kbd_inv_push [simp]: "kbd_inv k \<Longrightarrow> kbd_inv (buf_push ch k)"
  using keyq.push_cases(1) [of k ch] by (simp add: try_push_def)

lemma kb_keys_push: "kbd_inv k \<Longrightarrow>
    kb_keys (buf_push ch k) = kb_keys k @ (if length (kb_keys k) < 255 then [ch] else [])"
  using keyq.push_cases(2,3) [of k ch] by (auto simp: try_push_def)

section \<open>Keyboard events\<close>

datatype kbd_event = Scancode u8 | ReadKey

fun kbd_step :: "kbd \<Rightarrow> kbd_event \<Rightarrow> kbd option" where
  "kbd_step k (Scancode c) = Some (process_scancode c k)"
| "kbd_step k ReadKey = Some (fst (read_key k))"

lemma process_scancode_inv: "kbd_inv k \<Longrightarrow> kbd_inv (process_scancode c k)"
  by (simp add: process_scancode_def Let_def) (simp add: kbd_inv_def)

interpretation kbd_events: event_system kbd_step kbd_inv
proof unfold_locales
  fix k e
  assume inv: "kbd_inv k"
  show "\<exists>k'. kbd_step k e = Some k' \<and> kbd_inv k'"
    using process_scancode_inv [OF inv] keyq.pop_cases(1) [OF inv] by (cases e) simp_all
qed

section \<open>The tables\<close>

lemma table_lengths [simp]: "length SCANCODE_TABLE = 128" "length SCANCODE_TABLE_SHIFT = 128"
  by (simp_all add: SCANCODE_TABLE_def SCANCODE_TABLE_SHIFT_def)

definition lower :: "u8 \<Rightarrow> bool" where
  "lower c \<longleftrightarrow> 97 \<le> c \<and> c \<le> 122"

text \<open>A letter's entry in the shift table is its upper-case form, 32 below.\<close>

lemma table_letters:
  "list_all2 (\<lambda>b s. lower b \<longrightarrow> s = b - 32) SCANCODE_TABLE SCANCODE_TABLE_SHIFT"
  by (simp add: SCANCODE_TABLE_def SCANCODE_TABLE_SHIFT_def lower_def)

lemma table_zeros:
  "list_all2 (\<lambda>b s. b = 0 \<longleftrightarrow> s = 0) SCANCODE_TABLE SCANCODE_TABLE_SHIFT"
  by (simp add: SCANCODE_TABLE_def SCANCODE_TABLE_SHIFT_def)

definition typed_char :: "bool \<Rightarrow> bool \<Rightarrow> u8 \<Rightarrow> u8" where
  "typed_char caps shift code =
     (let b = SCANCODE_TABLE ! unat code
      in if lower b then (if caps \<noteq> shift then b - 32 else b)
         else if shift then SCANCODE_TABLE_SHIFT ! unat code else b)"

lemma key_char_typed:
  assumes "unat code < 128"
  shows "key_char caps shift code = typed_char caps shift code"
    "typed_char caps shift code = 0 \<longleftrightarrow> SCANCODE_TABLE ! unat code = 0"
proof -
  let ?b = "SCANCODE_TABLE ! unat code" and ?s = "SCANCODE_TABLE_SHIFT ! unat code"
  have letters: "lower ?b \<Longrightarrow> ?s = ?b - 32"
    using list_all2_nthD [OF table_letters, of "unat code"] assms by simp
  show "key_char caps shift code = typed_char caps shift code"
    using letters by (auto simp: key_char_def typed_char_def lower_def Let_def)
  have "?b - 32 \<noteq> 0" if "lower ?b" using that by (auto simp: lower_def)
  moreover have "?b \<noteq> 0" if "lower ?b" using that by (auto simp: lower_def)
  ultimately show "typed_char caps shift code = 0 \<longleftrightarrow> ?b = 0"
    using list_all2_nthD [OF table_zeros, of "unat code"] assms
    by (auto simp: typed_char_def Let_def)
qed

lemma scancode_fields:
  "unat ((c :: u8) AND 0x7F) = unat c mod 128" "c AND 0x80 \<noteq> 0 \<longleftrightarrow> 128 \<le> unat c"
proof -
  show "unat (c AND 0x7F) = unat c mod 128"
    using unat_and_low [of 7 "0x7F" c] by (simp add: mask_eq_exp_minus_1)
  have "c AND 0x80 \<noteq> 0 \<longleftrightarrow> bit c 7" using and_exp_eq_0_iff_not_bit [of c 7] by simp
  also have "\<dots> \<longleftrightarrow> bit (unat c) 7" by (simp add: bit_unsigned_iff)
  also have "\<dots> \<longleftrightarrow> odd (unat c div 128)" by (simp add: bit_iff_odd)
  also have "\<dots> \<longleftrightarrow> 128 \<le> unat c"
  proof -
    have "unat c < 256" using unsigned_less [where 'a = nat, of c] by simp
    then have "unat c div 128 = (if 128 \<le> unat c then 1 else 0)" by (simp add: div_nat_eqI)
    then show ?thesis by simp
  qed
  finally show "c AND 0x80 \<noteq> 0 \<longleftrightarrow> 128 \<le> unat c" .
qed

lemma code_eq:
  assumes "unat x < 128"
  shows "(c AND 0x7F :: u8) = x \<longleftrightarrow> unat c mod 128 = unat x"
  using scancode_fields(1) [of c] by (metis unsigned_word_eqI)

definition modifier :: "nat \<Rightarrow> bool" where
  "modifier n \<longleftrightarrow> n \<in> {0x2A, 0x36, 0x1D, 0x38, 0x3A}"

lemmas scancode_consts = SC_LSHIFT_def SC_RSHIFT_def SC_LCTRL_def SC_LALT_def SC_CAPSLOCK_def

lemma process_scancode_eq:
  assumes "c \<noteq> 0xE0"
  shows "process_scancode c k =
    (let n = unat c mod 128; pressed = (unat c < 128)
     in if n = 0x2A \<or> n = 0x36 then k\<lparr>kb_shift := pressed\<rparr>
        else if n = 0x1D then k\<lparr>kb_ctrl := pressed\<rparr>
        else if n = 0x38 then k\<lparr>kb_alt := pressed\<rparr>
        else if pressed then
          (if n = 0x3A then k\<lparr>kb_caps := \<not> kb_caps k\<rparr>
           else if typed_char (kb_caps k) (kb_shift k) c \<noteq> 0
                then buf_push (typed_char (kb_caps k) (kb_shift k) c) k else k)
        else k)"
proof -
  have ch: "key_char caps shift (c AND 0x7F) = typed_char caps shift c" if "unat c < 128" for caps shift
  proof -
    have "c AND 0x7F = c" using that scancode_fields(1) [of c] by (simp add: unsigned_word_eqI)
    then show ?thesis using key_char_typed(1) [OF that] by simp
  qed
  then show ?thesis
    using assms scancode_fields(2) [of c]
    by (auto simp: process_scancode_def Let_def scancode_consts code_eq)
qed

section \<open>Initialisation returns\<close>

lemma io_env_wait [simp]:
  "io_env (wait_input n s) = io_env s" "io_env (snd (wait_output n s)) = io_env s"
  "io_env (flush_loop n s) = io_env s"
  by (induction n arbitrary: s) (simp_all add: split_beta Let_def)

lemma io_env_ps2 [simp]:
  "io_env (send_command c s) = io_env s" "io_env (send_data c s) = io_env s"
  "io_env (snd (read_data s)) = io_env s" "io_env (flush_output s) = io_env s"
  by (simp_all add: send_command_def send_data_def read_data_def flush_output_def split_beta Let_def)

lemma io_env_pic [simp]: "io_env (clear_mask i s) = io_env s" "io_env (eoi i s) = io_env s"
  by (simp_all add: clear_mask_def eoi_def split_beta Let_def)

lemma says:
  assumes "tx_live e" "io_env t = e"
  shows "\<exists>s'. puts a t = Some s' \<and> io_env s' = e"
    "\<exists>s'. do { u \<leftarrow> puts a t; u \<leftarrow> hex v u; puts b u } = Some s' \<and> io_env s' = e"
  using puts_sends [of t a] prints_message(1) [of t a v b] assms
  by (auto simp: prints_def sent_def)

lemma reset_report_returns:
  assumes "tx_live (io_env s)"
  shows "\<exists>s'. reset_report ack s = Some s' \<and> io_env s' = io_env s"
  using says [OF assms, of "snd (read_data s)"] says [OF assms, of s]
  by (simp add: reset_report_def split_beta Let_def)

lemma ps2_self_test_returns:
  assumes "tx_live (io_env s)"
  shows "\<exists>r cfg s'. ps2_self_test s = Some (r, cfg, s') \<and> io_env s' = io_env s"
  using puts_sends [OF assms, of "''ps2: init\<newline>''"]
  by (auto simp: ps2_self_test_def sent_def split_beta Let_def)

lemma ps2_init_returns:
  assumes "tx_live (io_env s)"
  shows "\<exists>r cfg s1 s'. ps2_self_test s = Some (r, cfg, s1) \<and>
    ps2_init d s = Some (if r = 0x55 then register_ctx_handler KB_VECTOR Keyboard_irq_handler d else d, s') \<and>
    io_env s' = io_env s"
proof -
  obtain r cfg s1 where st: "ps2_self_test s = Some (r, cfg, s1)" "io_env s1 = io_env s"
    using ps2_self_test_returns [OF assms] by blast
  then have live: "tx_live (io_env s1)" using assms by simp
  note say = says(1) [OF assms]
  show ?thesis
  proof (cases "r = 0x55")
    case False
    have "\<exists>s'. do { u \<leftarrow> puts a s1; u \<leftarrow> hex v u; puts b u } = Some s' \<and> io_env s' = io_env s" for a v b
      using says(2) [OF assms st(2)] by simp
    then show ?thesis using st False by (fastforce simp: ps2_init_def bind_eq_Some_conv)
  next
    case True
    obtain s2 where s2: "puts ''ps2: self-test OK\<newline>'' s1 = Some s2" "io_env s2 = io_env s"
      using say [OF st(2)] by blast
    let ?a = "read_data (send_data 0xFF (send_command 0xAE (send_data cfg (send_command 0x60 s2))))"
    obtain s3 where s3: "reset_report (fst ?a) (snd ?a) = Some s3" "io_env s3 = io_env s"
      using reset_report_returns [of "snd ?a" "fst ?a"] s2(2) assms by auto
    let ?s = "clear_mask KB_IRQ (flush_output s3)"
    obtain s4 where "puts ''ps2: keyboard IRQ1 enabled\<newline>'' ?s = Some s4" "io_env s4 = io_env s"
      using say [of ?s] s3(2) by auto
    then show ?thesis using st s2 s3 True by (simp add: ps2_init_def split_beta Let_def)
  qed
qed

section \<open>Properties\<close>

text \<open>
  C12: scancode translation. For every scancode byte, a pressed non-modifier key appends to the key
  buffer (when it has room) the character on the key: letters upper-case exactly when one of shift
  and caps lock is on, other keys from the shifted table exactly when shift is on; every other
  byte leaves the buffer alone. Shift, control and alt follow press and release, caps lock toggles
  on press, and the prefix \<open>0xE0\<close> is ignored.
\<close>

theorem scancode_translation:
  assumes "kbd_inv k"
  shows "let k' = process_scancode c k; n = unat c in
    kb_keys k' = kb_keys k @
      (if n < 128 \<and> \<not> modifier n \<and> SCANCODE_TABLE ! n \<noteq> 0 \<and> length (kb_keys k) < 255
       then [typed_char (kb_caps k) (kb_shift k) c] else []) \<and>
    kb_shift k' = (if n \<in> {0x2A, 0x36} then True else if n \<in> {0xAA, 0xB6} then False else kb_shift k) \<and>
    kb_ctrl k' = (if n = 0x1D then True else if n = 0x9D then False else kb_ctrl k) \<and>
    kb_alt k' = (if n = 0x38 then True else if n = 0xB8 then False else kb_alt k) \<and>
    kb_caps k' = (if n = 0x3A then \<not> kb_caps k else kb_caps k) \<and> kbd_inv k'"
proof (cases "c = 0xE0")
  case True
  then show ?thesis using assms by (simp add: process_scancode_def)
next
  case False
  have n: "unat c < 256" using unsigned_less [where 'a = nat, of c] by simp
  have rel: "unat c mod 128 = m \<longleftrightarrow> unat c = m \<or> unat c = m + 128" if "m < 128" for m
    using n that by (auto simp: mod_if le_mod_geq)
  have keep: "kb_keys (k\<lparr>kb_shift := x\<rparr>) = kb_keys k" "kb_keys (k\<lparr>kb_ctrl := x\<rparr>) = kb_keys k"
    "kb_keys (k\<lparr>kb_alt := x\<rparr>) = kb_keys k" "kb_keys (k\<lparr>kb_caps := x\<rparr>) = kb_keys k" for x
    by (simp_all add: kb_keys_def)
  have frame: "kb_shift (buf_push ch k) = kb_shift k" "kb_ctrl (buf_push ch k) = kb_ctrl k"
    "kb_alt (buf_push ch k) = kb_alt k" "kb_caps (buf_push ch k) = kb_caps k" for ch
    by (simp_all add: buf_push_def Let_def)
  show ?thesis
    using kb_keys_push [OF assms] key_char_typed(2) [of c] process_scancode_inv [OF assms, of c]
    unfolding process_scancode_eq [OF False] Let_def
    by (auto simp: rel keep frame modifier_def)
qed

theorem scancode_translation_witness:
  "kb_keys (process_scancode 0x1E (process_scancode 0x2A kbd_boot)) = [65] \<and>
   kb_keys (process_scancode 0x1E (process_scancode 0xAA kbd_boot)) = [97]"
proof -
  have "process_scancode 0x2A kbd_boot = kbd_boot\<lparr>kb_shift := True\<rparr>"
    "process_scancode 0xAA kbd_boot = kbd_boot"
    by (simp_all add: process_scancode_def scancode_consts kbd_boot_def)
  moreover have "kbd_inv (kbd_boot\<lparr>kb_shift := True\<rparr>)" "kb_keys (kbd_boot\<lparr>kb_shift := True\<rparr>) = []"
    by (simp_all add: kbd_inv_def kbd_boot_def kb_keys_def ring_contents_def KB_BUF_SIZE_def)
  moreover have "typed_char False True 0x1E = 65" "typed_char False False 0x1E = 97"
    by (simp_all add: typed_char_def lower_def SCANCODE_TABLE_def SCANCODE_TABLE_SHIFT_def Let_def)
  ultimately show ?thesis
    using scancode_translation [of "kbd_boot\<lparr>kb_shift := True\<rparr>" "0x1E"]
      scancode_translation [of kbd_boot "0x1E"]
    by (simp add: Let_def modifier_def SCANCODE_TABLE_def) (simp add: kbd_boot_def)
qed

text \<open>
  No key is lost, duplicated or reordered while the buffer has room. Over any sequence of
  pushes and reads the characters read are, in order, the ones buffered before followed by the
  ones accepted, a push is accepted exactly below 255 buffered characters, and \<open>has_key\<close> says
  whether \<open>read_key\<close> would return one.
\<close>

theorem key_buffer_is_fifo:
  assumes "kbd_inv k" and "run_queue try_push read_key k ops = (k', accepted, delivered)"
  shows "kb_keys k @ accepted = delivered @ kb_keys k' \<and> length (kb_keys k') \<le> 255 \<and>
    (has_key k' \<longleftrightarrow> snd (read_key k') \<noteq> None) \<and>
    (length (kb_keys k') = 255 \<longrightarrow> buf_push ch k' = k')"
  using keyq.fifo [OF assms] keyq.bounded [of k'] keyq.push_full [of k' ch]
  by (auto simp: has_key_def read_key_def try_push_def)

theorem key_buffer_is_fifo_witness:
  "\<exists>k'. run_queue try_push read_key kbd_boot [Push 97, Push 98, Pop, Pop] = (k', [97, 98], [97, 98]) \<and>
    kb_keys k' = []"
proof -
  obtain k' acc del where run:
    "run_queue try_push read_key kbd_boot [Push 97, Push 98, Pop, Pop] = (k', acc, del)"
    by (metis prod_cases3)
  moreover have "acc = [97, 98] \<and> del = [97, 98]"
  proof -
    have k1: "kbd_inv (buf_push 97 kbd_boot)" "kb_keys (buf_push 97 kbd_boot) = [97]"
      using kb_keys_push [of kbd_boot 97] by simp_all
    let ?k = "buf_push 98 (buf_push 97 kbd_boot)"
    have k2: "kbd_inv ?k" "kb_keys ?k = [97, 98]" using k1 kb_keys_push [OF k1(1), of 98] by simp_all
    note p1 = keyq.pop_some [OF k2]
    note p2 = keyq.pop_some [of "fst (read_key ?k)" 98 "[]"]
    show ?thesis using run p1 p2 k1 by (auto simp: try_push_def split_beta Let_def)
  qed
  ultimately show ?thesis using key_buffer_is_fifo [OF _ run, of 0] by simp
qed

end
