(* ===== verification/Kernel.thy ===== *)
theory Kernel
  imports Sched Ps2
begin

text \<open>
  Where the interrupt-driven components meet: \<open>syscall_dispatch\<close> of \<open>src/kern/kxvm/syscall.rs\<close>,
  \<open>interrupt_dispatch\<close> of \<open>src/kern/arch/x86_64/idt.rs\<close> over the whole interrupt-driven state, and
  the boot sequence's registrations. The bytes a system call reads are those of \<open>kn_ram\<close>;
  \<open>HLT\<close> and \<open>STACK\<close> stand for the addresses of \<open>hlt_trampoline\<close> and \<open>RETURN_STACK\<close>, given by the
  linker.
\<close>

section \<open>System calls\<close>

definition SYS_EXIT :: u64 where "SYS_EXIT = 0"
definition SYS_SERIAL_WRITE :: u64 where "SYS_SERIAL_WRITE = 1"

definition ram_bytes :: "(u64 \<Rightarrow> u8) \<Rightarrow> u64 \<Rightarrow> nat \<Rightarrow> u8 list" where
  "ram_bytes ram ptr len = map (\<lambda>i. ram (ptr + of_nat i)) [0..<len]"

definition syscall_dispatch ::
  "u64 \<Rightarrow> u64 \<Rightarrow> (u64 \<Rightarrow> u8) \<Rightarrow> isr_context \<Rightarrow> io \<Rightarrow> (isr_context \<times> io) option" where
  "syscall_dispatch HLT STACK ram ctx io =
     (let nr = cx_rax ctx
      in if nr = SYS_EXIT
         then do { io \<leftarrow> puts ''syscall: exit('' io;
                   io \<leftarrow> dec (cx_rdi ctx) io;
                   io \<leftarrow> puts '')\<newline>'' io;
                   Some (ctx\<lparr>cx_cs := 0x08, cx_ss := 0x10, cx_rip := HLT, cx_rflags := 0x202,
                             cx_rsp := STACK + 0x2000\<rparr>, io) }
         else if nr = SYS_SERIAL_WRITE
         then (let ptr = cx_rdi ctx; len = unat (cx_rsi ctx)
               in do { io \<leftarrow> (if ptr \<noteq> 0 \<and> len < 4096 then put_bytes (ram_bytes ram ptr len) io else Some io);
                       Some (ctx\<lparr>cx_rax := 0\<rparr>, io) })
         else do { io \<leftarrow> puts ''syscall: unknown nr='' io;
                   io \<leftarrow> dec nr io;
                   io \<leftarrow> puts ''\<newline>'' io;
                   Some (ctx\<lparr>cx_rax := - 1\<rparr>, io) })"

text \<open>Where an exiting task continues: the message, before the processor is halted for good.\<close>

definition hlt_trampoline :: "io \<Rightarrow> io option" where
  "hlt_trampoline io = puts ''ring3 task exited, back in kernel\<newline>'' io"

definition syscall_init :: "idt \<Rightarrow> io \<Rightarrow> (idt \<times> io) option" where
  "syscall_init d io =
     (let d = set_gate_dpl 0x80 3 (register_ctx_handler 0x80 Syscall_dispatch d)
      in do { io \<leftarrow> puts ''syscall: int 0x80 registered (DPL=3)\<newline>'' io; Some (d, io) })"

section \<open>Interrupt dispatch\<close>

record kernel = system +
  kn_idt :: idt
  kn_kbd :: kbd
  kn_ram :: "u64 \<Rightarrow> u8"

text \<open>\<open>plain\<close> runs the code at the address of a plain handler; the kernel registers none.\<close>

definition run_ctx_handler :: "u64 \<Rightarrow> u64 \<Rightarrow> ctx_handler \<Rightarrow> isr_context \<Rightarrow> kernel \<Rightarrow> (isr_context \<times> kernel) option" where
  "run_ctx_handler HLT STACK h ctx k =
     (case h of
        Timer_tick \<Rightarrow>
          do { (ctx, s, t, io) \<leftarrow> timer_tick ctx (sy_sched k) (sy_tss k) (sy_io k);
               Some (ctx, k\<lparr>sy_sched := s, sy_tss := t, sy_io := io\<rparr>) }
      | Keyboard_irq_handler \<Rightarrow>
          (let (kb, io) = keyboard_irq_handler (kn_kbd k) (sy_io k)
           in Some (ctx, k\<lparr>kn_kbd := kb, sy_io := io\<rparr>))
      | Syscall_dispatch \<Rightarrow>
          do { (ctx, io) \<leftarrow> syscall_dispatch HLT STACK (kn_ram k) ctx (sy_io k);
               Some (ctx, k\<lparr>sy_io := io\<rparr>) })"

definition report_exception :: "nat \<Rightarrow> isr_context \<Rightarrow> io \<Rightarrow> io option" where
  "report_exception vec ctx io =
     do { io \<leftarrow> puts ''EXCEPTION #'' io;
          io \<leftarrow> dec (of_nat vec) io;
          io \<leftarrow> puts '' err=0x'' io;
          io \<leftarrow> hex (cx_error_code ctx) io;
          io \<leftarrow> puts '' rip=0x'' io;
          io \<leftarrow> hex (cx_rip ctx) io;
          puts ''\<newline>'' io }"

definition interrupt_dispatch ::
  "u64 \<Rightarrow> u64 \<Rightarrow> (u64 \<Rightarrow> u64 \<Rightarrow> u64 \<Rightarrow> kernel \<Rightarrow> kernel option) \<Rightarrow> isr_context \<Rightarrow> kernel \<Rightarrow>
     (isr_context \<times> kernel) option" where
  "interrupt_dispatch HLT STACK plain ctx k =
     (let vec = unat (cx_vector ctx); ctx_h = id_ctx_handlers (kn_idt k); plain_h = id_handlers (kn_idt k)
      in if vec < IDT_ENTRIES \<and> ctx_h ! vec \<noteq> None
         then run_ctx_handler HLT STACK (the (ctx_h ! vec)) ctx k
         else if vec < IDT_ENTRIES \<and> plain_h ! vec \<noteq> None
         then do { k \<leftarrow> plain (the (plain_h ! vec)) (cx_vector ctx) (cx_error_code ctx) k; Some (ctx, k) }
         else if vec < 32
         then do { io \<leftarrow> report_exception vec ctx (sy_io k); Some (ctx, k\<lparr>sy_io := io\<rparr>) }
         else Some (ctx, k))"

text \<open>The registrations of the boot sequence, in its order.\<close>

definition boot_interrupts :: "(nat \<Rightarrow> u64) \<Rightarrow> sched \<Rightarrow> idt \<Rightarrow> io \<Rightarrow> (sched \<times> idt \<times> io) option" where
  "boot_interrupts isr_addr s d io =
     do { let d = idt_init isr_addr d;
          let io = pic_disable (pic_remap 32 40 io);
          (d, io) \<leftarrow> syscall_init d io;
          (d, io) \<leftarrow> ps2_init d io;
          sched_init s d io }"

section \<open>Every handler returns\<close>

definition kernel_inv :: "kernel \<Rightarrow> bool" where
  "kernel_inv k \<longleftrightarrow> sched_inv (sy_sched k) \<and> mem_inv (sy_mem k) \<and> tx_live (io_env (sy_io k)) \<and>
     kbd_inv (kn_kbd k) \<and> (\<forall>i<IDT_ENTRIES. id_handlers (kn_idt k) ! i = None)"

lemma syscall_returns:
  assumes "tx_live (io_env io)"
  shows "\<exists>ctx' bs io'. syscall_dispatch HLT STACK ram ctx io = Some (ctx', io') \<and> sent io bs io'"
proof -
  have message: "\<exists>io'. do { u \<leftarrow> puts a io; u \<leftarrow> dec v u; puts b u } = Some io' \<and>
      sent io (str_bytes a @ number_text 10 v @ str_bytes b) io'" for a v b
    using prints_message(2) [OF assms] by (simp add: prints_def)
  show ?thesis
    using message [of "''syscall: exit(''" "cx_rdi ctx" "'')\<newline>''"]
      message [of "''syscall: unknown nr=''" "cx_rax ctx" "''\<newline>''"]
      put_bytes_sends [OF assms, of "ram_bytes ram (cx_rdi ctx) (unat (cx_rsi ctx))"]
    by (auto simp: syscall_dispatch_def Let_def bind_eq_Some_conv intro: sent_refl)
qed

lemma hlt_trampoline_prints:
  "tx_live (io_env io) \<Longrightarrow> prints io (str_bytes ''ring3 task exited, back in kernel\<newline>'') (hlt_trampoline io)"
  by (simp add: hlt_trampoline_def prints_puts)

lemma report_exception_prints:
  assumes "tx_live (io_env io)"
  shows "prints io (str_bytes ''EXCEPTION #'' @ number_text 10 (of_nat vec) @ str_bytes '' err=0x'' @
    number_text 16 (cx_error_code ctx) @ str_bytes '' rip=0x'' @ number_text 16 (cx_rip ctx) @
    str_bytes ''\<newline>'') (report_exception vec ctx io)"
  unfolding report_exception_def
  by (intro prints_bind prints_puts prints_number; use assms in \<open>simp add: sent_env\<close>)

lemma dispatch_returns:
  assumes inv: "kernel_inv k"
  shows "\<exists>ctx' k'. interrupt_dispatch HLT STACK plain ctx k = Some (ctx', k') \<and> kernel_inv k' \<and>
    kn_idt k' = kn_idt k"
proof -
  have live: "tx_live (io_env (sy_io k))" and sched: "sched_inv (sy_sched k)" and kbd: "kbd_inv (kn_kbd k)"
    and none: "\<forall>i<IDT_ENTRIES. id_handlers (kn_idt k) ! i = None"
    using inv by (simp_all add: kernel_inv_def)
  have handler: "\<exists>ctx' k'. run_ctx_handler HLT STACK h ctx k = Some (ctx', k') \<and> kernel_inv k' \<and> kn_idt k' = kn_idt k" for h
  proof (cases h)
    case Timer_tick
    obtain c s t where "timer_tick ctx (sy_sched k) (sy_tss k) (sy_io k) = Some (c, s, t, eoi 0 (sy_io k))" "sched_inv s"
      using tick_returns [OF sched] by blast
    then show ?thesis using Timer_tick inv by (simp add: run_ctx_handler_def kernel_inv_def)
  next
    case Keyboard_irq_handler
    then show ?thesis
      using inv process_scancode_inv [OF kbd]
      by (simp add: run_ctx_handler_def kernel_inv_def keyboard_irq_handler_def split_beta Let_def)
  next
    case Syscall_dispatch
    obtain c bs io where "syscall_dispatch HLT STACK (kn_ram k) ctx (sy_io k) = Some (c, io)" "sent (sy_io k) bs io"
      using syscall_returns [OF live] by blast
    then show ?thesis using Syscall_dispatch inv by (auto simp: run_ctx_handler_def kernel_inv_def sent_env)
  qed
  obtain io where "report_exception (unat (cx_vector ctx)) ctx (sy_io k) = Some io" "io_env io = io_env (sy_io k)"
    using report_exception_prints [OF live] sent_env unfolding prints_def by blast
  with handler none inv show ?thesis
    by (auto simp: interrupt_dispatch_def Let_def kernel_inv_def)
qed

interpretation kernel_events: event_system
  "\<lambda>k ctx. map_option snd (interrupt_dispatch HLT STACK plain ctx k)" kernel_inv
  for HLT STACK plain
  by unfold_locales (use dispatch_returns in fastforce)

section \<open>The booted tables\<close>

definition booted_idt :: "(nat \<Rightarrow> u64) \<Rightarrow> bool \<Rightarrow> idt" where
  "booted_idt isr_addr keyboard =
     register_ctx_handler TIMER_VECTOR Timer_tick
       ((if keyboard then register_ctx_handler KB_VECTOR Keyboard_irq_handler else (\<lambda>d. d))
         (set_gate_dpl 0x80 3 (register_ctx_handler 0x80 Syscall_dispatch (idt_init isr_addr idt_boot))))"

lemma sched_init_returns:
  assumes "tx_live (io_env io)"
  shows "\<exists>s' io'. sched_init sched_boot d io = Some (s', register_ctx_handler TIMER_VECTOR Timer_tick d, io') \<and>
    sched_inv s' \<and> io_env io' = io_env io"
proof -
  obtain io1 where io1: "puts ''sched: init\<newline>'' io = Some io1" "io_env io1 = io_env io"
    using says(1) [OF assms refl] by blast
  obtain io2 lo hi where io2: "pit_init TIMER_HZ io1 = Some io2" using pit_reload(2) [of TIMER_HZ io1]
    by (auto simp: TIMER_HZ_def)
  have env: "io_env io2 = io_env io1" using io2 by (auto simp: pit_init_def Let_def split: if_splits)
  have "\<exists>io'. do { u \<leftarrow> puts ''sched: PIT '' (clear_mask 0 io2); u \<leftarrow> dec (ucast TIMER_HZ) u;
      puts '' Hz, IRQ0 enabled\<newline>'' u } = Some io' \<and> io_env io' = io_env io"
    using prints_message(2) [of "clear_mask 0 io2" "''sched: PIT ''" "ucast TIMER_HZ" "'' Hz, IRQ0 enabled\<newline>''"] env io1(2) assms
    by (auto simp: prints_def sent_env)
  moreover have "sched_inv (set_task 0 (t\<lparr>t_state := Running, t_id := 0, t_name := n\<rparr>) sched_boot)" for t n
  proof -
    have "task_at (set_task 0 (t\<lparr>t_state := Running, t_id := 0, t_name := n\<rparr>) sched_boot) i =
        (if i = 0 then t\<lparr>t_state := Running, t_id := 0, t_name := n\<rparr> else task_empty)" if "i < MAX_TASKS" for i
      using that by (auto simp: task_at_def set_task_def sched_boot_def nth_list_update MAX_TASKS_def)
    moreover have "0 < MAX_TASKS" by (simp add: MAX_TASKS_def)
    ultimately show ?thesis by (auto simp: sched_inv_def sched_boot_def task_empty_def set_task_def)
  qed
  ultimately show ?thesis using io1 io2
    by (auto simp: sched_init_def Let_def bind_eq_Some_conv)
qed

lemma boot_returns:
  assumes "tx_live (io_env io)"
  shows "\<exists>s' kb io'. boot_interrupts isr_addr sched_boot idt_boot io = Some (s', booted_idt isr_addr kb, io') \<and> sched_inv s'"
proof -
  let ?io = "pic_disable (pic_remap 32 40 io)"
  have env: "io_env ?io = io_env io"
    by (simp add: pic_disable_def pic_remap_def split_beta Let_def io_wait_def)
  obtain io1 where io1: "puts ''syscall: int 0x80 registered (DPL=3)\<newline>'' ?io = Some io1" "io_env io1 = io_env io"
    using says(1) [OF assms env] by blast
  let ?d = "set_gate_dpl 0x80 3 (register_ctx_handler 0x80 Syscall_dispatch (idt_init isr_addr idt_boot))"
  obtain r :: u8 and io2 where io2:
    "ps2_init ?d io1 = Some (if r = 0x55 then register_ctx_handler KB_VECTOR Keyboard_irq_handler ?d else ?d, io2)"
    "io_env io2 = io_env io1"
    using ps2_init_returns [of io1 ?d] assms unfolding io1(2) by blast
  have live: "tx_live (io_env io2)" using io2(2) io1(2) assms by simp
  let ?d2 = "if r = 0x55 then register_ctx_handler KB_VECTOR Keyboard_irq_handler ?d else ?d"
  obtain s' io' where "sched_init sched_boot ?d2 io2 = Some (s', register_ctx_handler TIMER_VECTOR Timer_tick ?d2, io')"
    "sched_inv s'" using sched_init_returns [OF live] by blast
  then show ?thesis using io1 io2
    by (intro exI [of _ s'] exI [of _ "r = 0x55"] exI [of _ io'])
      (simp add: boot_interrupts_def syscall_init_def booted_idt_def Let_def)
qed

lemma booted_entries:
  assumes "i < 256"
  shows "id_entries (booted_idt isr_addr kb) ! i =
    (if i = 0x80 then set_dpl 3 (set_handler (isr_addr i) idt_entry_empty)
     else if i < 48 then set_handler (isr_addr i) idt_entry_empty else idt_entry_empty)"
proof -
  have len: "length (id_entries idt_boot) = 256" by (simp add: idt_boot_def IDT_ENTRIES_def)
  have "length (id_entries (idt_init isr_addr idt_boot)) = 256"
    using len length_fold_update [of "\<lambda>i. set_handler (isr_addr i)" "[0..<48]" "id_entries idt_boot"]
    by (simp add: idt_init_def Let_def)
  moreover have "id_entries idt_boot ! i = idt_entry_empty"
    using assms by (simp add: idt_boot_def IDT_ENTRIES_def)
  ultimately show ?thesis
    using assms idt_init_entry [OF len, of i isr_addr] idt_init_entry [OF len, of 128 isr_addr]
    by (simp add: booted_idt_def register_ctx_handler_def set_gate_dpl_def IDT_ENTRIES_def
        TIMER_VECTOR_def KB_VECTOR_def nth_list_update idt_boot_def)
qed

lemma booted_handlers:
  assumes "i < 256"
  shows "id_ctx_handlers (booted_idt isr_addr kb) ! i =
    (if i = 32 then Some Timer_tick else if i = 33 \<and> kb then Some Keyboard_irq_handler
     else if i = 0x80 then Some Syscall_dispatch else None)"
    "id_handlers (booted_idt isr_addr kb) ! i = None"
  using assms
  by (simp_all add: booted_idt_def register_ctx_handler_def set_gate_dpl_def IDT_ENTRIES_def
      TIMER_VECTOR_def KB_VECTOR_def nth_list_update idt_boot_def idt_init_def Let_def)

lemma user_gate:
  "gate_dpl (set_dpl 3 (set_handler h e)) = 3" "gate_present (set_dpl 3 (set_handler h e))"
  "gate_offset (set_dpl 3 (set_handler h e)) = unat h"
  using gate_offset_set_handler [of h e]
  by (simp_all add: gate_dpl_def gate_present_def gate_offset_def set_dpl_def set_handler_def Let_def)

section \<open>Properties\<close>

text \<open>
  C16: the booted interrupt table. On a live console the boot registrations return; exactly vectors
  0 to 47 and 0x80 have present gates, each leading to its own stub, and user code may invoke
  exactly vector 0x80; the timer, keyboard (if its self-test passed) and system call handlers are
  the only ones registered.
\<close>

theorem boot_opens_only_the_syscall_gate:
  assumes "tx_live (io_env io)"
  shows "\<exists>s d kb io'. boot_interrupts isr_addr sched_boot idt_boot io = Some (s, d, io') \<and> sched_inv s \<and>
    (\<forall>v. v < 256 \<longrightarrow>
      (gate_present (id_entries d ! v) \<longleftrightarrow> v < 48 \<or> v = 0x80) \<and>
      (gate_dpl (id_entries d ! v) = 3 \<longleftrightarrow> v = 0x80) \<and>
      (v < 48 \<or> v = 0x80 \<longrightarrow> gate_offset (id_entries d ! v) = unat (isr_addr v)) \<and>
      id_ctx_handlers d ! v = (if v = 32 then Some Timer_tick
        else if v = 33 \<and> kb then Some Keyboard_irq_handler
        else if v = 0x80 then Some Syscall_dispatch else None) \<and> id_handlers d ! v = None)"
proof -
  obtain s kb io' where "boot_interrupts isr_addr sched_boot idt_boot io = Some (s, booted_idt isr_addr kb, io')"
    "sched_inv s" using boot_returns [OF assms] by blast
  moreover have "gate_dpl idt_entry_empty = 0" by (simp add: gate_dpl_def idt_entry_empty_def)
  ultimately show ?thesis
    by (intro exI [of _ s] exI [of _ "booted_idt isr_addr kb"] exI [of _ kb] exI [of _ io'])
      (simp add: booted_entries booted_handlers user_gate gate_of_handler gate_offset_set_handler)
qed

theorem boot_opens_only_the_syscall_gate_witness:
  "\<exists>s d io'. boot_interrupts (\<lambda>i. 0xFFFFFFFF80000000 + of_nat (16 * i)) sched_boot idt_boot
      \<lparr>io_env = (\<lambda>_ _. 0x20), io_trace = []\<rparr> = Some (s, d, io') \<and>
    gate_dpl (id_entries d ! 0x80) = 3 \<and> gate_dpl (id_entries d ! 14) \<noteq> 3"
proof -
  have "tx_live (io_env \<lparr>io_env = (\<lambda>_ _. 0x20), io_trace = []\<rparr>)" by (simp add: tx_live_def)
  from boot_opens_only_the_syscall_gate [OF this, of "\<lambda>i. 0xFFFFFFFF80000000 + of_nat (16 * i)"]
  show ?thesis by fastforce
qed

text \<open>
  C17: the kernel survives any interrupts. From a well-formed kernel, any sequence of interrupt
  contexts (any vector, any register contents) is dispatched to its end, keeping the scheduler,
  heap and keyboard invariants.
\<close>

theorem interrupts_always_return:
  assumes "kernel_inv k"
  shows "\<exists>k'. run_events (\<lambda>k ctx. map_option snd (interrupt_dispatch HLT STACK plain ctx k)) k ctxs = Some k' \<and>
    kernel_inv k'"
  by (rule kernel_events.run_safe [OF assms])

definition demo_kernel :: kernel where
  "demo_kernel = system.extend demo_system \<lparr>kn_idt = booted_idt (\<lambda>i. of_nat i) True, kn_kbd = kbd_boot,
     kn_ram = (\<lambda>a. if a = 0x5000 then 72 else if a = 0x5001 then 105 else 0)\<rparr>"

lemma demo_kernel_inv: "kernel_inv demo_kernel"
  using demo_inv(1) booted_handlers(2) [of _ "\<lambda>i. of_nat i" True]
  by (simp add: kernel_inv_def system_inv_def demo_kernel_def system.defs IDT_ENTRIES_def)

theorem interrupts_always_return_witness:
  "\<exists>k'. run_events (\<lambda>k ctx. map_option snd (interrupt_dispatch 0 0 (\<lambda>_ _ _ k. None) ctx k)) demo_kernel
      [demo_ctx, demo_ctx\<lparr>cx_vector := 14\<rparr>, demo_ctx\<lparr>cx_vector := 33\<rparr>] = Some k' \<and> kernel_inv k'"
  by (rule interrupts_always_return [OF demo_kernel_inv])

text \<open>
  An exception without a handler is reported with its number, error code and address, and then
  returned from with an unchanged context, so the faulting instruction runs again.
\<close>

theorem unhandled_exception_is_reported_and_retried:
  assumes "tx_live (io_env (sy_io k))" "unat (cx_vector ctx) < 32"
    and "id_ctx_handlers (kn_idt k) ! unat (cx_vector ctx) = None"
    and "id_handlers (kn_idt k) ! unat (cx_vector ctx) = None"
  shows "\<exists>k'. interrupt_dispatch HLT STACK plain ctx k = Some (ctx, k') \<and>
    written COM1 (sy_io k') = written COM1 (sy_io k) @ str_bytes ''EXCEPTION #'' @
      number_text 10 (cx_vector ctx) @ str_bytes '' err=0x'' @ number_text 16 (cx_error_code ctx) @
      str_bytes '' rip=0x'' @ number_text 16 (cx_rip ctx) @ str_bytes ''\<newline>'' \<and>
    kn_kbd k' = kn_kbd k \<and> sy_sched k' = sy_sched k \<and> sy_mem k' = sy_mem k"
  using report_exception_prints [OF assms(1), of "unat (cx_vector ctx)" ctx] assms(2-4)
  by (auto simp: interrupt_dispatch_def Let_def prints_def sent_def)

theorem unhandled_exception_is_reported_and_retried_witness:
  "\<exists>k'. interrupt_dispatch 0 0 (\<lambda>_ _ _ k. None) (demo_ctx\<lparr>cx_vector := 14\<rparr>) demo_kernel =
    Some (demo_ctx\<lparr>cx_vector := 14\<rparr>, k')"
proof -
  have idt: "kn_idt demo_kernel = booted_idt (\<lambda>i. of_nat i) True" by (simp add: demo_kernel_def system.defs)
  have v: "unat (cx_vector (demo_ctx\<lparr>cx_vector := 14\<rparr>)) < 32" by simp
  have "id_ctx_handlers (kn_idt demo_kernel) ! unat (cx_vector (demo_ctx\<lparr>cx_vector := 14\<rparr>)) = None"
    "id_handlers (kn_idt demo_kernel) ! unat (cx_vector (demo_ctx\<lparr>cx_vector := 14\<rparr>)) = None"
    using booted_handlers [of 14 "\<lambda>i. of_nat i" True] by (simp_all add: idt)
  moreover have "tx_live (io_env (sy_io demo_kernel))" using demo_kernel_inv by (simp add: kernel_inv_def)
  ultimately show ?thesis
    using unhandled_exception_is_reported_and_retried [OF _ v, of demo_kernel 0 0 "\<lambda>_ _ _ k. None"] by blast
qed

text \<open>
  C18: system calls. The write call sends exactly the \<open>len\<close> bytes at \<open>ptr\<close> when \<open>ptr\<close> is not null
  and \<open>len\<close> is below 4096 (any address, the kernel's own included), sends nothing otherwise, and
  reports success either way; exit gives a kernel context at the halt loop; any other number
  returns all ones. Nothing else in the caller's context changes.
\<close>

theorem syscall_behaviour:
  assumes "tx_live (io_env io)"
  shows "\<exists>io'. syscall_dispatch HLT STACK ram ctx io =
      Some (if cx_rax ctx = 0 then ctx\<lparr>cx_cs := 0x08, cx_ss := 0x10, cx_rip := HLT, cx_rflags := 0x202, cx_rsp := STACK + 0x2000\<rparr>
            else ctx\<lparr>cx_rax := if cx_rax ctx = 1 then 0 else - 1\<rparr>, io') \<and>
    written COM1 io' = written COM1 io @
      (if cx_rax ctx = 1 then
         (if cx_rdi ctx \<noteq> 0 \<and> unat (cx_rsi ctx) < 4096 then ram_bytes ram (cx_rdi ctx) (unat (cx_rsi ctx)) else [])
       else if cx_rax ctx = 0 then str_bytes ''syscall: exit('' @ number_text 10 (cx_rdi ctx) @ str_bytes '')\<newline>''
       else str_bytes ''syscall: unknown nr='' @ number_text 10 (cx_rax ctx) @ str_bytes ''\<newline>'')"
proof -
  have message: "\<exists>io'. do { u \<leftarrow> puts a io; u \<leftarrow> dec v u; puts b u } = Some io' \<and>
      sent io (str_bytes a @ number_text 10 v @ str_bytes b) io'" for a v b
    using prints_message(2) [OF assms] by (simp add: prints_def)
  show ?thesis
    using message [of "''syscall: exit(''" "cx_rdi ctx" "'')\<newline>''"]
      message [of "''syscall: unknown nr=''" "cx_rax ctx" "''\<newline>''"]
      put_bytes_sends [OF assms, of "ram_bytes ram (cx_rdi ctx) (unat (cx_rsi ctx))"]
    by (auto simp: syscall_dispatch_def Let_def bind_eq_Some_conv sent_def SYS_EXIT_def SYS_SERIAL_WRITE_def)
qed

theorem syscall_behaviour_witness:
  "\<exists>io'. syscall_dispatch 0 0 (kn_ram demo_kernel) (demo_ctx\<lparr>cx_rax := 1, cx_rdi := 0x5000, cx_rsi := 2\<rparr>) (sy_io demo_system) =
      Some (demo_ctx\<lparr>cx_rax := 0, cx_rdi := 0x5000, cx_rsi := 2\<rparr>, io') \<and> written COM1 io' = [72, 105]"
proof -
  let ?ctx = "demo_ctx\<lparr>cx_rax := 1, cx_rdi := 0x5000, cx_rsi := 2\<rparr>"
  have live: "tx_live (io_env (sy_io demo_system))" using demo_inv(1) by (simp add: system_inv_def)
  have "ram_bytes (kn_ram demo_kernel) 0x5000 2 = [72, 105]"
    by (simp add: demo_kernel_def system.defs ram_bytes_def upt_rec)
  moreover have "written COM1 (sy_io demo_system) = []" by (simp add: demo_system_def written_def)
  moreover have "?ctx\<lparr>cx_rax := 0\<rparr> = demo_ctx\<lparr>cx_rax := 0, cx_rdi := 0x5000, cx_rsi := 2\<rparr>" by simp
  ultimately show ?thesis
    using syscall_behaviour [OF live, of 0 0 "kn_ram demo_kernel" ?ctx] by auto
qed

end
