(* ===== verification/Ipc.thy ===== *)
theory Ipc
  imports Ring Contracts
begin

text \<open>
  Message channels (\<open>src/kern/arch/x86_64/ipc.rs\<close>): messages and their payload accessors, the
  63-slot message ring, the channel table and its operations, and the spin lock, whose atomic
  steps are interleaved by a step relation over any number of processors.
\<close>

section \<open>Messages\<close>

definition MAX_CHANNELS :: nat where "MAX_CHANNELS = 32"
definition RING_SIZE :: nat where "RING_SIZE = 64"
definition MSG_SIZE :: nat where "MSG_SIZE = 64"

record message =
  msg_src :: u32
  msg_type :: u32
  msg_data :: "u8 list"

definition message_empty :: message where
  "message_empty = \<lparr>msg_src = 0, msg_type = 0, msg_data = replicate (MSG_SIZE - 8) 0\<rparr>"

definition message_new :: "u32 \<Rightarrow> u32 \<Rightarrow> message" where
  "message_new src ty = \<lparr>msg_src = src, msg_type = ty, msg_data = replicate (MSG_SIZE - 8) 0\<rparr>"

definition with_u64 :: "u64 \<Rightarrow> message \<Rightarrow> message" where
  "with_u64 val m = m\<lparr>msg_data := to_le 8 val @ drop 8 (msg_data m)\<rparr>"

definition read_u64 :: "message \<Rightarrow> u64" where
  "read_u64 m = from_le (take 8 (msg_data m))"

definition with_bytes :: "u8 list \<Rightarrow> message \<Rightarrow> message" where
  "with_bytes bytes m =
     (let len = min (length bytes) (length (msg_data m))
      in m\<lparr>msg_data := take len bytes @ drop len (msg_data m)\<rparr>)"

section \<open>The message ring\<close>

record ring_buffer =
  rb_buf :: "message list"
  rb_head :: u32
  rb_tail :: u32

definition ring_new :: ring_buffer where
  "ring_new = \<lparr>rb_buf = replicate RING_SIZE message_empty, rb_head = 0, rb_tail = 0\<rparr>"

definition ring_push_msg :: "ring_buffer \<Rightarrow> message \<Rightarrow> ring_buffer \<times> bool" where
  "ring_push_msg r msg =
     (let nxt = (rb_head r + 1) mod of_nat RING_SIZE
      in if nxt = rb_tail r then (r, False)
         else (r\<lparr>rb_buf := (rb_buf r)[unat (rb_head r) := msg], rb_head := nxt\<rparr>, True))"

definition ring_pop_msg :: "ring_buffer \<Rightarrow> ring_buffer \<times> message option" where
  "ring_pop_msg r =
     (if rb_tail r = rb_head r then (r, None)
      else (r\<lparr>rb_tail := (rb_tail r + 1) mod of_nat RING_SIZE\<rparr>, Some (rb_buf r ! unat (rb_tail r))))"

definition ring_is_empty :: "ring_buffer \<Rightarrow> bool" where
  "ring_is_empty r = (rb_tail r = rb_head r)"

definition ring_len :: "ring_buffer \<Rightarrow> usize" where
  "ring_len r = (unat (rb_head r) + RING_SIZE - unat (rb_tail r)) mod RING_SIZE"

section \<open>Channels\<close>

record channel =
  ch_active :: bool
  ch_ring :: ring_buffer
  ch_owner :: u32

definition channel_new :: channel where
  "channel_new = \<lparr>ch_active = False, ch_ring = ring_new, ch_owner = 0\<rparr>"

record ipc =
  ipc_channels :: "channel list"
  ipc_next :: u32

definition ipc_boot :: ipc where
  "ipc_boot = \<lparr>ipc_channels = replicate MAX_CHANNELS channel_new, ipc_next = 0\<rparr>"

definition create_channel :: "u32 \<Rightarrow> ipc \<Rightarrow> ipc \<times> u32 option" where
  "create_channel owner s =
     (let idn = ipc_next s; s = s\<lparr>ipc_next := idn + 1\<rparr>
      in if unat idn \<ge> MAX_CHANNELS then (s\<lparr>ipc_next := ipc_next s - 1\<rparr>, None)
         else (s\<lparr>ipc_channels := (ipc_channels s)[unat idn :=
                 (ipc_channels s ! unat idn)\<lparr>ch_active := True, ch_owner := owner\<rparr>]\<rparr>, Some idn))"

definition send :: "u32 \<Rightarrow> message \<Rightarrow> ipc \<Rightarrow> ipc \<times> bool" where
  "send channel_id msg s =
     (let idx = unat channel_id; ch = ipc_channels s ! idx
      in if idx \<ge> MAX_CHANNELS then (s, False)
         else if \<not> ch_active ch then (s, False)
         else let (r, ok) = ring_push_msg (ch_ring ch) msg
              in (s\<lparr>ipc_channels := (ipc_channels s)[idx := ch\<lparr>ch_ring := r\<rparr>]\<rparr>, ok))"

definition recv :: "u32 \<Rightarrow> ipc \<Rightarrow> ipc \<times> message option" where
  "recv channel_id s =
     (let idx = unat channel_id; ch = ipc_channels s ! idx
      in if idx \<ge> MAX_CHANNELS then (s, None)
         else if \<not> ch_active ch then (s, None)
         else let (r, m) = ring_pop_msg (ch_ring ch)
              in (s\<lparr>ipc_channels := (ipc_channels s)[idx := ch\<lparr>ch_ring := r\<rparr>]\<rparr>, m))"

definition peek :: "u32 \<Rightarrow> ipc \<Rightarrow> bool" where
  "peek channel_id s =
     (if unat channel_id \<ge> MAX_CHANNELS then False
      else \<not> ring_is_empty (ch_ring (ipc_channels s ! unat channel_id)))"

definition pending :: "u32 \<Rightarrow> ipc \<Rightarrow> usize" where
  "pending channel_id s =
     (if unat channel_id \<ge> MAX_CHANNELS then 0
      else ring_len (ch_ring (ipc_channels s ! unat channel_id)))"

definition destroy_channel :: "u32 \<Rightarrow> ipc \<Rightarrow> ipc" where
  "destroy_channel channel_id s =
     (let idx = unat channel_id
      in if idx \<ge> MAX_CHANNELS then s
         else s\<lparr>ipc_channels := (ipc_channels s)[idx := (ipc_channels s ! idx)\<lparr>ch_active := False\<rparr>]\<rparr>)"

section \<open>The spin lock\<close>

text \<open>
  \<open>locked\<close> is the atomic word. Each processor is outside (\<open>Idle\<close>), about to try the
  compare-exchange of \<open>lock\<close> (\<open>Trying\<close>), in its inner read loop (\<open>Spinning\<close>), or past \<open>lock\<close> or a
  successful \<open>try_lock\<close> (\<open>Holding\<close>). A weak compare-exchange may fail spuriously.
\<close>

datatype lock_pc = Idle | Trying | Spinning | Holding

record 'p lock_state =
  lk_word :: u32
  lk_pc :: "'p \<Rightarrow> lock_pc"

inductive lock_step :: "'p lock_state \<Rightarrow> 'p lock_state \<Rightarrow> bool" where
  call_lock: "lk_pc s p = Idle \<Longrightarrow> lock_step s (s\<lparr>lk_pc := (lk_pc s)(p := Trying)\<rparr>)"
| cas_ok: "lk_pc s p = Trying \<Longrightarrow> lk_word s = 0 \<Longrightarrow>
    lock_step s (s\<lparr>lk_word := 1, lk_pc := (lk_pc s)(p := Holding)\<rparr>)"
| cas_fail: "lk_pc s p = Trying \<Longrightarrow> lock_step s (s\<lparr>lk_pc := (lk_pc s)(p := Spinning)\<rparr>)"
| spin_free: "lk_pc s p = Spinning \<Longrightarrow> lk_word s = 0 \<Longrightarrow>
    lock_step s (s\<lparr>lk_pc := (lk_pc s)(p := Trying)\<rparr>)"
| spin_busy: "lk_pc s p = Spinning \<Longrightarrow> lk_word s \<noteq> 0 \<Longrightarrow> lock_step s s"
| try_ok: "lk_pc s p = Idle \<Longrightarrow> lk_word s = 0 \<Longrightarrow>
    lock_step s (s\<lparr>lk_word := 1, lk_pc := (lk_pc s)(p := Holding)\<rparr>)"
| try_fail: "lk_pc s p = Idle \<Longrightarrow> lk_word s \<noteq> 0 \<Longrightarrow> lock_step s s"
| unlock: "lk_pc s p = Holding \<Longrightarrow>
    lock_step s (s\<lparr>lk_word := 0, lk_pc := (lk_pc s)(p := Idle)\<rparr>)"

definition lock_new :: "'p lock_state" where
  "lock_new = \<lparr>lk_word = 0, lk_pc = (\<lambda>_. Idle)\<rparr>"

section \<open>The ring as a bounded queue\<close>

lemmas ipc_sizes = MAX_CHANNELS_def RING_SIZE_def MSG_SIZE_def

definition ring_msgs :: "ring_buffer \<Rightarrow> message list" where
  "ring_msgs r = ring_contents (rb_buf r) (unat (rb_head r)) (unat (rb_tail r))"

definition ring_inv :: "ring_buffer \<Rightarrow> bool" where
  "ring_inv r \<longleftrightarrow> length (rb_buf r) = RING_SIZE \<and> unat (rb_head r) < RING_SIZE \<and> unat (rb_tail r) < RING_SIZE"

lemma ring_index:
  assumes "unat (h :: u32) < RING_SIZE"
  shows "unat ((h + 1) mod of_nat RING_SIZE) = (unat h + 1) mod RING_SIZE"
proof -
  have "unat (h + 1) = unat h + 1"
    using assms by (simp add: unat_word_ariths(1) ipc_sizes)
  then show ?thesis by (simp add: unat_mod ipc_sizes)
qed

lemma ring_inv_new [simp]: "ring_inv ring_new" "ring_msgs ring_new = []"
  by (simp_all add: ring_inv_def ring_new_def ring_msgs_def ring_contents_def ipc_sizes)

lemma ring_msgs_length:
  assumes "ring_inv r"
  shows "length (ring_msgs r) = ring_len r" "ring_len r \<le> 63" "ring_len r = 0 \<longleftrightarrow> ring_is_empty r"
proof -
  show len: "length (ring_msgs r) = ring_len r"
    using assms by (simp add: ring_msgs_def ring_length ring_len_def ring_inv_def)
  show "ring_len r \<le> 63"
    using mod_less_divisor [of 64 "unat (rb_head r) + 64 - unat (rb_tail r)"]
    by (simp add: ring_len_def ipc_sizes)
  show "ring_len r = 0 \<longleftrightarrow> ring_is_empty r"
    using ring_empty_iff [of "unat (rb_head r)" "rb_buf r" "unat (rb_tail r)"] assms len
    by (auto simp: ring_is_empty_def ring_inv_def ring_msgs_def unsigned_word_eqI)
qed

lemma ring_push_msg_full:
  assumes "ring_inv r"
  shows "(rb_head r + 1) mod of_nat RING_SIZE = rb_tail r \<longleftrightarrow> length (ring_msgs r) = 63"
proof -
  have hd: "unat (rb_head r) < RING_SIZE" and tl: "unat (rb_tail r) < RING_SIZE"
    and len: "length (rb_buf r) = RING_SIZE" using assms by (simp_all add: ring_inv_def)
  have "(rb_head r + 1) mod of_nat RING_SIZE = rb_tail r \<longleftrightarrow>
      (unat (rb_head r) + 1) mod RING_SIZE = unat (rb_tail r)"
    by (metis ring_index [OF hd] unsigned_word_eqI)
  also have "\<dots> \<longleftrightarrow> length (ring_msgs r) = RING_SIZE - 1"
    using ring_full_iff [OF hd tl] by (simp add: ring_msgs_def ring_length len)
  finally show ?thesis by (simp add: ipc_sizes)
qed

interpretation iq: bounded_queue ring_push_msg ring_pop_msg ring_msgs ring_inv 63
proof unfold_locales
  fix r m ms
  assume inv: "ring_inv r"
  then have idx: "unat (rb_head r) < RING_SIZE" "unat (rb_tail r) < RING_SIZE"
    and len: "length (rb_buf r) = RING_SIZE" by (simp_all add: ring_inv_def)
  note nxt = ring_index [OF idx(1)] ring_index [OF idx(2)]
  have pos: "RING_SIZE > 0" by (simp add: ipc_sizes)
  show "length (ring_msgs r) \<le> 63" using ring_msgs_length [OF inv] by simp
  show "ring_push_msg r m = (r, False)" if "length (ring_msgs r) = 63"
    using that ring_push_msg_full [OF inv] by (simp add: ring_push_msg_def)
  show "snd (ring_push_msg r m) \<and> ring_inv (fst (ring_push_msg r m)) \<and>
      ring_msgs (fst (ring_push_msg r m)) = ring_msgs r @ [m]" if "length (ring_msgs r) < 63"
  proof -
    have room: "(rb_head r + 1) mod of_nat RING_SIZE \<noteq> rb_tail r"
      using that ring_push_msg_full [OF inv] by simp
    then have "(unat (rb_head r) + 1) mod length (rb_buf r) \<noteq> unat (rb_tail r)"
      unfolding len nxt(1) [symmetric] by (metis unsigned_word_eqI)
    from ring_push [OF _ _ this] show ?thesis
      using room idx len nxt pos by (simp add: ring_push_msg_def ring_inv_def ring_msgs_def Let_def)
  qed
  show "ring_pop_msg r = (r, None)" if "ring_msgs r = []"
    using that ring_msgs_length [OF inv] by (simp add: ring_pop_msg_def ring_is_empty_def)
  show "snd (ring_pop_msg r) = Some m \<and> ring_inv (fst (ring_pop_msg r)) \<and>
      ring_msgs (fst (ring_pop_msg r)) = ms" if "ring_msgs r = m # ms"
  proof -
    have ne: "rb_tail r \<noteq> rb_head r"
      using that ring_msgs_length [OF inv] by (auto simp: ring_is_empty_def)
    then have "unat (rb_tail r) \<noteq> unat (rb_head r)" by (metis unsigned_word_eqI)
    with ring_pop [of "unat (rb_head r)" "rb_buf r" "unat (rb_tail r)"] show ?thesis
      using ne idx len nxt that pos by (auto simp: ring_pop_msg_def ring_inv_def ring_msgs_def)
  qed
qed

section \<open>Channels as bounded queues\<close>

definition channel_at :: "ipc \<Rightarrow> u32 \<Rightarrow> channel" where
  "channel_at s c = ipc_channels s ! unat c"

definition channel_msgs :: "u32 \<Rightarrow> ipc \<Rightarrow> message list" where
  "channel_msgs c s = ring_msgs (ch_ring (channel_at s c))"

definition ipc_inv :: "ipc \<Rightarrow> bool" where
  "ipc_inv s \<longleftrightarrow> length (ipc_channels s) = MAX_CHANNELS \<and>
     (\<forall>ch\<in>set (ipc_channels s). ring_inv (ch_ring ch)) \<and> unat (ipc_next s) \<le> MAX_CHANNELS"

lemma ipc_inv_boot [simp]: "ipc_inv ipc_boot"
  by (simp add: ipc_inv_def ipc_boot_def channel_new_def ipc_sizes)

lemma ipc_inv_channel: "ipc_inv s \<Longrightarrow> unat c < MAX_CHANNELS \<Longrightarrow> ring_inv (ch_ring (channel_at s c))"
  by (simp add: ipc_inv_def channel_at_def)

lemma ipc_inv_update:
  assumes "ipc_inv s" "ring_inv (ch_ring ch)"
  shows "ipc_inv (s\<lparr>ipc_channels := (ipc_channels s)[i := ch]\<rparr>)"
  using assms set_update_subset_insert [of "ipc_channels s" i ch] by (auto simp: ipc_inv_def)

definition open_channel :: "u32 \<Rightarrow> ipc \<Rightarrow> bool" where
  "open_channel c s \<longleftrightarrow> ipc_inv s \<and> unat c < MAX_CHANNELS \<and> ch_active (channel_at s c)"

lemma send_eq:
  assumes "open_channel c s"
  shows "send c m s = (s\<lparr>ipc_channels := (ipc_channels s)[unat c :=
      (channel_at s c)\<lparr>ch_ring := fst (ring_push_msg (ch_ring (channel_at s c)) m)\<rparr>]\<rparr>,
    snd (ring_push_msg (ch_ring (channel_at s c)) m))"
  using assms by (simp add: send_def open_channel_def channel_at_def Let_def split_beta)

lemma recv_eq:
  assumes "open_channel c s"
  shows "recv c s = (s\<lparr>ipc_channels := (ipc_channels s)[unat c :=
      (channel_at s c)\<lparr>ch_ring := fst (ring_pop_msg (ch_ring (channel_at s c)))\<rparr>]\<rparr>,
    snd (ring_pop_msg (ch_ring (channel_at s c))))"
  using assms by (simp add: recv_def open_channel_def channel_at_def Let_def split_beta)

lemma channel_update:
  assumes "open_channel c s" "ring_inv r"
  defines "s' \<equiv> s\<lparr>ipc_channels := (ipc_channels s)[unat c := (channel_at s c)\<lparr>ch_ring := r\<rparr>]\<rparr>"
  shows "open_channel c s'" "channel_msgs c s' = ring_msgs r"
  using assms ipc_inv_update [of s "(channel_at s c)\<lparr>ch_ring := r\<rparr>" "unat c"]
  by (auto simp: open_channel_def channel_msgs_def channel_at_def ipc_inv_def)

lemma same_ring_update:
  assumes "open_channel c s"
  shows "s\<lparr>ipc_channels := (ipc_channels s)[unat c := channel_at s c]\<rparr> = s"
  using assms by (simp add: open_channel_def ipc_inv_def channel_at_def)

interpretation chq: bounded_queue "\<lambda>s m. send c m s" "recv c" "channel_msgs c" "open_channel c" 63 for c
proof unfold_locales
  fix s m ms
  assume o: "open_channel c s"
  then have inv: "ring_inv (ch_ring (channel_at s c))"
    by (simp add: open_channel_def ipc_inv_channel)
  let ?r = "ch_ring (channel_at s c)"
  show "length (channel_msgs c s) \<le> 63" using iq.bounded [OF inv] by (simp add: channel_msgs_def)
  show "send c m s = (s, False)" if "length (channel_msgs c s) = 63"
    using iq.push_full [OF inv] that same_ring_update [OF o] by (simp add: send_eq [OF o] channel_msgs_def)
  show "snd (send c m s) \<and> open_channel c (fst (send c m s)) \<and>
      channel_msgs c (fst (send c m s)) = channel_msgs c s @ [m]" if "length (channel_msgs c s) < 63"
    using iq.push_room [OF inv] that channel_update [OF o] by (simp add: send_eq [OF o] channel_msgs_def)
  show "recv c s = (s, None)" if "channel_msgs c s = []"
    using iq.pop_empty [OF inv] that same_ring_update [OF o] by (simp add: recv_eq [OF o] channel_msgs_def)
  show "snd (recv c s) = Some m \<and> open_channel c (fst (recv c s)) \<and>
      channel_msgs c (fst (recv c s)) = ms" if "channel_msgs c s = m # ms"
    using iq.pop_some [OF inv] that channel_update [OF o] by (simp add: recv_eq [OF o] channel_msgs_def)
qed

section \<open>All calls\<close>

datatype ipc_call = Create u32 | Send u32 message | Recv u32 | Destroy u32

fun ipc_step :: "ipc \<Rightarrow> ipc_call \<Rightarrow> ipc option" where
  "ipc_step s (Create owner) = Some (fst (create_channel owner s))"
| "ipc_step s (Send c m) = Some (fst (send c m s))"
| "ipc_step s (Recv c) = Some (fst (recv c s))"
| "ipc_step s (Destroy c) = Some (destroy_channel c s)"

lemma create_channel_eq:
  assumes "ipc_inv s"
  shows "create_channel owner s =
    (if ipc_next s = 32 then (s, None)
     else (s\<lparr>ipc_next := ipc_next s + 1, ipc_channels := (ipc_channels s)[unat (ipc_next s) :=
             (channel_at s (ipc_next s))\<lparr>ch_active := True, ch_owner := owner\<rparr>]\<rparr>, Some (ipc_next s)))"
proof -
  have "unat (ipc_next s) \<ge> 32 \<longleftrightarrow> ipc_next s = 32"
    using assms by (auto simp: ipc_inv_def ipc_sizes le_antisym unsigned_word_eqI)
  then show ?thesis by (auto simp: create_channel_def Let_def ipc_sizes channel_at_def)
qed

lemma create_channel_next:
  assumes "ipc_inv s" "ipc_next s \<noteq> 32"
  shows "unat (ipc_next s + 1) = unat (ipc_next s) + 1" "unat (ipc_next s) < 32"
proof -
  have "unat (ipc_next s) \<noteq> unat (32 :: u32)" using assms(2) by (metis unsigned_word_eqI)
  then have "unat (ipc_next s) \<noteq> 32" by simp
  then show "unat (ipc_next s) < 32" using assms(1) by (simp add: ipc_inv_def ipc_sizes)
  then show "unat (ipc_next s + 1) = unat (ipc_next s) + 1" by (simp add: unat_word_ariths(1))
qed

lemma ipc_step_inv:
  assumes "ipc_inv s"
  shows "\<exists>s'. ipc_step s c = Some s' \<and> ipc_inv s'"
proof (cases c)
  case (Create owner)
  show ?thesis
  proof (cases "ipc_next s = 32")
    case True
    then show ?thesis using Create assms by (simp add: create_channel_eq)
  next
    case False
    let ?ch = "(channel_at s (ipc_next s))\<lparr>ch_active := True, ch_owner := owner\<rparr>"
    note nxt = create_channel_next [OF assms False]
    have "ring_inv (ch_ring ?ch)" using ipc_inv_channel [OF assms] nxt(2) by (simp add: ipc_sizes)
    from ipc_inv_update [OF assms this] show ?thesis
      using Create False nxt by (simp add: create_channel_eq [OF assms] ipc_inv_def ipc_sizes)
  qed
next
  case (Send c m)
  show ?thesis
  proof (cases "open_channel c s")
    case True
    then show ?thesis using Send chq.push_cases(1) [OF True, of m] by (simp add: open_channel_def)
  next
    case False
    then have "send c m s = (s, False)"
      using assms by (auto simp: send_def open_channel_def channel_at_def Let_def)
    then show ?thesis using Send assms by simp
  qed
next
  case (Recv c)
  show ?thesis
  proof (cases "open_channel c s")
    case True
    then show ?thesis using Recv chq.pop_cases(1) [OF True] by (simp add: open_channel_def)
  next
    case False
    then have "recv c s = (s, None)"
      using assms by (auto simp: recv_def open_channel_def channel_at_def Let_def)
    then show ?thesis using Recv assms by simp
  qed
next
  case (Destroy c)
  then show ?thesis
    using assms ipc_inv_channel [OF assms, of c] ipc_inv_update [OF assms, of "(channel_at s c)\<lparr>ch_active := False\<rparr>" "unat c"]
    by (simp add: destroy_channel_def Let_def channel_at_def)
qed

interpretation ipc_events: event_system ipc_step ipc_inv
  by unfold_locales (rule ipc_step_inv)

lemma channel_at_other:
  assumes "c' \<noteq> c"
  shows "channel_at (fst (send c m s)) c' = channel_at s c'"
    "channel_at (fst (recv c s)) c' = channel_at s c'"
proof -
  have "unat c \<noteq> unat c'" using assms by (metis unsigned_word_eqI)
  then show "channel_at (fst (send c m s)) c' = channel_at s c'"
    "channel_at (fst (recv c s)) c' = channel_at s c'"
    by (simp_all add: channel_at_def send_def recv_def Let_def split_beta)
qed

text \<open>Once 32 channels were created the counter stays where it is.\<close>

lemma ipc_step_next:
  assumes "ipc_inv s" "ipc_next s = 32"
  shows "ipc_next (the (ipc_step s c)) = 32"
  using assms by (cases c)
    (auto simp: create_channel_eq [OF assms(1)] send_def recv_def destroy_channel_def Let_def split_beta)

lemma ipc_run_next:
  "ipc_inv s \<Longrightarrow> ipc_next s = 32 \<Longrightarrow> run_events ipc_step s cs = Some s' \<Longrightarrow> ipc_next s' = 32"
proof (induction cs arbitrary: s)
  case (Cons c cs)
  obtain t where t: "ipc_step s c = Some t" "ipc_inv t" using ipc_step_inv [OF Cons.prems(1)] by blast
  moreover have "ipc_next t = 32" using ipc_step_next [OF Cons.prems(1,2), of c] t(1) by simp
  ultimately show ?case using Cons.IH [of t] Cons.prems(3) by simp
qed simp

section \<open>Mutual exclusion\<close>

definition holders :: "'p lock_state \<Rightarrow> 'p set" where
  "holders s = {p. lk_pc s p = Holding}"

definition lock_inv :: "'p lock_state \<Rightarrow> bool" where
  "lock_inv s \<longleftrightarrow> lk_word s = 0 \<and> holders s = {} \<or> lk_word s = 1 \<and> (\<exists>p. holders s = {p})"

lemma holders_update [simp]:
  "holders (s\<lparr>lk_pc := (lk_pc s)(p := x)\<rparr>) = (if x = Holding then insert p (holders s) else holders s - {p})"
  "holders (s\<lparr>lk_word := w, lk_pc := (lk_pc s)(p := x)\<rparr>) =
     (if x = Holding then insert p (holders s) else holders s - {p})"
  by (auto simp: holders_def)

lemma holders_iff: "lk_pc s p = Holding \<longleftrightarrow> p \<in> holders s"
  by (simp add: holders_def)

lemma lock_step_inv:
  assumes "lock_step s s'" "lock_inv s" shows "lock_inv s'"
  using assms(1)
proof (cases rule: lock_step.cases)
  case (unlock p)
  then have "p \<in> holders s" by (simp add: holders_iff)
  then show ?thesis using unlock(1) assms(2) by (auto simp: lock_inv_def)
next
  case (call_lock p)
  then have "p \<notin> holders s" by (simp flip: holders_iff)
  then show ?thesis using call_lock(1) assms(2) by (simp add: lock_inv_def)
next
  case (cas_fail p)
  then have "p \<notin> holders s" by (simp flip: holders_iff)
  then show ?thesis using cas_fail(1) assms(2) by (simp add: lock_inv_def)
next
  case (spin_free p)
  then have "p \<notin> holders s" by (simp flip: holders_iff)
  then show ?thesis using spin_free(1) assms(2) by (simp add: lock_inv_def)
qed (use assms(2) in \<open>simp_all add: lock_inv_def\<close>)

lemma lock_reachable_inv: "lock_step\<^sup>*\<^sup>* lock_new s \<Longrightarrow> lock_inv s"
proof (induction rule: rtranclp_induct)
  case base
  then show ?case by (simp add: lock_inv_def holders_def lock_new_def)
qed (rule lock_step_inv)

section \<open>Properties\<close>

text \<open>
  C10: channels are queues of 63 messages, and isolated. Over any sequence of sends and receives on an active
  channel, the run is that of a list with room for 63 messages: a message is accepted, at the end,
  exactly while fewer than 63 are queued, and a receive delivers the first message, or nothing exactly when
  none is queued. So what was queued followed by what was accepted is what was delivered followed by what is
  queued; \<open>pending\<close> and \<open>peek\<close> report the length, and no other channel changes.
\<close>

theorem channel_is_fifo:
  assumes inv: "ipc_inv s" and c: "unat c < MAX_CHANNELS" "ch_active (channel_at s c)"
    and run: "run_queue (\<lambda>s m. send c m s) (recv c) s ops = (s', accepted, delivered)"
  shows "run_queue (list_push 63) list_pop (channel_msgs c s) ops = (channel_msgs c s', accepted, delivered) \<and>
    channel_msgs c s @ accepted = delivered @ channel_msgs c s' \<and>
    pending c s' = length (channel_msgs c s') \<and> pending c s' \<le> 63 \<and>
    (peek c s' \<longleftrightarrow> channel_msgs c s' \<noteq> []) \<and> (\<forall>c'. c' \<noteq> c \<longrightarrow> channel_at s' c' = channel_at s c')"
proof -
  have "open_channel c s" using inv c by (simp add: open_channel_def)
  note fifo = chq.fifo [OF this run]
  then have r: "ring_inv (ch_ring (channel_at s' c))" by (simp add: open_channel_def ipc_inv_channel)
  have "\<forall>c'. c' \<noteq> c \<longrightarrow> channel_at s' c' = channel_at s c'"
    using run_queue_preserves [of "\<lambda>t. \<forall>c'. c' \<noteq> c \<longrightarrow> channel_at t c' = channel_at s c'"
        "\<lambda>s m. send c m s" "recv c" s ops] run by (simp add: channel_at_other)
  then show ?thesis
    using chq.run_reference [OF \<open>open_channel c s\<close> run] fifo c(1) ring_msgs_length [OF r]
    by (auto simp: pending_def peek_def channel_msgs_def channel_at_def)
qed

theorem channel_is_fifo_witness:
  defines "s \<equiv> fst (create_channel 7 ipc_boot)"
  shows "\<exists>s'. run_queue (\<lambda>s m. send 0 m s) (recv 0) s
      [Push (message_new 1 1), Push (message_new 1 2), Pop] =
        (s', [message_new 1 1, message_new 1 2], [message_new 1 1]) \<and>
    pending 0 s' = length (channel_msgs 0 s')"
proof -
  have s: "s = ipc_boot\<lparr>ipc_next := 1, ipc_channels := (ipc_channels ipc_boot)[0 :=
      (channel_at ipc_boot 0)\<lparr>ch_active := True, ch_owner := 7\<rparr>]\<rparr>"
    by (simp add: s_def create_channel_eq) (simp add: ipc_boot_def)
  have inv: "ipc_inv s" using ipc_step_inv [of ipc_boot "Create 7"] by (simp add: s_def)
  have c: "unat (0 :: u32) < MAX_CHANNELS" "ch_active (channel_at s 0)"
    by (simp_all add: s channel_at_def ipc_boot_def ipc_sizes)
  obtain s' acc del where run: "run_queue (\<lambda>s m. send 0 m s) (recv 0) s
      [Push (message_new 1 1), Push (message_new 1 2), Pop] = (s', acc, del)" by (metis prod_cases3)
  moreover have "acc = [message_new 1 1, message_new 1 2]" "del = [message_new 1 1]"
    using run by (auto simp: s send_def recv_def channel_at_def ipc_boot_def ipc_sizes
        ring_push_msg_def ring_pop_msg_def channel_new_def ring_new_def Let_def)
  ultimately show ?thesis using channel_is_fifo [OF inv c run] by auto
qed

text \<open>
  Channel identifiers are handed out once each and never reclaimed. From a well-formed table
  \<open>create_channel\<close> returns the next identifier and activates that channel until 32 were
  created; from then on it fails, whatever is sent, received or destroyed in between.
\<close>

theorem channels_are_never_reclaimed:
  assumes "ipc_inv s"
  shows "(ipc_next s \<noteq> 32 \<longrightarrow> (\<exists>s'. create_channel owner s = (s', Some (ipc_next s)) \<and>
      unat (ipc_next s) < MAX_CHANNELS \<and> unat (ipc_next s') = unat (ipc_next s) + 1 \<and>
      ch_active (channel_at s' (ipc_next s)) \<and> ch_owner (channel_at s' (ipc_next s)) = owner)) \<and>
    (ipc_next s = 32 \<longrightarrow> (\<exists>s'. run_events ipc_step s cs = Some s' \<and> snd (create_channel owner s') = None))"
proof (intro conjI impI)
  assume "ipc_next s \<noteq> 32"
  with create_channel_next [OF assms this] assms
  show "\<exists>s'. create_channel owner s = (s', Some (ipc_next s)) \<and>
      unat (ipc_next s) < MAX_CHANNELS \<and> unat (ipc_next s') = unat (ipc_next s) + 1 \<and>
      ch_active (channel_at s' (ipc_next s)) \<and> ch_owner (channel_at s' (ipc_next s)) = owner"
    by (simp add: create_channel_eq ipc_sizes ipc_inv_def channel_at_def)
next
  assume full: "ipc_next s = 32"
  obtain s' where s': "run_events ipc_step s cs = Some s'" "ipc_inv s'"
    using ipc_events.run_safe [OF assms] by blast
  with ipc_run_next [OF assms full] show
    "\<exists>s'. run_events ipc_step s cs = Some s' \<and> snd (create_channel owner s') = None"
    by (auto simp: create_channel_eq)
qed

theorem channels_are_never_reclaimed_witness:
  defines "s \<equiv> ipc_boot\<lparr>ipc_next := 32\<rparr>"
  shows "ipc_inv s \<and> (\<exists>s'. run_events ipc_step s [Destroy 0, Destroy 1] = Some s' \<and>
    snd (create_channel 5 s') = None)"
proof -
  have "ipc_inv s" using ipc_inv_boot by (simp add: s_def ipc_inv_def ipc_sizes)
  with channels_are_never_reclaimed [OF this, of 5 "[Destroy 0, Destroy 1]"] show ?thesis
    by (simp add: s_def)
qed

text \<open>
  Message payloads. A 64-bit value written with \<open>with_u64\<close> is read back by \<open>read_u64\<close>;
  \<open>with_bytes\<close> stores the longest prefix that fits; the payload always keeps its 56 bytes.
\<close>

theorem message_payload_roundtrip:
  assumes "length (msg_data m) = MSG_SIZE - 8"
  shows "read_u64 (with_u64 v m) = v \<and> length (msg_data (with_u64 v m)) = MSG_SIZE - 8 \<and>
    length (msg_data (with_bytes bs m)) = MSG_SIZE - 8 \<and>
    take (length bs) (msg_data (with_bytes bs m)) = take 56 bs"
  using assms from_to_le [of 8 v]
  by (simp add: read_u64_def with_u64_def with_bytes_def ipc_sizes Let_def min_def)

theorem message_payload_roundtrip_witness:
  "read_u64 (with_u64 0xDEADBEEF (message_new 1 2)) = 0xDEADBEEF"
  using message_payload_roundtrip [of "message_new 1 2" "0xDEADBEEF"] by (simp add: message_new_def)

text \<open>
  C11: the spin lock excludes. In every state reachable from a fresh lock, with any number of
  processors interleaving \<open>lock\<close>, \<open>try_lock\<close> and \<open>unlock\<close>, at most one processor holds it, and the
  word is 1 exactly while one does.
\<close>

theorem spin_lock_excludes:
  assumes "lock_step\<^sup>*\<^sup>* lock_new s"
  shows "(lk_pc s p = Holding \<and> lk_pc s q = Holding \<longrightarrow> p = q) \<and>
    lk_word s = (if \<exists>p. lk_pc s p = Holding then 1 else 0)"
  using lock_reachable_inv [OF assms] unfolding lock_inv_def holders_iff by auto

theorem spin_lock_excludes_witness:
  "\<exists>s :: bool lock_state. lock_step\<^sup>*\<^sup>* lock_new s \<and> lk_pc s True = Holding \<and> lk_word s = 1"
proof -
  let ?a = "lock_new\<lparr>lk_pc := (lk_pc lock_new)(True := Trying)\<rparr> :: bool lock_state"
  let ?s = "?a\<lparr>lk_word := 1, lk_pc := (lk_pc ?a)(True := Holding)\<rparr>"
  have "lock_step lock_new ?a" by (rule call_lock) (simp add: lock_new_def)
  moreover have "lock_step ?a ?s" by (rule cas_ok) (simp_all add: lock_new_def)
  ultimately have r: "lock_step\<^sup>*\<^sup>* lock_new ?s" by (meson converse_rtranclp_into_rtranclp rtranclp.rtrancl_refl)
  with spin_lock_excludes [OF r, of True True] show ?thesis by (intro exI [of _ ?s]) auto
qed

end
