(* ===== verification/Initrd.thy ===== *)
theory Initrd
  imports Prelude "HOL-Library.Sublist"
begin

text \<open>
  The initial ramdisk (\<open>src/kern/fs/initrd.rs\<close>, with the \<open>FileSystem\<close> interface of
  \<open>src/kern/fs/vfs.rs\<close>): a tar archive parsed into at most 64 entries, looked up by path. Strings
  are their UTF-8 bytes; the entries array and its counter are one list. \<open>None\<close> at the outside is
  a slice panic, an inner \<open>None\<close> the code's own error result.
\<close>

section \<open>Strings of the standard library\<close>

text \<open>\<open>core::str::from_utf8\<close>: the well-formed byte sequences of the Unicode standard.\<close>

definition cont :: "u8 \<Rightarrow> bool" where
  "cont b \<longleftrightarrow> 0x80 \<le> b \<and> b \<le> 0xBF"

fun utf8_valid :: "u8 list \<Rightarrow> bool" where
  "utf8_valid [] = True"
| "utf8_valid (a # as) =
     (if a < 0x80 then utf8_valid as
      else if 0xC2 \<le> a \<and> a \<le> 0xDF then
        (case as of b # bs \<Rightarrow> cont b \<and> utf8_valid bs | _ \<Rightarrow> False)
      else if 0xE0 \<le> a \<and> a \<le> 0xEF then
        (case as of b # c # cs \<Rightarrow>
           cont b \<and> cont c \<and> (a = 0xE0 \<longrightarrow> 0xA0 \<le> b) \<and> (a = 0xED \<longrightarrow> b \<le> 0x9F) \<and> utf8_valid cs
         | _ \<Rightarrow> False)
      else if 0xF0 \<le> a \<and> a \<le> 0xF4 then
        (case as of b # c # d # ds \<Rightarrow>
           cont b \<and> cont c \<and> cont d \<and> (a = 0xF0 \<longrightarrow> 0x90 \<le> b) \<and> (a = 0xF4 \<longrightarrow> b \<le> 0x8F) \<and> utf8_valid ds
         | _ \<Rightarrow> False)
      else False)"

fun trim_start_dot_slash :: "u8 list \<Rightarrow> u8 list" where
  "trim_start_dot_slash (a # b # bs) = (if a = 0x2E \<and> b = 0x2F then trim_start_dot_slash bs else a # b # bs)"
| "trim_start_dot_slash bs = bs"

definition trim_start_slash :: "u8 list \<Rightarrow> u8 list" where
  "trim_start_slash s = dropWhile (\<lambda>b. b = 0x2F) s"

definition trim_end_slash :: "u8 list \<Rightarrow> u8 list" where
  "trim_end_slash s = rev (dropWhile (\<lambda>b. b = 0x2F) (rev s))"

definition ends_with_slash :: "u8 list \<Rightarrow> bool" where
  "ends_with_slash s \<longleftrightarrow> s \<noteq> [] \<and> last s = 0x2F"

section \<open>Parsing\<close>

definition MAX_ENTRIES :: nat where "MAX_ENTRIES = 64"

record tar_entry =
  te_name :: "u8 list"
  te_data :: "u8 list"
  te_is_dir :: bool

type_synonym tar_fs = "tar_entry list"

fun octal_loop :: "u8 list \<Rightarrow> usize \<Rightarrow> usize" where
  "octal_loop [] val = val"
| "octal_loop (b # bs) val =
     (if b = 0 \<or> b = 0x20 then val else octal_loop bs (usz (val * 8 + unat (b - 0x30))))"

definition parse_octal :: "u8 list \<Rightarrow> usize" where
  "parse_octal data = octal_loop data 0"

definition header_name :: "u8 list \<Rightarrow> u8 list" where
  "header_name header = takeWhile (\<lambda>b. b \<noteq> 0) (take 100 header)"

definition size_field :: "u8 list \<Rightarrow> usize" where
  "size_field header = parse_octal (take 12 (drop 124 header))"

definition blocks_of :: "usize \<Rightarrow> usize" where
  "blocks_of sz = usz (sz + 511) div 512"

partial_function (option) parse_loop :: "u8 list \<Rightarrow> usize \<Rightarrow> tar_fs \<Rightarrow> tar_fs option option" where
  "parse_loop archive offset entries =
     (if offset + 512 \<le> length archive \<and> length entries < MAX_ENTRIES \<and> archive ! offset \<noteq> 0
      then let header = take 512 (drop offset archive)
           in if \<not> utf8_valid (header_name header) then Some None
              else let name = trim_start_dot_slash (header_name header)
                   in if name = []
                      then parse_loop archive
                             (usz (offset + (512 + blocks_of (size_field header) * 512))) entries
                      else let is_dir = (header ! 156 = 0x35 \<or> ends_with_slash name);
                               sz = (if is_dir then 0 else size_field header);
                               data_start = offset + 512
                           in do { data \<leftarrow> (if is_dir then Some [] else slice archive data_start (usz (data_start + sz)));
                                   parse_loop archive (usz (data_start + blocks_of sz * 512))
                                     (entries @ [\<lparr>te_name = name, te_data = data, te_is_dir = is_dir\<rparr>]) }
      else Some (Some entries))"

definition tar_parse :: "u8 list \<Rightarrow> tar_fs option option" where
  "tar_parse archive = parse_loop archive 0 []"

section \<open>Lookup\<close>

fun tar_find :: "tar_fs \<Rightarrow> u8 list \<Rightarrow> tar_entry option" where
  "tar_find [] path = None"
| "tar_find (e # es) path =
     (if trim_end_slash (te_name e) = trim_start_slash path then Some e else tar_find es path)"

definition tar_read :: "tar_fs \<Rightarrow> u8 list \<Rightarrow> u8 list option" where
  "tar_read fs path =
     (case tar_find fs path of None \<Rightarrow> None | Some e \<Rightarrow> if te_is_dir e then None else Some (te_data e))"

definition tar_exists :: "tar_fs \<Rightarrow> u8 list \<Rightarrow> bool" where
  "tar_exists fs path = (tar_find fs path \<noteq> None)"

text \<open>\<open>FileSystem::list\<close> of the ramdisk, and the directory iterator of the interface.\<close>

datatype file_type = File | Directory

record dir_entry =
  de_name :: "u8 list"
  de_file_type :: file_type
  de_size :: usize

record dir_iter =
  di_entries :: "dir_entry list"
  di_pos :: usize

definition dir_iter_new :: "dir_entry list \<Rightarrow> dir_iter" where
  "dir_iter_new entries = \<lparr>di_entries = entries, di_pos = 0\<rparr>"

definition dir_iter_next :: "dir_iter \<Rightarrow> dir_entry option \<times> dir_iter" where
  "dir_iter_next it =
     (if di_pos it < length (di_entries it)
      then (Some (di_entries it ! di_pos it), it\<lparr>di_pos := di_pos it + 1\<rparr>)
      else (None, it))"

definition tar_list :: "tar_fs \<Rightarrow> u8 list \<Rightarrow> dir_iter option" where
  "tar_list fs path = None"

text \<open>The callback is a function on the caller's state.\<close>

fun for_each_matching ::
  "tar_fs \<Rightarrow> u8 list \<Rightarrow> u8 list \<Rightarrow> (u8 list \<Rightarrow> u8 list \<Rightarrow> 's \<Rightarrow> 's) \<Rightarrow> 's \<Rightarrow> 's" where
  "for_each_matching [] pre suf f s = s"
| "for_each_matching (e # es) pre suf f s =
     (let name = trim_end_slash (te_name e)
      in for_each_matching es pre suf f
           (if \<not> te_is_dir e \<and> prefix (trim_start_slash pre) name \<and> suffix suf name
            then f name (te_data e) s else s))"

section \<open>The interface\<close>

text \<open>What a client of \<open>FileSystem\<close> relies on: a path that can be read exists.\<close>

locale file_system =
  fixes fs_read :: "'fs \<Rightarrow> u8 list \<Rightarrow> u8 list option" and fs_exists :: "'fs \<Rightarrow> u8 list \<Rightarrow> bool"
  assumes readable_exists: "fs_read fs path = Some data \<Longrightarrow> fs_exists fs path"
begin

lemma missing_is_unreadable: "\<not> fs_exists fs path \<Longrightarrow> fs_read fs path = None"
  using readable_exists by (cases "fs_read fs path") auto

end

interpretation tarfs: file_system tar_read tar_exists
  by unfold_locales (auto simp: tar_read_def tar_exists_def split: option.splits)

text \<open>The iterator yields the entries in order, then \<open>None\<close> for ever.\<close>

fun dir_iter_take :: "nat \<Rightarrow> dir_iter \<Rightarrow> dir_entry option list" where
  "dir_iter_take 0 it = []"
| "dir_iter_take (Suc n) it = (let (e, it') = dir_iter_next it in e # dir_iter_take n it')"

lemma dir_iter_take_from:
  "dir_iter_take n \<lparr>di_entries = es, di_pos = p\<rparr> =
     map (\<lambda>i. if i < length es then Some (es ! i) else None) [p..<p + n]"
proof (induction n arbitrary: p)
  case (Suc n)
  let ?f = "\<lambda>i. if i < length es then Some (es ! i) else None"
  have none: "map ?f [q..<q + m] = replicate m None" if "length es \<le> q" for q m
    using that by (intro nth_equalityI) auto
  have "[p..<p + Suc n] = p # [Suc p..<Suc p + n]" by (subst upt_conv_Cons) simp_all
  then show ?case
    using Suc.IH [of "Suc p"] Suc.IH [of p] none [of p n] none [of "Suc p" n]
    by (cases "p < length es") (simp_all add: dir_iter_next_def)
qed simp

section \<open>Numbers\<close>

lemma octal_loop_bound:
  "v + 37 \<le> 37 * 8 ^ n \<Longrightarrow> 37 * 8 ^ (n + length bs) < (2 :: nat) ^ 64 \<Longrightarrow>
   octal_loop bs v + 37 \<le> 37 * 8 ^ (n + length bs)"
proof (induction bs arbitrary: v n)
  case (Cons b bs)
  have mono: "(8::nat) ^ n \<le> 8 ^ (n + length (b # bs))" "(8::nat) ^ Suc n \<le> 8 ^ (n + length (b # bs))"
    by (rule power_increasing; simp)+
  show ?case
  proof (cases "b = 0 \<or> b = 0x20")
    case True
    then show ?thesis using Cons.prems(1) mono(1) by auto
  next
    case False
    have "unat (b - 0x30) < 256" using unsigned_less [where 'a = nat, of "b - 0x30"] by simp
    then have step: "(v * 8 + unat (b - 0x30)) + 37 \<le> 37 * 8 ^ Suc n" using Cons.prems(1) by simp
    then have "v * 8 + unat (b - 0x30) < 2 ^ 64" using mono(2) Cons.prems(2) by linarith
    then show ?thesis using False Cons.IH [OF step] Cons.prems(2) by simp
  qed
qed simp

lemma size_field_bound: "size_field header < 2 ^ 42"
  using octal_loop_bound [of 0 0 "take 12 (drop 124 header)"]
    power_increasing [of "length (take 12 (drop 124 header))" 12 "8::nat"]
  by (simp add: size_field_def parse_octal_def)

lemma blocks_of_eq: "n < 2 ^ 42 \<Longrightarrow> blocks_of n = (n + 511) div 512"
  by (simp add: blocks_of_def)

lemma blocks_cover: "n \<le> (n + 511) div 512 * 512" "(n + 511) div 512 * 512 < n + 512" for n :: nat
  by simp_all

text \<open>Octal numbers are printed most significant digit first.\<close>

fun octal :: "nat \<Rightarrow> nat \<Rightarrow> u8 list" where
  "octal 0 n = []"
| "octal (Suc k) n = octal k (n div 8) @ [0x30 + of_nat (n mod 8)]"

lemma length_octal [simp]: "length (octal k n) = k"
  by (induction k arbitrary: n) simp_all

lemma octal_byte:
  assumes "d < 8"
  shows "(0x30 + of_nat d :: u8) \<noteq> 0" "(0x30 + of_nat d :: u8) \<noteq> 0x20" "unat ((0x30 + of_nat d :: u8) - 0x30) = d"
proof -
  have "d \<in> {0, 1, 2, 3, 4, 5, 6, 7}" using assms unfolding insert_iff empty_iff by presburger
  then show "(0x30 + of_nat d :: u8) \<noteq> 0" "(0x30 + of_nat d :: u8) \<noteq> 0x20"
    "unat ((0x30 + of_nat d :: u8) - 0x30) = d" by auto
qed

lemma octal_loop_octal:
  "n < 8 ^ k \<Longrightarrow> k \<le> 20 \<Longrightarrow> octal_loop (octal k n @ bs) 0 = octal_loop bs n"
proof (induction k arbitrary: n bs)
  case (Suc k)
  have n: "n div 8 < 8 ^ k" using Suc.prems(1) by (simp add: less_mult_imp_div_less mult.commute)
  have "n < 2 ^ 64"
    using Suc.prems power_increasing [of "Suc k" 20 "8::nat"] by simp
  moreover have "n div 8 * 8 + n mod 8 = n" by simp
  ultimately show ?case
    using Suc.IH [OF n, of "[0x30 + of_nat (n mod 8)] @ bs"] Suc.prems(2) octal_byte [of "n mod 8"]
    by simp
qed simp

lemma parse_octal_field:
  assumes "n < 8 ^ 11" shows "parse_octal (octal 11 n @ [0]) = n"
  using octal_loop_octal [of n 11 "[0]"] assms by (simp add: parse_octal_def)

section \<open>One step of the loop\<close>

text \<open>A Rust slice is shorter than \<open>2 ^ 63\<close> bytes, so no offset of the loop wraps.\<close>

definition header_at :: "u8 list \<Rightarrow> nat \<Rightarrow> u8 list" where
  "header_at archive offset = take 512 (drop offset archive)"

definition more :: "u8 list \<Rightarrow> nat \<Rightarrow> tar_fs \<Rightarrow> bool" where
  "more archive offset entries \<longleftrightarrow>
     offset + 512 \<le> length archive \<and> length entries < MAX_ENTRIES \<and> archive ! offset \<noteq> 0"

definition entry_name :: "u8 list \<Rightarrow> u8 list" where
  "entry_name header = trim_start_dot_slash (header_name header)"

definition entry_is_dir :: "u8 list \<Rightarrow> bool" where
  "entry_is_dir header \<longleftrightarrow> header ! 156 = 0x35 \<or> ends_with_slash (entry_name header)"

definition entry_size :: "u8 list \<Rightarrow> nat" where
  "entry_size header = (if entry_name header \<noteq> [] \<and> entry_is_dir header then 0 else size_field header)"

definition next_offset :: "u8 list \<Rightarrow> nat \<Rightarrow> nat" where
  "next_offset header offset = offset + 512 + (entry_size header + 511) div 512 * 512"

lemma parse_stop: "\<not> more archive offset es \<Longrightarrow> parse_loop archive offset es = Some (Some es)"
  by (subst parse_loop.simps) (auto simp: more_def)

lemma parse_step:
  assumes len: "length archive < 2 ^ 63" and m: "more archive offset es"
  defines "h \<equiv> header_at archive offset"
  shows "parse_loop archive offset es =
    (if \<not> utf8_valid (header_name h) then Some None
     else if entry_name h = [] then parse_loop archive (next_offset h offset) es
     else if entry_is_dir h then parse_loop archive (next_offset h offset)
            (es @ [\<lparr>te_name = entry_name h, te_data = [], te_is_dir = True\<rparr>])
     else do { data \<leftarrow> slice archive (offset + 512) (offset + 512 + size_field h);
               parse_loop archive (next_offset h offset)
                 (es @ [\<lparr>te_name = entry_name h, te_data = data, te_is_dir = False\<rparr>]) })"
proof -
  have off: "offset < 2 ^ 63" using len m by (simp add: more_def)
  have sz: "size_field h < 2 ^ 42" by (rule size_field_bound)
  have blk: "(size_field h + 511) div 512 * 512 < 2 ^ 43" using sz by simp
  have wrap: "usz (offset + (512 + blocks_of (size_field h) * 512)) = offset + 512 + (size_field h + 511) div 512 * 512"
    "usz (offset + 512 + blocks_of (size_field h) * 512) = offset + 512 + (size_field h + 511) div 512 * 512"
    "usz (offset + 512 + size_field h) = offset + 512 + size_field h"
    "usz (offset + 512) = offset + 512"
    unfolding blocks_of_eq [OF sz] using off blk sz by simp_all
  show ?thesis
    apply (subst parse_loop.simps)
    using m wrap unfolding h_def [unfolded header_at_def, symmetric] more_def
    by (simp add: Let_def next_offset_def entry_size_def entry_is_dir_def entry_name_def blocks_of_def [of 0])
qed

lemma next_offset_less: "offset < next_offset h offset"
  by (simp add: next_offset_def)

section \<open>The archive format\<close>

text \<open>What an archiver writes for a regular file: a 512-byte header and the padded contents.\<close>

definition header_bytes :: "u8 list \<Rightarrow> nat \<Rightarrow> u8 list" where
  "header_bytes name n =
     name @ replicate (100 - length name) 0 @ replicate 24 0x30 @ octal 11 n @ [0] @
     replicate 20 0 @ [0x30] @ replicate 355 0"

definition padding :: "nat \<Rightarrow> nat" where
  "padding n = (n + 511) div 512 * 512 - n"

fun tar_bytes :: "(u8 list \<times> u8 list) list \<Rightarrow> u8 list" where
  "tar_bytes [] = replicate 1024 0"
| "tar_bytes ((name, data) # fs) =
     header_bytes name (length data) @ data @ replicate (padding (length data)) 0 @ tar_bytes fs"

definition file_ok :: "u8 list \<times> u8 list \<Rightarrow> bool" where
  "file_ok f \<longleftrightarrow> fst f \<noteq> [] \<and> length (fst f) \<le> 100 \<and> 0 \<notin> set (fst f) \<and> utf8_valid (fst f) \<and>
     \<not> prefix [0x2E, 0x2F] (fst f) \<and> \<not> ends_with_slash (fst f) \<and> length (snd f) < 8 ^ 11"

lemma length_header [simp]: "length name \<le> 100 \<Longrightarrow> length (header_bytes name n) = 512"
  by (simp add: header_bytes_def)

lemma header_fields:
  assumes "length name \<le> 100" "0 \<notin> set name"
  shows "header_name (header_bytes name n) = name" "header_bytes name n ! 156 = 0x30"
    "n < 8 ^ 11 \<Longrightarrow> size_field (header_bytes name n) = n"
proof -
  let ?pad = "replicate (100 - length name) (0 :: u8)"
  have "take 100 (header_bytes name n) = name @ ?pad"
    using assms(1) by (simp add: header_bytes_def)
  moreover have "takeWhile (\<lambda>b. b \<noteq> 0) (name @ ?pad) = name @ takeWhile (\<lambda>b. b \<noteq> 0) ?pad"
    using assms(2) by (intro takeWhile_append2) auto
  moreover have "takeWhile (\<lambda>b. b \<noteq> 0) ?pad = []" by (cases "100 - length name") simp_all
  ultimately show "header_name (header_bytes name n) = name" by (simp add: header_name_def)
  have split: "header_bytes name n = (name @ ?pad @ replicate 24 0x30) @ (octal 11 n @ [0]) @
      replicate 20 0 @ 0x30 # replicate 355 0"
    by (simp add: header_bytes_def)
  have "take 12 (drop 124 (header_bytes name n)) = octal 11 n @ [0]"
    unfolding split using assms(1) by (simp del: append_assoc)
  then show "n < 8 ^ 11 \<Longrightarrow> size_field (header_bytes name n) = n"
    by (simp add: size_field_def parse_octal_field)
  have split2: "header_bytes name n = (name @ ?pad @ replicate 24 0x30 @ octal 11 n @ [0] @ replicate 20 0) @
      0x30 # replicate 355 0"
    by (simp add: header_bytes_def)
  show "header_bytes name n ! 156 = 0x30"
    unfolding split2 using assms(1) by (subst nth_append) simp
qed

lemma trim_no_prefix: "\<not> prefix [0x2E, 0x2F] name \<Longrightarrow> trim_start_dot_slash name = name"
  by (cases name rule: trim_start_dot_slash.cases) auto

definition file_entry :: "u8 list \<times> u8 list \<Rightarrow> tar_entry" where
  "file_entry f = \<lparr>te_name = fst f, te_data = snd f, te_is_dir = False\<rparr>"

lemma parse_tar_bytes:
  "list_all file_ok fs \<Longrightarrow> length es + length fs \<le> 64 \<Longrightarrow> length (pre @ tar_bytes fs) < 2 ^ 63 \<Longrightarrow>
   parse_loop (pre @ tar_bytes fs) (length pre) es = Some (Some (es @ map file_entry fs))"
proof (induction fs arbitrary: pre es)
  case Nil
  have "\<not> more (pre @ tar_bytes []) (length pre) es" by (simp add: more_def nth_append)
  from parse_stop [OF this] show ?case by simp
next
  case (Cons f fs)
  obtain name data where f: "f = (name, data)" by fastforce
  let ?h = "header_bytes name (length data)" and ?pad = "replicate (padding (length data)) (0 :: u8)"
  let ?a = "pre @ tar_bytes (f # fs)"
  have ok: "name \<noteq> []" "length name \<le> 100" "0 \<notin> set name" "utf8_valid name"
    "\<not> prefix [0x2E, 0x2F] name" "\<not> ends_with_slash name" "length data < 8 ^ 11"
    using Cons.prems(1) by (simp_all add: f file_ok_def)
  have bytes: "?a = pre @ ?h @ data @ ?pad @ tar_bytes fs" by (simp add: f)
  have h: "header_at ?a (length pre) = ?h"
    unfolding bytes header_at_def using ok(2) by simp
  note fields = header_fields [OF ok(2,3), of "length data"]
  have first: "?a ! length pre \<noteq> 0"
    using ok(1,3) unfolding bytes by (cases name) (auto simp: header_bytes_def nth_append)
  have "more ?a (length pre) es"
    using first Cons.prems(2) ok(2) by (simp add: more_def MAX_ENTRIES_def bytes)
  note step = parse_step [OF Cons.prems(3) this, unfolded h]
  have name: "entry_name ?h = name" by (simp add: entry_name_def fields trim_no_prefix ok)
  have is_file: "\<not> entry_is_dir ?h" by (simp add: entry_is_dir_def fields name ok)
  have size: "entry_size ?h = length data" by (simp add: entry_size_def name is_file fields(3) [OF ok(7)] ok(1))
  have cover: "length data \<le> (length data + 511) div 512 * 512" by (rule blocks_cover)
  then have nxt: "next_offset ?h (length pre) = length (pre @ ?h @ data @ ?pad)"
    using ok(2) by (simp add: next_offset_def size padding_def)
  have data: "slice ?a (length pre + 512) (length pre + 512 + size_field ?h) = Some data"
    using ok(2) unfolding bytes slice_def fields(3) [OF ok(7)] by simp
  have again: "?a = (pre @ ?h @ data @ ?pad) @ tar_bytes fs" by (simp add: f)
  have "parse_loop ?a (length pre) es =
      parse_loop ?a (length (pre @ ?h @ data @ ?pad)) (es @ [file_entry f])"
    using step [unfolded data nxt Option.bind_lunit] ok(1,4) is_file
    by (simp add: fields(1) name f file_entry_def)
  also have "\<dots> = Some (Some ((es @ [file_entry f]) @ map file_entry fs))"
    unfolding again using Cons.prems again by (intro Cons.IH) auto
  finally show ?case by simp
qed

section \<open>Every archive\<close>

text \<open>A header whose size field reaches past the end of the archive.\<close>

definition overrun :: "u8 list \<Rightarrow> nat \<Rightarrow> bool" where
  "overrun archive offset \<longleftrightarrow> offset + 512 \<le> length archive \<and>
     length archive < offset + 512 + size_field (header_at archive offset)"

definition entry_ok :: "u8 list \<Rightarrow> tar_entry \<Rightarrow> bool" where
  "entry_ok archive e \<longleftrightarrow> te_name e \<noteq> [] \<and> (te_is_dir e \<longrightarrow> te_data e = []) \<and>
     (\<exists>o1 n. o1 + n \<le> length archive \<and> te_data e = take n (drop o1 archive))"

lemma parse_total:
  assumes len: "length archive < 2 ^ 63" and fit: "\<And>offset. \<not> overrun archive offset"
  shows "list_all (entry_ok archive) es \<Longrightarrow> length es \<le> 64 \<Longrightarrow>
    \<exists>r. parse_loop archive offset es = Some r \<and>
      (\<forall>fs. r = Some fs \<longrightarrow> list_all (entry_ok archive) fs \<and> length fs \<le> 64 \<and> prefix es fs)"
proof (induction "length archive - offset" arbitrary: offset es rule: less_induct)
  case less
  show ?case
  proof (cases "more archive offset es")
    case False
    then show ?thesis using less.prems by (simp add: parse_stop)
  next
    case True
    let ?h = "header_at archive offset" and ?n = "next_offset (header_at archive offset) offset"
    have dec: "length archive - ?n < length archive - offset"
      using True next_offset_less [of offset ?h] unfolding more_def by linarith
    have room: "length es < 64" using True by (simp add: more_def MAX_ENTRIES_def)
    have rec: "\<exists>r. parse_loop archive ?n (es @ [e]) = Some r \<and>
        (\<forall>fs. r = Some fs \<longrightarrow> list_all (entry_ok archive) fs \<and> length fs \<le> 64 \<and> prefix es fs)"
      if "entry_ok archive e" for e
      using less.hyps [OF dec, of "es @ [e]"] less.prems that room by (auto dest: append_prefixD)
    note step = parse_step [OF len True]
    have fits: "offset + 512 + size_field ?h \<le> length archive"
      using fit [of offset] True by (auto simp: overrun_def more_def)
    then have sl: "slice archive (offset + 512) (offset + 512 + size_field ?h) =
        Some (take (size_field ?h) (drop (offset + 512) archive))"
      by (simp add: slice_def)
    have is_file: "entry_ok archive \<lparr>te_name = entry_name ?h,
        te_data = take (size_field ?h) (drop (offset + 512) archive), te_is_dir = False\<rparr>"
      if "entry_name ?h \<noteq> []"
      unfolding entry_ok_def tar_entry.select_convs using that fits by blast
    have dir: "entry_ok archive \<lparr>te_name = entry_name ?h, te_data = [], te_is_dir = True\<rparr>"
      if "entry_name ?h \<noteq> []"
      using that by (auto simp: entry_ok_def intro!: exI [of _ 0])
    consider "\<not> utf8_valid (header_name ?h)" | "utf8_valid (header_name ?h)" "entry_name ?h = []"
      | "utf8_valid (header_name ?h)" "entry_name ?h \<noteq> []" by blast
    then show ?thesis
    proof cases
      case 2
      then show ?thesis using step less.hyps [OF dec less.prems] by simp
    next
      case 3
      then show ?thesis using step rec [OF is_file] rec [OF dir] sl by auto
    qed (simp add: step)
  qed
qed

section \<open>Properties\<close>



text \<open>
  Parsing any archive. If no header's size field reaches past the end, parsing returns (the
  loop ends and no slice panics), with at most 64 entries; every entry has a name, and its contents
  are a piece of the archive.
\<close>

theorem initrd_parse_returns:
  assumes "length archive < 2 ^ 63" and "\<forall>offset. \<not> overrun archive offset"
  shows "\<exists>r. tar_parse archive = Some r \<and> (\<forall>fs. r = Some fs \<longrightarrow> length fs \<le> 64 \<and>
    (\<forall>e\<in>set fs. te_name e \<noteq> [] \<and>
       (\<exists>o1 n. o1 + n \<le> length archive \<and> te_data e = take n (drop o1 archive))))"
  using parse_total [OF assms(1), of "[]" 0] assms(2)
  by (fastforce simp: tar_parse_def list_all_iff entry_ok_def)

theorem initrd_parse_returns_witness:
  "\<exists>r. tar_parse (replicate 600 0) = Some r"
proof -
  have "size_field (header_at (replicate 600 0) i) = 0" for i
    by (cases "min 12 (min 512 (600 - i) - 124)") (simp_all add: size_field_def parse_octal_def header_at_def)
  then have "\<forall>i. \<not> overrun (replicate 600 0) i" by (simp add: overrun_def)
  then show ?thesis using initrd_parse_returns [of "replicate 600 0"] by fastforce
qed

text \<open>
  A truncated archive panics. If the file header at the start of the archive claims more bytes
  than the archive holds, \<open>parse\<close> does not return an error but panics on the slice.
\<close>

theorem truncated_initrd_panics:
  assumes "file_ok (name, data)" and "kept < length data"
  shows "tar_parse (header_bytes name (length data) @ take kept data) = None"
proof -
  let ?h = "header_bytes name (length data)" let ?a = "?h @ take kept data"
  have ok: "name \<noteq> []" "length name \<le> 100" "0 \<notin> set name" "utf8_valid name"
    "\<not> prefix [0x2E, 0x2F] name" "\<not> ends_with_slash name" "length data < 8 ^ 11"
    using assms(1) by (simp_all add: file_ok_def)
  note fields = header_fields [OF ok(2,3), of "length data"]
  have h: "header_at ?a 0 = ?h" using ok(2) by (simp add: header_at_def)
  have "more ?a 0 []"
    using ok by (cases name) (auto simp: more_def MAX_ENTRIES_def header_bytes_def)
  moreover have "length ?a < 2 ^ 63" using ok(2,7) assms(2) by simp
  moreover have "entry_name ?h = name" by (simp add: entry_name_def fields trim_no_prefix ok)
  moreover have "slice ?a (0 + 512) (0 + 512 + size_field ?h) = None"
    using ok(2) assms(2) by (simp add: slice_def fields(3) [OF ok(7)])
  ultimately show ?thesis
    using parse_step [of ?a 0 "[]"] ok by (simp add: tar_parse_def h fields entry_is_dir_def)
qed

theorem truncated_initrd_panics_witness:
  "tar_parse (header_bytes [0x61] 3 @ [1, 2]) = None"
  using truncated_initrd_panics [of "[0x61]" "[1, 2, 3]" 2]
  by (simp add: file_ok_def ends_with_slash_def numeral_3_eq_3)

end
