(* ===== verification/Elf.thy ===== *)
theory Elf
  imports Prelude
begin

text \<open>
  The ELF loader (\<open>src/kern/crates/avaria-elf\<close>: \<open>header.rs\<close> and \<open>loader.rs\<close>). The image and the
  destination are byte lists, the destination's address is the argument \<open>base\<close>. The code's
  \<open>Result\<close> is the sum of \<open>elf_error\<close> and the value; around it, \<open>None\<close> is a slice panic or, for the
  program header slice, an access outside the image. The destination is part of the result because
  the loader writes to it before it reports some of its errors. \<open>LoadedElf::call\<close> and \<open>jump\<close> are
  control transfers into loaded code and are not modelled.
\<close>

section \<open>Headers\<close>

definition ELF_MAGIC :: "u8 list" where "ELF_MAGIC = [0x7F, 0x45, 0x4C, 0x46]"
definition ELFCLASS64 :: u8 where "ELFCLASS64 = 2"
definition ELFDATA2LSB :: u8 where "ELFDATA2LSB = 1"
definition ET_EXEC :: u16 where "ET_EXEC = 2"
definition ET_DYN :: u16 where "ET_DYN = 3"
definition EM_X86_64 :: u16 where "EM_X86_64 = 62"
definition PT_LOAD :: u32 where "PT_LOAD = 1"

record elf64_header =
  e_ident :: "u8 list"
  e_type :: u16
  e_machine :: u16
  e_version :: u32
  e_entry :: u64
  e_phoff :: u64
  e_shoff :: u64
  e_flags :: u32
  e_ehsize :: u16
  e_phentsize :: u16
  e_phnum :: u16
  e_shentsize :: u16
  e_shnum :: u16
  e_shstrndx :: u16

record elf64_phdr =
  p_type :: u32
  p_flags :: u32
  p_offset :: u64
  p_vaddr :: u64
  p_paddr :: u64
  p_filesz :: u64
  p_memsz :: u64
  p_align :: u64

datatype elf_error =
  TooSmall | BadMagic | Not64Bit | NotLittleEndian | NotExecutable | NotX86_64 | BadPhdr

text \<open>A \<open>repr(C)\<close> field of \<open>n\<close> bytes at an offset, in the processor's byte order.\<close>

definition field_at :: "nat \<Rightarrow> nat \<Rightarrow> u8 list \<Rightarrow> 'a::len word" where
  "field_at n off bs = from_le (take n (drop off bs))"

definition header_of :: "u8 list \<Rightarrow> elf64_header" where
  "header_of bs =
     \<lparr>e_ident = take 16 bs, e_type = field_at 2 16 bs, e_machine = field_at 2 18 bs,
      e_version = field_at 4 20 bs, e_entry = field_at 8 24 bs, e_phoff = field_at 8 32 bs,
      e_shoff = field_at 8 40 bs, e_flags = field_at 4 48 bs, e_ehsize = field_at 2 52 bs,
      e_phentsize = field_at 2 54 bs, e_phnum = field_at 2 56 bs, e_shentsize = field_at 2 58 bs,
      e_shnum = field_at 2 60 bs, e_shstrndx = field_at 2 62 bs\<rparr>"

definition phdr_of :: "u8 list \<Rightarrow> elf64_phdr" where
  "phdr_of bs =
     \<lparr>p_type = field_at 4 0 bs, p_flags = field_at 4 4 bs, p_offset = field_at 8 8 bs,
      p_vaddr = field_at 8 16 bs, p_paddr = field_at 8 24 bs, p_filesz = field_at 8 32 bs,
      p_memsz = field_at 8 40 bs, p_align = field_at 8 48 bs\<rparr>"

definition HEADER_SIZE :: usize where "HEADER_SIZE = 64"
definition PHDR_SIZE :: usize where "PHDR_SIZE = 56"

definition parse_header :: "u8 list \<Rightarrow> elf_error + elf64_header" where
  "parse_header data =
     (if length data < HEADER_SIZE then Inl TooSmall
      else let hdr = header_of data
           in if take 4 (e_ident hdr) \<noteq> ELF_MAGIC then Inl BadMagic
              else if e_ident hdr ! 4 \<noteq> ELFCLASS64 then Inl Not64Bit
              else if e_ident hdr ! 5 \<noteq> ELFDATA2LSB then Inl NotLittleEndian
              else if e_type hdr \<noteq> ET_EXEC \<and> e_type hdr \<noteq> ET_DYN then Inl NotExecutable
              else if e_machine hdr \<noteq> EM_X86_64 then Inl NotX86_64
              else Inr hdr)"

text \<open>The slice the function returns: its offset from the start of the image and its length.\<close>

definition program_headers :: "u8 list \<Rightarrow> elf64_header \<Rightarrow> elf_error + (usize \<times> usize)" where
  "program_headers data hdr =
     (let off = unat (e_phoff hdr); count = unat (e_phnum hdr); entry_size = unat (e_phentsize hdr);
          total_sz = usz (off + count * entry_size)
      in if total_sz > length data \<or> entry_size < PHDR_SIZE then Inl BadPhdr else Inr (off, count))"

text \<open>Reading the elements of that slice; outside the image the access is undefined.\<close>

definition phdr_at :: "u8 list \<Rightarrow> usize \<Rightarrow> nat \<Rightarrow> elf64_phdr" where
  "phdr_at data off i = phdr_of (take PHDR_SIZE (drop (off + i * PHDR_SIZE) data))"

definition phdrs_in :: "u8 list \<Rightarrow> usize \<times> usize \<Rightarrow> elf64_phdr list option" where
  "phdrs_in data s =
     (case s of (off, count) \<Rightarrow>
        if off + count * PHDR_SIZE \<le> length data then Some (map (phdr_at data off) [0..<count]) else None)"

section \<open>Loading\<close>

record loaded_elf =
  le_entry :: u64
  le_load_base :: u64
  le_load_size :: usize

fun vaddr_range :: "elf64_phdr list \<Rightarrow> u64 \<times> u64 \<Rightarrow> u64 \<times> u64" where
  "vaddr_range [] (lo, hi) = (lo, hi)"
| "vaddr_range (p # ps) (lo, hi) =
     (if p_type p \<noteq> PT_LOAD then vaddr_range ps (lo, hi)
      else let lo' = (if p_vaddr p < lo then p_vaddr p else lo);
               end_va = p_vaddr p + p_memsz p;
               hi' = (if end_va > hi then end_va else hi)
           in vaddr_range ps (lo', hi'))"

text \<open>\<open>buffer[lo..hi].copy_from_slice(src)\<close> for a source of the same length\<close>

definition blit :: "u8 list \<Rightarrow> usize \<Rightarrow> usize \<Rightarrow> u8 list \<Rightarrow> u8 list option" where
  "blit buffer lo hi src =
     (if lo \<le> hi \<and> hi \<le> length buffer \<and> length src = hi - lo
      then Some (take lo buffer @ src @ drop hi buffer) else None)"

fun copy_segments ::
  "u8 list \<Rightarrow> u64 \<Rightarrow> elf64_phdr list \<Rightarrow> u8 list \<Rightarrow> (u8 list \<times> elf_error option) option" where
  "copy_segments data vaddr_min [] buffer = Some (buffer, None)"
| "copy_segments data vaddr_min (p # ps) buffer =
     (if p_type p \<noteq> PT_LOAD then copy_segments data vaddr_min ps buffer
      else let src_off = unat (p_offset p); filesz = unat (p_filesz p);
               dst_off = unat (p_vaddr p - vaddr_min)
           in if usz (src_off + filesz) > length data then Some (buffer, Some BadPhdr)
              else do { src \<leftarrow> slice data src_off (usz (src_off + filesz));
                        buffer' \<leftarrow> blit buffer dst_off (usz (dst_off + filesz)) src;
                        copy_segments data vaddr_min ps buffer' })"

definition load_segments ::
  "u8 list \<Rightarrow> elf64_header \<Rightarrow> elf64_phdr list \<Rightarrow> u64 \<Rightarrow> u8 list \<Rightarrow>
   (u8 list \<times> (elf_error + loaded_elf)) option" where
  "load_segments data hdr phdrs base buffer =
     (let (vaddr_min, vaddr_max) = vaddr_range phdrs (- 1, 0)
      in if vaddr_min = - 1 then Some (buffer, Inl BadPhdr)
         else let total_size = unat (vaddr_max - vaddr_min)
              in if total_size > length buffer then Some (buffer, Inl BadPhdr)
                 else do { (buffer', e) \<leftarrow> copy_segments data vaddr_min phdrs
                                           (replicate total_size 0 @ drop total_size buffer);
                           Some (buffer', case e of
                               Some err \<Rightarrow> Inl err
                             | None \<Rightarrow> Inr \<lparr>le_entry = e_entry hdr + (base - vaddr_min),
                                           le_load_base = base, le_load_size = total_size\<rparr>) })"

definition load_at :: "u8 list \<Rightarrow> u64 \<Rightarrow> u8 list \<Rightarrow> (u8 list \<times> (elf_error + loaded_elf)) option" where
  "load_at data base buffer =
     (case parse_header data of
        Inl e \<Rightarrow> Some (buffer, Inl e)
      | Inr hdr \<Rightarrow>
          (case program_headers data hdr of
             Inl e \<Rightarrow> Some (buffer, Inl e)
           | Inr s \<Rightarrow> do { phdrs \<leftarrow> phdrs_in data s; load_segments data hdr phdrs base buffer }))"

section \<open>The address range\<close>

definition loads :: "elf64_phdr list \<Rightarrow> elf64_phdr list" where
  "loads ps = filter (\<lambda>p. p_type p = PT_LOAD) ps"

lemma loads_simps [simp]:
  "loads [] = []" "loads (p # ps) = (if p_type p = PT_LOAD then p # loads ps else loads ps)"
  by (simp_all add: loads_def)

lemma set_loads: "p \<in> set (loads ps) \<longleftrightarrow> p \<in> set ps \<and> p_type p = PT_LOAD"
  by (auto simp: loads_def)

lemma vaddr_range_fold:
  "vaddr_range ps (lo, hi) =
     (fold min (map p_vaddr (loads ps)) lo, fold max (map (\<lambda>p. p_vaddr p + p_memsz p) (loads ps)) hi)"
  by (induction ps "(lo, hi)" arbitrary: lo hi rule: vaddr_range.induct)
    (auto simp: Let_def min_def max_def not_le not_less intro!: arg_cong2 [where f = fold] split: if_splits)

lemma fold_min_Min: "fold min xs (x :: 'a::linorder) = Min (set (x # xs))"
  by (rule Min.set_eq_fold [symmetric])

lemma fold_max_Max: "fold max xs (x :: 'a::linorder) = Max (set (x # xs))"
  by (rule Max.set_eq_fold [symmetric])

text \<open>The range of an image with at least one segment, none of which wraps around.\<close>

definition image_lo :: "elf64_phdr list \<Rightarrow> u64" where
  "image_lo ps = Min (set (map p_vaddr (loads ps)))"

definition image_hi :: "elf64_phdr list \<Rightarrow> u64" where
  "image_hi ps = Max (set (map (\<lambda>p. p_vaddr p + p_memsz p) (loads ps)))"

lemma vaddr_range_image:
  assumes "loads ps \<noteq> []"
  shows "vaddr_range ps (- 1, 0) = (image_lo ps, image_hi ps)"
  unfolding vaddr_range_fold fold_min_Min fold_max_Max
  using assms by (simp add: image_lo_def image_hi_def min_def max_def word_order.extremum_unique)

section \<open>Copying\<close>

definition dst :: "u64 \<Rightarrow> elf64_phdr \<Rightarrow> nat" where
  "dst lo p = unat (p_vaddr p - lo)"

definition covers :: "u64 \<Rightarrow> nat \<Rightarrow> elf64_phdr \<Rightarrow> bool" where
  "covers lo j p \<longleftrightarrow> p_type p = PT_LOAD \<and> dst lo p \<le> j \<and> j < dst lo p + unat (p_filesz p)"

text \<open>The byte the image puts at offset \<open>j\<close>: the last segment that covers it wins.\<close>

definition image_byte :: "u8 list \<Rightarrow> u64 \<Rightarrow> elf64_phdr list \<Rightarrow> nat \<Rightarrow> u8 \<Rightarrow> u8" where
  "image_byte data lo ps j old =
     (case find (covers lo j) (rev ps) of
        Some p \<Rightarrow> data ! (unat (p_offset p) + (j - dst lo p))
      | None \<Rightarrow> old)"

lemma find_append: "find f (xs @ ys) = (case find f xs of Some x \<Rightarrow> Some x | None \<Rightarrow> find f ys)"
  by (induction xs) auto

lemma image_byte_Cons:
  "image_byte data lo (p # ps) j old =
     image_byte data lo ps j (if covers lo j p then data ! (unat (p_offset p) + (j - dst lo p)) else old)"
  by (simp add: image_byte_def find_append split: option.split)

lemma blit_nth:
  assumes "blit b lo hi src = Some b'" "j < length b"
  shows "b' ! j = (if lo \<le> j \<and> j < hi then src ! (j - lo) else b ! j)"
  using assms by (auto simp: blit_def nth_append split: if_splits)

definition segment_fits :: "u8 list \<Rightarrow> u64 \<Rightarrow> nat \<Rightarrow> elf64_phdr \<Rightarrow> bool" where
  "segment_fits data lo n p \<longleftrightarrow> (p_type p = PT_LOAD \<longrightarrow>
     unat (p_offset p) + unat (p_filesz p) < 2 ^ 64 \<and> dst lo p + unat (p_filesz p) \<le> n)"

definition past_end :: "u8 list \<Rightarrow> elf64_phdr \<Rightarrow> bool" where
  "past_end data p \<longleftrightarrow> p_type p = PT_LOAD \<and> length data < unat (p_offset p) + unat (p_filesz p)"

lemma copy_one:
  assumes p: "p_type p = PT_LOAD" and fit: "segment_fits data lo n p" and n: "n \<le> length b" "length b < 2 ^ 63"
    and inside: "\<not> past_end data p"
  obtains b' where "copy_segments data lo (p # ps) b = copy_segments data lo ps b'" "length b' = length b"
    "\<And>j. j < length b \<Longrightarrow> b' ! j = (if covers lo j p then data ! (unat (p_offset p) + (j - dst lo p)) else b ! j)"
    "drop n b' = drop n b"
proof -
  let ?o = "unat (p_offset p)" and ?f = "unat (p_filesz p)"
  have le: "?o + ?f \<le> length data" "?o + ?f < 2 ^ 64" "dst lo p + ?f \<le> n"
    using fit inside p by (auto simp: segment_fits_def past_end_def)
  let ?src = "take ?f (drop ?o data)"
  let ?b = "take (dst lo p) b @ ?src @ drop (dst lo p + ?f) b"
  have src: "slice data ?o (usz (?o + ?f)) = Some ?src"
    using le by (simp add: slice_def)
  have blt: "blit b (dst lo p) (usz (dst lo p + ?f)) ?src = Some ?b"
    using le n by (simp add: blit_def)
  have "copy_segments data lo (p # ps) b = copy_segments data lo ps ?b"
    using p le src blt by (simp add: Let_def flip: dst_def)
  moreover have "length ?b = length b" using le n by simp
  moreover have "?b ! j = (if covers lo j p then data ! (?o + (j - dst lo p)) else b ! j)" if "j < length b" for j
    using le n that p blit_nth [OF blt that] by (auto simp: covers_def)
  moreover have "drop n ?b = drop n b" using le n by simp
  ultimately show ?thesis using that by blast
qed

lemma copy_segments_result:
  assumes "length b < 2 ^ 63" "n \<le> length b" "list_all (segment_fits data lo n) ps"
  shows "\<exists>b' e. copy_segments data lo ps b = Some (b', e) \<and> length b' = length b \<and> drop n b' = drop n b \<and>
    e = (if list_ex (past_end data) ps then Some BadPhdr else None) \<and>
    (e = None \<longrightarrow> (\<forall>j<length b. b' ! j = image_byte data lo ps j (b ! j)))"
  using assms
proof (induction ps arbitrary: b)
  case Nil
  then show ?case by (simp add: image_byte_def)
next
  case (Cons p ps)
  have skip: "\<not> covers lo j p" "\<not> past_end data p" if "p_type p \<noteq> PT_LOAD" for j
    using that by (simp_all add: covers_def past_end_def)
  consider "p_type p \<noteq> PT_LOAD" | "p_type p = PT_LOAD" "past_end data p"
    | "p_type p = PT_LOAD" "\<not> past_end data p" by blast
  then show ?case
  proof cases
    case 1
    then show ?thesis using Cons skip by (simp add: image_byte_Cons)
  next
    case 2
    then have "usz (unat (p_offset p) + unat (p_filesz p)) > length data"
      using Cons.prems(3) by (simp add: segment_fits_def past_end_def)
    then show ?thesis using 2 by (simp add: Let_def)
  next
    case 3
    have fit: "segment_fits data lo n p" using Cons.prems(3) by simp
    obtain b1 where 1: "copy_segments data lo (p # ps) b = copy_segments data lo ps b1" "length b1 = length b"
      "\<And>j. j < length b \<Longrightarrow> b1 ! j = (if covers lo j p then data ! (unat (p_offset p) + (j - dst lo p)) else b ! j)"
      "drop n b1 = drop n b"
      by (rule copy_one [OF 3(1) fit Cons.prems(2,1) 3(2), where ps = ps]) blast
    then show ?thesis
      using Cons.IH [of b1] Cons.prems 3(2) by (auto simp: image_byte_Cons)
  qed
qed

section \<open>Whole images\<close>

text \<open>A segment whose sizes are consistent and whose ranges do not wrap around.\<close>

definition segment_ok :: "elf64_phdr \<Rightarrow> bool" where
  "segment_ok p \<longleftrightarrow> (p_type p = PT_LOAD \<longrightarrow>
     p_filesz p \<le> p_memsz p \<and> unat (p_offset p) + unat (p_filesz p) < 2 ^ 64 \<and>
     unat (p_vaddr p) + unat (p_memsz p) < 2 ^ 64 - 1)"

definition image_span :: "elf64_phdr list \<Rightarrow> nat" where
  "image_span ps = unat (image_hi ps) - unat (image_lo ps)"

lemma segment_in_image:
  assumes ok: "list_all segment_ok ps" and p: "p \<in> set (loads ps)"
  shows "image_lo ps \<le> p_vaddr p" "unat (p_vaddr p) + unat (p_memsz p) \<le> unat (image_hi ps)"
proof -
  show "image_lo ps \<le> p_vaddr p" using p by (simp add: image_lo_def)
  have "p_vaddr p + p_memsz p \<le> image_hi ps" using p by (simp add: image_hi_def)
  moreover have "unat (p_vaddr p + p_memsz p) = unat (p_vaddr p) + unat (p_memsz p)"
    using ok p by (intro unat_add_lem [THEN iffD1]) (auto simp: list_all_iff segment_ok_def set_loads)
  ultimately show "unat (p_vaddr p) + unat (p_memsz p) \<le> unat (image_hi ps)"
    by (simp add: word_le_nat_alt)
qed

lemma image_range:
  assumes ok: "list_all segment_ok ps" and some: "loads ps \<noteq> []"
  shows "image_lo ps \<noteq> - 1" "unat (image_hi ps - image_lo ps) = image_span ps"
    "p \<in> set (loads ps) \<Longrightarrow> dst (image_lo ps) p + unat (p_filesz p) \<le> image_span ps"
proof -
  obtain p where p: "p \<in> set (loads ps)" using some by (cases "loads ps") auto
  note in_p = segment_in_image [OF ok p]
  have "unat (p_vaddr p) < 2 ^ 64 - 1" using ok p by (auto simp: list_all_iff segment_ok_def set_loads)
  then have "unat (image_lo ps) < unat (- 1 :: u64)"
    using in_p(1) unfolding word_le_nat_alt by (simp add: unsigned_minus_1_eq_mask mask_eq_exp_minus_1)
  then show "image_lo ps \<noteq> - 1" by auto
  have "image_lo ps \<le> image_hi ps" using in_p unfolding word_le_nat_alt by simp
  then show "unat (image_hi ps - image_lo ps) = image_span ps" by (simp add: image_span_def unat_sub)
next
  assume p: "p \<in> set (loads ps)"
  note in_p = segment_in_image [OF ok p]
  have "p_filesz p \<le> p_memsz p" using ok p by (auto simp: list_all_iff segment_ok_def set_loads)
  then have "unat (p_filesz p) \<le> unat (p_memsz p)" by (simp add: word_le_nat_alt)
  then show "dst (image_lo ps) p + unat (p_filesz p) \<le> image_span ps"
    using in_p by (simp add: dst_def image_span_def unat_sub word_le_nat_alt)
qed

text \<open>The errors of the segment phase, and its result.\<close>

definition bad_segments :: "u8 list \<Rightarrow> elf64_phdr list \<Rightarrow> nat \<Rightarrow> bool" where
  "bad_segments data ps n \<longleftrightarrow> loads ps = [] \<or> n < image_span ps \<or> list_ex (past_end data) ps"

definition image_at :: "u8 list \<Rightarrow> elf64_phdr list \<Rightarrow> u8 list \<Rightarrow> nat \<Rightarrow> u8" where
  "image_at data ps buffer j =
     (if j < image_span ps then image_byte data (image_lo ps) ps j 0 else buffer ! j)"

lemma not_covered: "image_byte data lo ps j old = old" if "\<And>p. p \<in> set ps \<Longrightarrow> \<not> covers lo j p"
proof -
  have "find (covers lo j) (rev ps) = None" using that by (simp add: find_None_iff)
  then show ?thesis by (simp add: image_byte_def)
qed

lemma load_segments_result:
  assumes ok: "list_all segment_ok ps" and len: "length buffer < 2 ^ 63"
  shows "\<exists>b r. load_segments data hdr ps base buffer = Some (b, r) \<and> length b = length buffer \<and>
    r = (if bad_segments data ps (length buffer) then Inl BadPhdr
         else Inr \<lparr>le_entry = e_entry hdr + (base - image_lo ps), le_load_base = base,
                   le_load_size = image_span ps\<rparr>) \<and>
    (\<forall>j<length buffer. image_span ps \<le> j \<longrightarrow> b ! j = buffer ! j) \<and>
    (\<not> bad_segments data ps (length buffer) \<longrightarrow> (\<forall>j<length buffer. b ! j = image_at data ps buffer j))"
proof (cases "loads ps = []")
  case True
  then have "vaddr_range ps (- 1, 0) = (- 1, 0)" by (simp add: vaddr_range_fold)
  with True show ?thesis by (simp add: load_segments_def bad_segments_def)
next
  case False
  note range = image_range [OF ok False]
  note vr = vaddr_range_image [OF False]
  show ?thesis
  proof (cases "image_span ps \<le> length buffer")
    case False
    then show ?thesis using \<open>loads ps \<noteq> []\<close>
      by (simp add: load_segments_def vr range(1,2) bad_segments_def Let_def)
  next
    case True
    let ?n = "image_span ps" let ?z = "replicate ?n 0 @ drop ?n buffer"
    have fits: "list_all (segment_fits data (image_lo ps) ?n) ps"
      using ok range(3) by (auto simp: list_all_iff segment_ok_def segment_fits_def set_loads)
    have z: "length ?z = length buffer" "?n \<le> length ?z" "length ?z < 2 ^ 63" using True len by simp_all
    obtain b e where c: "copy_segments data (image_lo ps) ps ?z = Some (b, e)" "length b = length ?z"
      "drop ?n b = drop ?n ?z" "e = (if list_ex (past_end data) ps then Some BadPhdr else None)"
      "e = None \<longrightarrow> (\<forall>j<length ?z. b ! j = image_byte data (image_lo ps) ps j (?z ! j))"
      using copy_segments_result [OF z(3,2) fits] by (elim exE conjE) (rule that)
    have rest: "b ! j = buffer ! j" if "j < length buffer" "?n \<le> j" for j
    proof -
      have "b ! j = drop ?n b ! (j - ?n)" using that c(2) z(1) by simp
      also have "\<dots> = buffer ! j" unfolding c(3) using that by simp
      finally show ?thesis .
    qed
    have zero: "?z ! j = 0" if "j < ?n" for j using that by (simp add: nth_append)
    have image: "b ! j = image_at data ps buffer j" if "e = None" "j < length buffer" for j
      using c(5) that z(1) rest [of j] zero [of j] by (auto simp: image_at_def)
    have "load_segments data hdr ps base buffer =
        Some (b, case e of Some err \<Rightarrow> Inl err
                | None \<Rightarrow> Inr \<lparr>le_entry = e_entry hdr + (base - image_lo ps), le_load_base = base,
                               le_load_size = ?n\<rparr>)"
      using True by (simp add: load_segments_def vr range(1,2) c(1))
    moreover have "bad_segments data ps (length buffer) = (e \<noteq> None)"
      using False True c(4) by (simp add: bad_segments_def)
    ultimately show ?thesis using c(2,4) z(1) rest image by (auto split: if_splits)
  qed
qed

section \<open>Program header tables\<close>

lemma table_in_image:
  assumes "program_headers data hdr = Inr (off, count)" "unat (e_phoff hdr) < 2 ^ 63"
  shows "phdrs_in data (off, count) = Some (map (phdr_at data off) [0..<count])"
proof -
  let ?c = "unat (e_phnum hdr)" and ?e = "unat (e_phentsize hdr)"
  have b: "?c < 2 ^ 16" "?e < 2 ^ 16"
    using unsigned_less [where 'a = nat, of "e_phnum hdr"] unsigned_less [where 'a = nat, of "e_phentsize hdr"] by auto
  then have "?c * ?e \<le> 2 ^ 16 * 2 ^ 16" by (intro mult_le_mono) auto
  then have "usz (unat (e_phoff hdr) + ?c * ?e) = unat (e_phoff hdr) + ?c * ?e"
    using assms(2) by simp
  then have le: "off = unat (e_phoff hdr)" "count = ?c" "off + ?c * ?e \<le> length data" "PHDR_SIZE \<le> ?e"
    using assms(1) by (auto simp: program_headers_def Let_def split: if_splits)
  have "off + ?c * PHDR_SIZE \<le> off + ?c * ?e" by (intro add_left_mono mult_le_mono2 le(4))
  then have "off + count * PHDR_SIZE \<le> length data" using le(3) unfolding le(2) by (rule order_trans)
  then show ?thesis by (simp add: phdrs_in_def)
qed

lemma load_at_result:
  assumes hdr: "parse_header data = Inr hdr" and table: "program_headers data hdr = Inr (off, count)"
    and low: "unat (e_phoff hdr) < 2 ^ 63"
    and ps: "ps = map (phdr_at data off) [0..<count]"
    and ok: "list_all segment_ok ps" and len: "length buffer < 2 ^ 63"
  shows "\<exists>b r. load_at data base buffer = Some (b, r) \<and> length b = length buffer \<and>
    r = (if bad_segments data ps (length buffer) then Inl BadPhdr
         else Inr \<lparr>le_entry = e_entry hdr + (base - image_lo ps), le_load_base = base,
                   le_load_size = image_span ps\<rparr>) \<and>
    (\<forall>j<length buffer. image_span ps \<le> j \<longrightarrow> b ! j = buffer ! j) \<and>
    (\<not> bad_segments data ps (length buffer) \<longrightarrow> (\<forall>j<length buffer. b ! j = image_at data ps buffer j))"
proof -
  have "load_at data base buffer = load_segments data hdr ps base buffer"
    using hdr table table_in_image [OF table low] ps by (simp add: load_at_def)
  then show ?thesis using load_segments_result [OF ok len] by simp
qed

text \<open>An image that meets these conditions never stops the loader, whether it can be loaded or not.\<close>

definition image_sane :: "u8 list \<Rightarrow> bool" where
  "image_sane data \<longleftrightarrow>
     (case parse_header data of Inl _ \<Rightarrow> True
      | Inr hdr \<Rightarrow> (case program_headers data hdr of Inl _ \<Rightarrow> True
          | Inr (off, count) \<Rightarrow> unat (e_phoff hdr) < 2 ^ 63 \<and> list_all segment_ok (map (phdr_at data off) [0..<count])))"

lemma load_at_returns:
  assumes sane: "image_sane data" and len: "length buffer < 2 ^ 63"
  obtains b r where "load_at data base buffer = Some (b, r)" "length b = length buffer"
    "\<And>l. r = Inr l \<Longrightarrow> le_load_base l = base \<and> le_load_size l \<le> length buffer"
proof (cases "parse_header data")
  case (Inl e)
  then show ?thesis using that [of buffer "Inl e"] by (simp add: load_at_def)
next
  case hdr: (Inr hdr)
  show ?thesis
  proof (cases "program_headers data hdr")
    case (Inl e)
    then show ?thesis using that [of buffer "Inl e"] hdr by (simp add: load_at_def)
  next
    case (Inr s)
    obtain off count where s: "program_headers data hdr = Inr (off, count)" using Inr by (cases s) simp
    let ?ps = "map (phdr_at data off) [0..<count]"
    have "unat (e_phoff hdr) < 2 ^ 63" "list_all segment_ok ?ps" using sane hdr s by (simp_all add: image_sane_def)
    from load_at_result [OF hdr s this(1) refl this(2) len, of base] obtain b r where
      "load_at data base buffer = Some (b, r)" "length b = length buffer"
      "r = (if bad_segments data ?ps (length buffer) then Inl BadPhdr
         else Inr \<lparr>le_entry = e_entry hdr + (base - image_lo ?ps), le_load_base = base, le_load_size = image_span ?ps\<rparr>)"
      by blast
    then show ?thesis using that by (auto simp: bad_segments_def split: if_splits)
  qed
qed

section \<open>Properties\<close>

text \<open>
  C20: what loading an image does. For an image whose header is accepted, whose table starts below
  \<open>2 ^ 63\<close> and whose segments have consistent sizes and do not wrap, \<open>load_at\<close> returns. It reports
  \<open>BadPhdr\<close> exactly when there is no loadable segment, the segments span more than the buffer, or
  one reaches past the end of the image; otherwise every byte of the span is the byte of the last
  segment that covers it, or zero, and the entry point is relocated. Bytes behind the span are
  never touched, not even when an error is reported.
\<close>

theorem elf_load_result:
  assumes hdr: "parse_header data = Inr hdr" and table: "program_headers data hdr = Inr (off, count)"
    and low: "unat (e_phoff hdr) < 2 ^ 63"
    and ps: "ps = map (phdr_at data off) [0..<count]"
    and ok: "list_all segment_ok ps" and len: "length buffer < 2 ^ 63"
  shows "\<exists>b r. load_at data base buffer = Some (b, r) \<and> length b = length buffer \<and>
    r = (if bad_segments data ps (length buffer) then Inl BadPhdr
         else Inr \<lparr>le_entry = e_entry hdr + (base - image_lo ps), le_load_base = base,
                   le_load_size = image_span ps\<rparr>) \<and>
    (\<forall>j<length buffer. image_span ps \<le> j \<longrightarrow> b ! j = buffer ! j) \<and>
    (\<not> bad_segments data ps (length buffer) \<longrightarrow> (\<forall>j<length buffer. b ! j = image_at data ps buffer j))"
  using assms by (rule load_at_result)

text \<open>An image with one segment of two bytes at address 16, four bytes long in memory.\<close>

definition sample_elf :: "u8 list" where
  "sample_elf =
     [0x7F, 0x45, 0x4C, 0x46, 2, 1, 1, 0, 0, 0, 0, 0, 0, 0, 0, 0,
      2, 0, 62, 0, 1, 0, 0, 0, 17, 0, 0, 0, 0, 0, 0, 0, 64, 0, 0, 0, 0, 0, 0, 0,
      0, 0, 0, 0, 0, 0, 0, 0, 0, 0, 0, 0, 64, 0, 56, 0, 1, 0, 0, 0, 0, 0, 0, 0,
      1, 0, 0, 0, 5, 0, 0, 0, 120, 0, 0, 0, 0, 0, 0, 0, 16, 0, 0, 0, 0, 0, 0, 0,
      16, 0, 0, 0, 0, 0, 0, 0, 2, 0, 0, 0, 0, 0, 0, 0, 4, 0, 0, 0, 0, 0, 0, 0, 0, 16, 0, 0, 0, 0, 0, 0,
      0xAA, 0xBB]"

definition sample_phdr :: elf64_phdr where
  "sample_phdr = \<lparr>p_type = 1, p_flags = 5, p_offset = 120, p_vaddr = 16, p_paddr = 16,
     p_filesz = 2, p_memsz = 4, p_align = 0x1000\<rparr>"

lemma sample_header:
  "parse_header sample_elf = Inr (header_of sample_elf)"
  "program_headers sample_elf (header_of sample_elf) = Inr (64, 1)"
  "e_entry (header_of sample_elf) = 17" "e_phoff (header_of sample_elf) = 64"
  by (simp_all add: sample_elf_def parse_header_def header_of_def program_headers_def field_at_def
      from_le_def HEADER_SIZE_def ELF_MAGIC_def ELFCLASS64_def ELFDATA2LSB_def ET_EXEC_def ET_DYN_def
      EM_X86_64_def PHDR_SIZE_def)

lemma sample_table: "phdr_at sample_elf 64 0 = sample_phdr"
  by (simp add: sample_elf_def sample_phdr_def phdr_at_def phdr_of_def field_at_def from_le_def PHDR_SIZE_def)

theorem elf_load_result_witness:
  "\<exists>b. load_at sample_elf 0x1000 [9, 9, 9, 9, 9] =
     Some (b, Inr \<lparr>le_entry = 0x1001, le_load_base = 0x1000, le_load_size = 4\<rparr>) \<and>
     length b = 5 \<and> b ! 0 = 0xAA \<and> b ! 1 = 0xBB \<and> b ! 3 = 0 \<and> b ! 4 = 9"
proof -
  let ?buf = "[9, 9, 9, 9, 9] :: u8 list"
  have ps: "[sample_phdr] = map (phdr_at sample_elf 64) [0..<1]" by (simp add: sample_table)
  have img: "image_lo [sample_phdr] = 16" "image_span [sample_phdr] = 4"
    by (simp_all add: image_lo_def image_hi_def image_span_def sample_phdr_def PT_LOAD_def)
  have ok: "list_all segment_ok [sample_phdr]"
    by (simp add: segment_ok_def sample_phdr_def PT_LOAD_def)
  have low: "unat (e_phoff (header_of sample_elf)) < 2 ^ 63" by (simp add: sample_header)
  have good: "\<not> bad_segments sample_elf [sample_phdr] (length ?buf)"
    by (simp add: bad_segments_def img past_end_def)
      (simp add: sample_phdr_def PT_LOAD_def sample_elf_def)
  have bytes: "image_at sample_elf [sample_phdr] ?buf j =
      (if j < 2 then sample_elf ! (120 + j) else if j < 4 then 0 else ?buf ! j)" for j
    by (simp add: image_at_def image_byte_def img covers_def dst_def)
      (simp add: sample_phdr_def PT_LOAD_def)
  have "length ?buf < 2 ^ 63" by simp
  from elf_load_result [OF sample_header(1,2) low ps ok this, of "0x1000"] obtain b where
    "load_at sample_elf 0x1000 ?buf = Some (b, Inr \<lparr>le_entry = 0x1001, le_load_base = 0x1000, le_load_size = 4\<rparr>)"
    "length b = length ?buf" "\<forall>j<length ?buf. b ! j = image_at sample_elf [sample_phdr] ?buf j"
    using good by (auto simp: img sample_header)
  then show ?thesis unfolding bytes by (auto simp: sample_elf_def)
qed

text \<open>
  A table that wraps around. With 56-byte entries and an offset of \<open>2 ^ 64 - 56 * n\<close>, the end of
  a table of \<open>n\<close> entries is computed as 0, so the table is accepted whatever the image holds, and
  the loader reads program headers outside the image.
\<close>

theorem wrapped_table_is_read_outside:
  assumes "e_phentsize hdr = 56" "0 < e_phnum hdr" "e_phoff hdr = - (56 * ucast (e_phnum hdr))"
    and "length data < 2 ^ 63"
  shows "program_headers data hdr = Inr (2 ^ 64 - 56 * unat (e_phnum hdr), unat (e_phnum hdr)) \<and>
    phdrs_in data (2 ^ 64 - 56 * unat (e_phnum hdr), unat (e_phnum hdr)) = None"
proof -
  let ?c = "unat (e_phnum hdr)"
  have c: "0 < ?c" "?c < 2 ^ 16"
    using assms(2) unsigned_less [where 'a = nat, of "e_phnum hdr"] by (simp_all add: unat_gt_0 word_greater_zero_iff)
  have "unat (ucast (e_phnum hdr) :: u64) = ?c" using c by (simp add: unat_trunc)
  then have "unat (56 * ucast (e_phnum hdr) :: u64) = 56 * ?c"
    using c by (simp add: unat_word_ariths)
  then have off: "unat (e_phoff hdr) = 2 ^ 64 - 56 * ?c"
    using c unat_sub_if' [of 0 "56 * ucast (e_phnum hdr) :: u64"] unfolding assms(3) by simp
  have "usz (2 ^ 64 - 56 * ?c + ?c * 56) = 0" using c by (simp add: usz_def)
  then show ?thesis
    using assms(1,4) c by (simp add: program_headers_def off PHDR_SIZE_def phdrs_in_def Let_def)
qed

theorem wrapped_table_is_read_outside_witness:
  "program_headers [0, 1, 2] ((header_of sample_elf)\<lparr>e_phoff := - 56\<rparr>) = Inr (2 ^ 64 - 56, 1)"
proof -
  have "e_phentsize (header_of sample_elf) = 56" "e_phnum (header_of sample_elf) = 1"
    by (simp_all add: sample_elf_def header_of_def field_at_def from_le_def)
  then show ?thesis
    using wrapped_table_is_read_outside [of "(header_of sample_elf)\<lparr>e_phoff := - 56\<rparr>" "[0, 1, 2]"] by simp
qed

text \<open>
  A segment larger in the file than in memory. The loader checks the memory sizes against the
  buffer, not the file sizes: an image whose only loadable segment fits in memory, but has more
  file bytes than the buffer, panics instead of being rejected.
\<close>

theorem oversized_segment_panics:
  assumes "p_type p = PT_LOAD" "p_vaddr p \<noteq> - 1" "unat (p_vaddr p) + unat (p_memsz p) < 2 ^ 64"
    and "unat (p_memsz p) \<le> length buffer" "length buffer < unat (p_filesz p)"
    and "unat (p_offset p) + unat (p_filesz p) \<le> length data" "length data < 2 ^ 63"
  shows "load_segments data hdr [p] base buffer = None"
proof -
  let ?o = "unat (p_offset p)" and ?f = "unat (p_filesz p)"
  have "vaddr_range [p] (- 1, 0) = (p_vaddr p, p_vaddr p + p_memsz p)"
    using vaddr_range_image [of "[p]"] assms(1) by (simp add: image_lo_def image_hi_def)
  moreover have "slice data ?o (usz (?o + ?f)) = Some (take ?f (drop ?o data))"
    using assms(6,7) by (simp add: slice_def)
  moreover have "blit (replicate n 0 @ drop n buffer) 0 (usz ?f) src = None" if "n \<le> length buffer" for n src
    using assms(5-7) that by (simp add: blit_def)
  ultimately show ?thesis
    using assms by (simp add: load_segments_def Let_def)
qed

theorem oversized_segment_panics_witness:
  "load_segments sample_elf (header_of sample_elf) [sample_phdr\<lparr>p_memsz := 1\<rparr>] 0x1000 [0] = None"
  by (rule oversized_segment_panics) (simp_all add: sample_phdr_def PT_LOAD_def, simp_all add: sample_elf_def)

end
