(* ===== verification/Devices.thy ===== *)
theory Devices
  imports Ports Mem
begin

text \<open>
  The machine as the drivers of memory-mapped and PCI devices see it: 32-bit registers in memory
  (\<open>read_volatile\<close>, \<open>write_volatile\<close>), 32-bit ports (\<open>inl\<close>, \<open>outl\<close> of
  \<open>src/kern/arch/x86_64/cpu.rs\<close>), the kernel's memory, its heap and its console.

  The devices are parameters: what a register or port reads is an arbitrary function of everything
  the kernel did to the devices before, and so is what bus-master devices have written to memory by
  then (\<open>hw_dma\<close>, applied whenever the kernel looks at a register).
\<close>

section \<open>State\<close>

datatype dev_op = Load u64 u32 | Store u64 u32 | InL u16 u32 | OutL u16 u32

type_synonym ram = "u64 \<Rightarrow> u8"

record hw =
  hw_io :: io
  hw_trace :: "dev_op list"
  hw_reg :: "dev_op list \<Rightarrow> u64 \<Rightarrow> u32"
  hw_port :: "dev_op list \<Rightarrow> u16 \<Rightarrow> u32"
  hw_dma :: "dev_op list \<Rightarrow> ram \<Rightarrow> ram"
  hw_ram :: ram
  hw_heap :: mem

definition mmio_read :: "u64 \<Rightarrow> hw \<Rightarrow> u32 \<times> hw" where
  "mmio_read addr s =
     (let v = hw_reg s (hw_trace s) addr
      in (v, s\<lparr>hw_ram := hw_dma s (hw_trace s) (hw_ram s), hw_trace := Load addr v # hw_trace s\<rparr>))"

definition mmio_write :: "u64 \<Rightarrow> u32 \<Rightarrow> hw \<Rightarrow> hw" where
  "mmio_write addr v s = s\<lparr>hw_trace := Store addr v # hw_trace s\<rparr>"

definition inl :: "u16 \<Rightarrow> hw \<Rightarrow> u32 \<times> hw" where
  "inl port s = (let v = hw_port s (hw_trace s) port in (v, s\<lparr>hw_trace := InL port v # hw_trace s\<rparr>))"

definition outl :: "u16 \<Rightarrow> u32 \<Rightarrow> hw \<Rightarrow> hw" where
  "outl port v s = s\<lparr>hw_trace := OutL port v # hw_trace s\<rparr>"

section \<open>Memory\<close>

text \<open>\<open>write_bytes\<close>, \<open>copy_nonoverlapping\<close> and the fields of \<open>repr(C)\<close> structures in memory.\<close>

definition fill_ram :: "u64 \<Rightarrow> nat \<Rightarrow> u8 \<Rightarrow> ram \<Rightarrow> ram" where
  "fill_ram p n b m = (\<lambda>a. if unat (a - p) < n then b else m a)"

definition load_ram :: "u64 \<Rightarrow> nat \<Rightarrow> ram \<Rightarrow> u8 list" where
  "load_ram p n m = map (\<lambda>i. m (p + of_nat i)) [0..<n]"

definition store_ram :: "u64 \<Rightarrow> u8 list \<Rightarrow> ram \<Rightarrow> ram" where
  "store_ram p bs m = (\<lambda>a. if unat (a - p) < length bs then bs ! unat (a - p) else m a)"

definition copy_ram :: "u64 \<Rightarrow> u64 \<Rightarrow> nat \<Rightarrow> ram \<Rightarrow> ram" where
  "copy_ram src dst n m = store_ram dst (load_ram src n m) m"

definition get_field :: "nat \<Rightarrow> u64 \<Rightarrow> ram \<Rightarrow> 'a::len word" where
  "get_field n p m = from_le (load_ram p n m)"

definition put_field :: "nat \<Rightarrow> u64 \<Rightarrow> 'a::len word \<Rightarrow> ram \<Rightarrow> ram" where
  "put_field n p w m = store_ram p (to_le n w) m"

text \<open>Several fields of one structure, in the order they are written.\<close>

definition put_bytes_at :: "u64 \<Rightarrow> (nat \<times> u8 list) list \<Rightarrow> ram \<Rightarrow> ram" where
  "put_bytes_at p fs m = fold (\<lambda>(off, bs). store_ram (p + of_nat off) bs) fs m"

lemma length_load_ram [simp]: "length (load_ram p n m) = n"
  by (simp add: load_ram_def)

lemma load_ram_nth: "i < n \<Longrightarrow> load_ram p n m ! i = m (p + of_nat i)"
  by (simp add: load_ram_def)

lemma load_store_same: "length bs \<le> 2 ^ 63 \<Longrightarrow> load_ram p (length bs) (store_ram p bs m) = bs"
  by (intro nth_equalityI) (auto simp: load_ram_def store_ram_def unat_of_usz)

lemma store_ram_outside: "length bs \<le> unat (a - p) \<Longrightarrow> store_ram p bs m a = m a"
  by (simp add: store_ram_def)

lemma fill_ram_outside: "n \<le> unat (a - p) \<Longrightarrow> fill_ram p n b m a = m a"
  by (simp add: fill_ram_def)

lemma get_put_field:
  assumes "8 * n = LENGTH('a::len)" "n \<le> 8"
  shows "get_field n p (put_field n p (w :: 'a word) m) = w"
proof -
  have "load_ram p n (store_ram p (to_le n w) m) = to_le n w"
    using load_store_same [of "to_le n w" p m] assms(2) by simp
  then show ?thesis using from_to_le [OF assms(1)] by (simp add: get_field_def put_field_def)
qed

section \<open>Heap and console\<close>

definition on_heap :: "(mem \<Rightarrow> (mem \<times> 'a) option) \<Rightarrow> hw \<Rightarrow> ('a \<times> hw) option" where
  "on_heap f s = do { (h, r) \<leftarrow> f (hw_heap s); Some (r, s\<lparr>hw_heap := h\<rparr>) }"

definition hw_kfree :: "u64 \<Rightarrow> usize \<Rightarrow> hw \<Rightarrow> hw option" where
  "hw_kfree p sz s = do { h \<leftarrow> kfree (hw_heap s) (unat p) sz; Some (s\<lparr>hw_heap := h\<rparr>) }"

text \<open>A run of calls of \<open>puts\<close>, \<open>hex\<close>, \<open>dec\<close> and \<open>putb\<close>.\<close>

datatype con = Str string | Raw "u8 list" | Hex u64 | Dec u64

fun con_put :: "con \<Rightarrow> io \<Rightarrow> io option" where
  "con_put (Str str) s = puts str s"
| "con_put (Raw bs) s = put_bytes bs s"
| "con_put (Hex v) s = hex v s"
| "con_put (Dec v) s = dec v s"

fun con_text :: "con \<Rightarrow> u8 list" where
  "con_text (Str str) = str_bytes str"
| "con_text (Raw bs) = bs"
| "con_text (Hex v) = number_text 16 v"
| "con_text (Dec v) = number_text 10 v"

fun console :: "con list \<Rightarrow> io \<Rightarrow> io option" where
  "console [] s = Some s"
| "console (c # cs) s = do { s' \<leftarrow> con_put c s; console cs s' }"

definition say :: "con list \<Rightarrow> hw \<Rightarrow> hw option" where
  "say cs s = do { io \<leftarrow> console cs (hw_io s); Some (s\<lparr>hw_io := io\<rparr>) }"

lemma prints_con: "tx_live (io_env s) \<Longrightarrow> prints s (con_text c) (con_put c s)"
  by (cases c) (simp_all add: prints_puts prints_number, simp add: prints_def put_bytes_sends)

lemma prints_console: "tx_live (io_env s) \<Longrightarrow> prints s (concat (map con_text cs)) (console cs s)"
proof (induction cs arbitrary: s)
  case Nil
  then show ?case by (simp add: prints_def)
next
  case (Cons c cs)
  then show ?case
    by (simp del: bind_eq_Some_conv) (intro prints_bind prints_con; simp add: sent_env)
qed

text \<open>
  \<open>live\<close>: the console works. \<open>console_only\<close>: nothing but the console has changed; whatever a driver
  prints, the rest of its behaviour is read off these two.
\<close>

definition live :: "hw \<Rightarrow> bool" where
  "live s \<longleftrightarrow> tx_live (io_env (hw_io s))"

definition printed :: "hw \<Rightarrow> u8 list \<Rightarrow> hw \<Rightarrow> bool" where
  "printed s bs s' \<longleftrightarrow> (\<exists>io. s' = s\<lparr>hw_io := io\<rparr> \<and> sent (hw_io s) bs io)"

lemma printed_live: "printed s bs s' \<Longrightarrow> live s \<Longrightarrow> live s'"
  by (auto simp: printed_def live_def sent_def)

lemma printed_refl [simp]: "printed s [] s"
  unfolding printed_def by (rule exI [of _ "hw_io s"]) simp

lemma printed_trans: "printed s bs s' \<Longrightarrow> printed s' cs s'' \<Longrightarrow> printed s (bs @ cs) s''"
  unfolding printed_def using sent_trans by fastforce

lemma say_prints:
  assumes "live s"
  obtains s' where "say cs s = Some s'" "printed s (concat (map con_text cs)) s'" "live s'"
proof -
  obtain io where "console cs (hw_io s) = Some io" "sent (hw_io s) (concat (map con_text cs)) io"
    using prints_console [of "hw_io s" cs] assms by (auto simp: live_def elim: printsE)
  then show ?thesis
    using that [of "s\<lparr>hw_io := io\<rparr>"] assms by (auto simp: say_def printed_def live_def sent_def)
qed

lemma live_ops [simp]:
  "live (snd (mmio_read a s)) = live s" "live (mmio_write a v s) = live s"
  "live (snd (inl p s)) = live s" "live (outl p w s) = live s" "live (s\<lparr>hw_heap := h\<rparr>) = live s"
  "live (s\<lparr>hw_ram := m\<rparr>) = live s"
  by (simp_all add: live_def mmio_read_def mmio_write_def inl_def outl_def Let_def)

end
