(* ===== verification/Paging.thy ===== *)
theory Paging
  imports Mem
begin

text \<open>
  Page tables: \<open>make_executable\<close> and \<open>map_mmio\<close> of \<open>src/kern/mem.rs\<close>, \<open>make_user_accessible\<close> of
  \<open>src/kern/drv/ring3/mod.rs\<close> and \<open>map_lapic_page\<close> of \<open>src/kern/arch/x86_64/lapic.rs\<close>, against the
  translation the processor performs. Page tables are read and written through the direct map, so
  memory is a map from the virtual addresses of 64-bit entries to their values; a \<open>usize\<close> that is
  used as an address is a \<open>u64\<close> here, as are the entries. Reloading \<open>cr3\<close> and \<open>invlpg\<close> flush
  cached translations and have no counterpart, because the translation always reads the memory.
\<close>

type_synonym qwords = "u64 \<Rightarrow> u64"

section \<open>Entries\<close>

definition PTE_PRESENT :: u64 where "PTE_PRESENT = push_bit 0 1"
definition PTE_WRITABLE :: u64 where "PTE_WRITABLE = push_bit 1 1"
definition PTE_USER :: u64 where "PTE_USER = push_bit 2 1"
definition PTE_PWT :: u64 where "PTE_PWT = push_bit 3 1"
definition PTE_PCD :: u64 where "PTE_PCD = push_bit 4 1"
definition PTE_HUGE :: u64 where "PTE_HUGE = push_bit 7 1"
definition PTE_NX :: u64 where "PTE_NX = push_bit 63 1"

lemmas pte_defs = PTE_PRESENT_def PTE_WRITABLE_def PTE_USER_def PTE_PWT_def PTE_PCD_def PTE_HUGE_def PTE_NX_def

definition table_idx :: "nat \<Rightarrow> u64 \<Rightarrow> u64" where
  "table_idx sh addr = drop_bit sh addr AND 0x1FF"

definition phys_to_virt :: "u64 \<Rightarrow> u64 \<Rightarrow> u64" where
  "phys_to_virt hhdm_offset phys = hhdm_offset + phys"

text \<open>\<open>table.add(idx)\<close> for a table of 64-bit entries\<close>

definition entry :: "u64 \<Rightarrow> u64 \<Rightarrow> u64" where
  "entry table i = table + 8 * i"

definition frame_of :: "u64 \<Rightarrow> u64" where
  "frame_of e = e AND 0x000FFFFFFFFFF000"

definition page_base :: "u64 \<Rightarrow> u64" where
  "page_base a = a AND NOT 0xFFF"

section \<open>\<open>make_executable\<close>\<close>

definition exec_entry :: "u64 \<Rightarrow> u64" where
  "exec_entry e = (e AND NOT PTE_NX) OR PTE_WRITABLE"

definition exec_page :: "u64 \<Rightarrow> u64 \<Rightarrow> u64 \<Rightarrow> qwords \<Rightarrow> qwords" where
  "exec_page hhdm_offset pml4_phys addr m =
     (let pml4 = phys_to_virt hhdm_offset pml4_phys;
          pml4e = m (entry pml4 (table_idx 39 addr))
      in if pml4e AND PTE_PRESENT = 0 then m
         else
      let pdpt = phys_to_virt hhdm_offset (frame_of pml4e);
          pdpte = m (entry pdpt (table_idx 30 addr))
      in if pdpte AND PTE_PRESENT = 0 then m
         else if pdpte AND PTE_HUGE \<noteq> 0 then m(entry pdpt (table_idx 30 addr) := exec_entry pdpte)
         else
      let pd = phys_to_virt hhdm_offset (frame_of pdpte);
          pde = m (entry pd (table_idx 21 addr))
      in if pde AND PTE_PRESENT = 0 then m
         else if pde AND PTE_HUGE \<noteq> 0 then m(entry pd (table_idx 21 addr) := exec_entry pde)
         else
      let pt = phys_to_virt hhdm_offset (frame_of pde);
          pte = m (entry pt (table_idx 12 addr))
      in if pte AND PTE_PRESENT \<noteq> 0 then m(entry pt (table_idx 12 addr) := exec_entry pte) else m)"

text \<open>The loop \<open>while addr < end { ...; addr += 0x1000 }\<close> both walks share.\<close>

partial_function (option) page_loop :: "(u64 \<Rightarrow> qwords \<Rightarrow> qwords) \<Rightarrow> u64 \<Rightarrow> u64 \<Rightarrow> qwords \<Rightarrow> qwords option" where
  "page_loop body addr end_va m =
     (if addr < end_va then page_loop body (addr + 0x1000) end_va (body addr m) else Some m)"

definition make_executable :: "u64 \<Rightarrow> u64 \<Rightarrow> u64 \<Rightarrow> u64 \<Rightarrow> qwords \<Rightarrow> qwords option" where
  "make_executable cr3 hhdm_offset vaddr sz m =
     page_loop (exec_page hhdm_offset (page_base cr3)) (page_base vaddr) (page_base (vaddr + sz + 0xFFF)) m"

section \<open>\<open>make_user_accessible\<close>\<close>

definition user_entry :: "u64 \<Rightarrow> u64" where
  "user_entry e = ((e OR PTE_USER) OR PTE_WRITABLE) AND NOT PTE_NX"

definition user_page :: "u64 \<Rightarrow> u64 \<Rightarrow> u64 \<Rightarrow> qwords \<Rightarrow> qwords" where
  "user_page hhdm_offset pml4_phys addr m =
     (let pml4 = phys_to_virt hhdm_offset pml4_phys;
          pml4e = m (entry pml4 (table_idx 39 addr))
      in if pml4e AND PTE_PRESENT = 0 then m
         else
      let m1 = m(entry pml4 (table_idx 39 addr) := pml4e OR PTE_USER);
          pdpt = phys_to_virt hhdm_offset (frame_of pml4e);
          pdpte = m1 (entry pdpt (table_idx 30 addr))
      in if pdpte AND PTE_PRESENT = 0 then m1
         else
      let m2 = m1(entry pdpt (table_idx 30 addr) := pdpte OR PTE_USER)
      in if pdpte AND PTE_HUGE \<noteq> 0 then m2(entry pdpt (table_idx 30 addr) := user_entry pdpte)
         else
      let pd = phys_to_virt hhdm_offset (frame_of pdpte);
          pde = m2 (entry pd (table_idx 21 addr))
      in if pde AND PTE_PRESENT = 0 then m2
         else
      let m3 = m2(entry pd (table_idx 21 addr) := pde OR PTE_USER)
      in if pde AND PTE_HUGE \<noteq> 0 then m3(entry pd (table_idx 21 addr) := user_entry pde)
         else
      let pt = phys_to_virt hhdm_offset (frame_of pde);
          pte = m3 (entry pt (table_idx 12 addr))
      in if pte AND PTE_PRESENT \<noteq> 0 then m3(entry pt (table_idx 12 addr) := user_entry pte) else m3)"

definition make_user_accessible :: "u64 \<Rightarrow> u64 \<Rightarrow> u64 \<Rightarrow> u64 \<Rightarrow> qwords \<Rightarrow> qwords option" where
  "make_user_accessible cr3 hhdm_offset vaddr sz m =
     page_loop (user_page hhdm_offset (page_base cr3)) (page_base vaddr) (page_base (vaddr + sz + 0xFFF)) m"

section \<open>\<open>map_mmio\<close> and \<open>map_lapic_page\<close>\<close>

definition zero_page :: "u64 \<Rightarrow> qwords \<Rightarrow> qwords" where
  "zero_page page m = (\<lambda>a. if a - page < 4096 then 0 else m a)"

text \<open>
  \<open>if entry & PTE_PRESENT == 0 { ... }\<close>: put a fresh zeroed table behind an absent entry. \<open>None\<close>
  when there is no page left.
\<close>

definition add_table :: "mem \<Rightarrow> u64 \<Rightarrow> qwords \<Rightarrow> mem \<times> qwords option" where
  "add_table h slot m =
     (if m slot AND PTE_PRESENT = 0
      then case mem_alloc_pages h 0 of
             (h', None) \<Rightarrow> (h', None)
           | (h', Some page) \<Rightarrow>
               (h', Some ((zero_page (of_nat page) m)(slot := (virt_to_phys h' page OR PTE_PRESENT) OR PTE_WRITABLE)))
      else (h, Some m))"

definition mmio_pte :: "u64 \<Rightarrow> u64" where
  "mmio_pte phys = ((((phys OR PTE_PRESENT) OR PTE_WRITABLE) OR PTE_PWT) OR PTE_PCD) OR PTE_NX"

definition mmio_page :: "u64 \<Rightarrow> u64 \<Rightarrow> u64 \<Rightarrow> mem \<Rightarrow> qwords \<Rightarrow> mem \<times> qwords \<times> bool" where
  "mmio_page hhdm pml4_phys phys h m =
     (let vaddr = hhdm + phys;
          slot4 = entry (phys_to_virt hhdm pml4_phys) (table_idx 39 vaddr)
      in case add_table h slot4 m of
           (h1, None) \<Rightarrow> (h1, m, False)
         | (h1, Some m1) \<Rightarrow>
      let slot3 = entry (phys_to_virt hhdm (frame_of (m1 slot4))) (table_idx 30 vaddr); pdpte = m1 slot3
      in if pdpte AND PTE_PRESENT \<noteq> 0 \<and> pdpte AND PTE_HUGE \<noteq> 0 then (h1, m1, True)
         else case add_table h1 slot3 m1 of
           (h2, None) \<Rightarrow> (h2, m1, False)
         | (h2, Some m2) \<Rightarrow>
      let slot2 = entry (phys_to_virt hhdm (frame_of (m2 slot3))) (table_idx 21 vaddr); pde = m2 slot2
      in if pde AND PTE_PRESENT \<noteq> 0 \<and> pde AND PTE_HUGE \<noteq> 0 then (h2, m2, True)
         else case add_table h2 slot2 m2 of
           (h3, None) \<Rightarrow> (h3, m2, False)
         | (h3, Some m3) \<Rightarrow>
      let slot1 = entry (phys_to_virt hhdm (frame_of (m3 slot2))) (table_idx 12 vaddr)
      in (h3, if m3 slot1 AND PTE_PRESENT = 0 then m3(slot1 := mmio_pte phys) else m3, True))"

fun mmio_loop :: "u64 \<Rightarrow> u64 \<Rightarrow> u64 \<Rightarrow> nat \<Rightarrow> mem \<Rightarrow> qwords \<Rightarrow> mem \<times> qwords \<times> bool" where
  "mmio_loop hhdm pml4_phys phys 0 h m = (h, m, True)"
| "mmio_loop hhdm pml4_phys phys (Suc n) h m =
     (case mmio_page hhdm pml4_phys phys h m of
        (h', m', ok) \<Rightarrow> if ok then mmio_loop hhdm pml4_phys (phys + 0x1000) n h' m' else (h', m', False))"

definition map_mmio :: "u64 \<Rightarrow> u64 \<Rightarrow> nat \<Rightarrow> mem \<Rightarrow> qwords \<Rightarrow> mem \<times> qwords \<times> u64" where
  "map_mmio cr3 phys_base num_pages h m =
     (case mmio_loop (m_hhdm h) (page_base cr3) phys_base num_pages h m of
        (h', m', ok) \<Rightarrow> (h', m', if ok then m_hhdm h + phys_base else 0))"

section \<open>The translation of the processor\<close>

text \<open>
  Intel SDM volume 3, 4-level paging: the addresses of the entries a translation goes through, the
  last of them the one that maps the page (a page of 1 GiB, 2 MiB or 4 KiB for a path of two, three
  or four entries); \<open>None\<close> when an entry on the way is not present. Bits 52 and above of \<open>cr3\<close> are
  reserved and read as zero, so the root is \<open>page_base cr3\<close>.
\<close>

definition walk :: "u64 \<Rightarrow> u64 \<Rightarrow> qwords \<Rightarrow> u64 \<Rightarrow> u64 list option" where
  "walk hhdm root m va =
     (let a4 = entry (hhdm + root) (table_idx 39 va) in if \<not> bit (m a4) 0 then None else
      let a3 = entry (hhdm + frame_of (m a4)) (table_idx 30 va) in if \<not> bit (m a3) 0 then None else
      if bit (m a3) 7 then Some [a4, a3] else
      let a2 = entry (hhdm + frame_of (m a3)) (table_idx 21 va) in if \<not> bit (m a2) 0 then None else
      if bit (m a2) 7 then Some [a4, a3, a2] else
      let a1 = entry (hhdm + frame_of (m a2)) (table_idx 12 va) in if \<not> bit (m a1) 0 then None else
      Some [a4, a3, a2, a1])"

text \<open>Physical address and rights: the rights of all levels are combined.\<close>

definition page_bits :: "u64 list \<Rightarrow> nat" where
  "page_bits path = (if length path = 2 then 30 else if length path = 3 then 21 else 12)"

definition phys_of :: "qwords \<Rightarrow> u64 list \<Rightarrow> u64 \<Rightarrow> u64" where
  "phys_of m path va =
     ((frame_of (m (List.last path)) AND NOT (mask (page_bits path))) OR (va AND mask (page_bits path)))"

definition page_writable :: "qwords \<Rightarrow> u64 list \<Rightarrow> bool" where
  "page_writable m path \<longleftrightarrow> list_all (\<lambda>a. bit (m a) 1) path"

definition page_user :: "qwords \<Rightarrow> u64 list \<Rightarrow> bool" where
  "page_user m path \<longleftrightarrow> list_all (\<lambda>a. bit (m a) 2) path"

definition page_nx :: "qwords \<Rightarrow> u64 list \<Rightarrow> bool" where
  "page_nx m path \<longleftrightarrow> list_ex (\<lambda>a. bit (m a) 63) path"

subsection \<open>Bits of entries\<close>

lemma and_flag: "(e AND push_bit n 1 = 0) = (\<not> bit (e :: u64) n)"
  by (simp add: push_bit_of_1 and_exp_eq_0_iff_not_bit)

lemma flag_tests [simp]:
  "(e AND PTE_PRESENT = 0) = (\<not> bit e 0)" "(e AND PTE_HUGE = 0) = (\<not> bit e 7)"
  unfolding PTE_PRESENT_def PTE_HUGE_def by (rule and_flag)+

lemma bit_flag: "bit (push_bit k 1 :: u64) n \<longleftrightarrow> n = k \<and> k < 64"
  unfolding bit_push_bit_iff by (auto simp: bit_1_iff)

lemma bit_pte [simp]:
  "bit PTE_PRESENT n \<longleftrightarrow> n = 0" "bit PTE_WRITABLE n \<longleftrightarrow> n = 1" "bit PTE_USER n \<longleftrightarrow> n = 2"
  "bit PTE_PWT n \<longleftrightarrow> n = 3" "bit PTE_PCD n \<longleftrightarrow> n = 4" "bit PTE_NX n \<longleftrightarrow> n = 63"
  unfolding pte_defs bit_flag by simp_all

lemma bit_exec_entry: "n < 64 \<Longrightarrow> bit (exec_entry e) n \<longleftrightarrow> (n = 1 \<or> n \<noteq> 63 \<and> bit e n)"
  by (auto simp: exec_entry_def bit_or_iff bit_and_iff bit_not_iff)

lemma bit_user_entry: "n < 64 \<Longrightarrow> bit (user_entry e) n \<longleftrightarrow> (n = 1 \<or> n = 2 \<or> n \<noteq> 63 \<and> bit e n)"
  by (auto simp: user_entry_def bit_or_iff bit_and_iff bit_not_iff)

lemma bit_or_user: "n < 64 \<Longrightarrow> bit (e OR PTE_USER) n \<longleftrightarrow> n = 2 \<or> bit e n"
  by (auto simp: bit_or_iff)

lemma frame_mask: "(0x000FFFFFFFFFF000 :: u64) = push_bit 12 (mask 40)"
  by (simp add: mask_eq_exp_minus_1)

lemma bit_frame_of: "bit (frame_of e) n \<longleftrightarrow> 12 \<le> n \<and> n < 52 \<and> bit e n"
  by (auto simp: frame_of_def frame_mask bit_and_iff bit_push_bit_iff bit_mask_iff dest: bit_imp_le_length)

subsection \<open>Changes of rights\<close>

text \<open>
  Both walks only ever change the writable, user and no-execute bits, and only in the direction
  that grants a right: bits 1 and 2 are set, bit 63 is cleared.
\<close>

definition grants_word :: "u64 \<Rightarrow> u64 \<Rightarrow> bool" where
  "grants_word e e' \<longleftrightarrow> (\<forall>n<64.
     (if n = 1 \<or> n = 2 then bit e n \<longrightarrow> bit e' n
      else if n = 63 then bit e' n \<longrightarrow> bit e n
      else bit e' n = bit e n))"

definition grants :: "qwords \<Rightarrow> qwords \<Rightarrow> bool" where
  "grants m m' \<longleftrightarrow> (\<forall>a. grants_word (m a) (m' a))"

lemma grants_word_refl [simp]: "grants_word e e"
  by (simp add: grants_word_def)

lemma grants_refl [simp]: "grants m m"
  by (simp add: grants_def)

lemma grants_wordD:
  assumes "grants_word e e'"
  shows "n < 63 \<Longrightarrow> n \<noteq> 1 \<Longrightarrow> n \<noteq> 2 \<Longrightarrow> bit e' n = bit e n"
    "bit e 1 \<Longrightarrow> bit e' 1" "bit e 2 \<Longrightarrow> bit e' 2" "bit e' 63 \<Longrightarrow> bit e 63"
proof -
  have 1: "n < 64 \<Longrightarrow> (if n = 1 \<or> n = 2 then bit e n \<longrightarrow> bit e' n
      else if n = 63 then bit e' n \<longrightarrow> bit e n else bit e' n = bit e n)" for n
    using assms unfolding grants_word_def by blast
  show "n < 63 \<Longrightarrow> n \<noteq> 1 \<Longrightarrow> n \<noteq> 2 \<Longrightarrow> bit e' n = bit e n" using 1 [of n] by simp
  show "bit e 1 \<Longrightarrow> bit e' 1" "bit e 2 \<Longrightarrow> bit e' 2" "bit e' 63 \<Longrightarrow> bit e 63"
    using 1 [of 1] 1 [of 2] 1 [of 63] by simp_all
qed

lemma grants_word_trans: "grants_word e e' \<Longrightarrow> grants_word e' e'' \<Longrightarrow> grants_word e e''"
  unfolding grants_word_def by (meson)

lemma grants_trans: "grants m m' \<Longrightarrow> grants m' m'' \<Longrightarrow> grants m m''"
  unfolding grants_def by (meson grants_word_trans)

lemma grants_bits:
  assumes "grants m m'"
  shows "n < 63 \<Longrightarrow> n \<noteq> 1 \<Longrightarrow> n \<noteq> 2 \<Longrightarrow> bit (m' a) n = bit (m a) n"
    "bit (m a) 1 \<Longrightarrow> bit (m' a) 1" "bit (m a) 2 \<Longrightarrow> bit (m' a) 2" "bit (m' a) 63 \<Longrightarrow> bit (m a) 63"
    "frame_of (m' a) = frame_of (m a)"
proof -
  have w: "grants_word (m a) (m' a)" using assms by (simp add: grants_def)
  note 1 = grants_wordD [OF w]
  show "n < 63 \<Longrightarrow> n \<noteq> 1 \<Longrightarrow> n \<noteq> 2 \<Longrightarrow> bit (m' a) n = bit (m a) n" "bit (m a) 1 \<Longrightarrow> bit (m' a) 1"
    "bit (m a) 2 \<Longrightarrow> bit (m' a) 2" "bit (m' a) 63 \<Longrightarrow> bit (m a) 63"
    by (fact 1)+
  show "frame_of (m' a) = frame_of (m a)"
    using 1(1) by (intro bit_eqI) (auto simp: bit_frame_of)
qed

lemma grants_walk: "grants m m' \<Longrightarrow> walk hhdm root m' va = walk hhdm root m va"
  by (simp add: walk_def Let_def grants_bits)

lemma grants_phys: "grants m m' \<Longrightarrow> phys_of m' path va = phys_of m path va"
  by (simp add: phys_of_def grants_bits)

definition change :: "u64 \<Rightarrow> (u64 \<Rightarrow> u64) \<Rightarrow> qwords \<Rightarrow> qwords" where
  "change a f m = m(a := f (m a))"

lemma grants_change: "(\<And>e. grants_word e (f e)) \<Longrightarrow> grants m (change a f m)"
  by (simp add: grants_def change_def)

lemma granting_entries [simp]:
  "grants_word e (exec_entry e)" "grants_word e (user_entry e)" "grants_word e (e OR PTE_USER)"
  by (simp_all add: grants_word_def bit_exec_entry bit_user_entry bit_or_user)

subsection \<open>The walks of the kernel are the walk of the processor\<close>

lemma exec_page_walk:
  "exec_page hhdm root va m =
     (case walk hhdm root m va of None \<Rightarrow> m | Some path \<Rightarrow> change (List.last path) exec_entry m)"
  by (simp add: exec_page_def walk_def change_def Let_def phys_to_virt_def)

lemma user_entry_again: "user_entry (e OR PTE_USER) = user_entry e"
  by (simp add: user_entry_def or.assoc)

lemma change_again: "change a user_entry (change a (\<lambda>e. e OR PTE_USER) m) = change a user_entry m"
  by (simp add: change_def user_entry_again)

lemma user_page_walk:
  assumes "walk hhdm root m va = Some path"
  shows "user_page hhdm root va m =
    change (List.last path) user_entry (fold (\<lambda>a. change a (\<lambda>e. e OR PTE_USER)) path m)"
proof -
  let ?u = "\<lambda>a. change a (\<lambda>e. e OR PTE_USER)"
  have up: "m(a := m a OR PTE_USER) = ?u a m" "m(a := user_entry (m a)) = change a user_entry m" for a m
    by (simp_all add: change_def)
  have g: "bit (?u a m x) 0 = bit (m x) 0" "bit (?u a m x) 7 = bit (m x) 7" "frame_of (?u a m x) = frame_of (m x)" for a m x
    using grants_bits [OF grants_change [of "\<lambda>e. e OR PTE_USER" m a]] by simp_all
  have h: "(?u a m)(a := user_entry (m a)) = change a user_entry (?u a m)" for a m
    by (simp add: change_def user_entry_again)
  show ?thesis
    using assms unfolding walk_def user_page_def Let_def
    by (auto simp: phys_to_virt_def up g h change_again simp del: fun_upd_apply split: if_splits)
qed

subsection \<open>The loop over the pages of a range\<close>

lemma page_base_shift: "page_base a = push_bit 12 (drop_bit 12 a)"
proof -
  have low: "(0xFFF :: u64) = mask 12" by (simp add: mask_eq_exp_minus_1)
  show ?thesis
    unfolding page_base_def low
    by (intro bit_eqI) (auto simp: bit_and_iff bit_not_iff bit_mask_iff bit_push_bit_iff bit_drop_bit_eq simp del: mask_numeral)
qed

lemma unat_page_base: "unat (page_base a) = unat a div 4096 * 4096"
proof -
  have "unat a < 2 ^ 64" using unsigned_less [where 'a = nat, of a] by simp
  then have "unat a div 4096 * 4096 < 2 ^ 64" by linarith
  then show ?thesis
    unfolding page_base_shift unsigned_push_bit_eq unat_drop
    by (simp add: push_bit_eq_mult take_bit_eq_mod)
qed

lemma table_idx_base: "12 \<le> n \<Longrightarrow> table_idx n (page_base a) = table_idx n a"
  unfolding table_idx_def page_base_shift
  by (intro bit_eqI) (auto simp: bit_simps dest: bit_imp_le_length)

lemma walk_base: "walk hhdm root m (page_base va) = walk hhdm root m va"
proof -
  have t: "table_idx 39 (page_base va) = table_idx 39 va" "table_idx 30 (page_base va) = table_idx 30 va"
    "table_idx 21 (page_base va) = table_idx 21 va" "table_idx 12 (page_base va) = table_idx 12 va"
    by (simp_all add: table_idx_base)
  show ?thesis unfolding walk_def t ..
qed

definition page_list :: "u64 \<Rightarrow> nat \<Rightarrow> u64 list" where
  "page_list addr n = map (\<lambda>i. addr + of_nat i * 0x1000) [0..<n]"

lemma page_list_Suc: "page_list addr (Suc n) = addr # page_list (addr + 0x1000) n"
proof -
  have "[0..<Suc n] = 0 # map Suc [0..<n]" by (simp add: upt_conv_Cons map_Suc_upt del: upt_Suc)
  then show ?thesis by (simp add: page_list_def comp_def algebra_simps)
qed

lemma page_loop_pages:
  "unat addr + 4096 * n = unat end_va \<Longrightarrow>
   page_loop body addr end_va m = Some (fold body (page_list addr n) m)"
proof (induction n arbitrary: addr m)
  case 0
  then have "\<not> addr < end_va" by (simp add: word_less_nat_alt)
  then show ?case by (subst page_loop.simps) (simp add: page_list_def)
next
  case (Suc n)
  have lt: "addr < end_va" using Suc.prems by (simp add: word_less_nat_alt)
  have "unat addr + 4096 < 2 ^ 64" using Suc.prems unsigned_less [where 'a = nat, of end_va] by simp
  then have "unat (addr + 0x1000) = unat addr + 4096" by (simp add: unat_word_ariths)
  then have "page_loop body (addr + 0x1000) end_va (body addr m) =
      Some (fold body (page_list (addr + 0x1000) n) (body addr m))"
    using Suc.prems by (intro Suc.IH) simp
  with lt show ?case by (subst page_loop.simps) (simp add: page_list_Suc)
qed

text \<open>The pages a range of addresses touches, for a range that does not wrap around.\<close>

definition pages_of :: "u64 \<Rightarrow> u64 \<Rightarrow> u64 list" where
  "pages_of vaddr sz =
     page_list (page_base vaddr) ((unat vaddr + unat sz + 4095) div 4096 - unat vaddr div 4096)"

lemma page_loop_range:
  assumes "unat vaddr + unat sz + 4095 < 2 ^ 64"
  shows "page_loop body (page_base vaddr) (page_base (vaddr + sz + 0xFFF)) m =
    Some (fold body (pages_of vaddr sz) m)"
proof -
  have "unat (vaddr + sz + 0xFFF) = unat vaddr + unat sz + 4095"
    using assms by (simp add: unat_word_ariths)
  moreover have "unat vaddr div 4096 \<le> (unat vaddr + unat sz + 4095) div 4096"
    by (intro div_le_mono) simp
  ultimately show ?thesis
    unfolding pages_of_def
    by (intro page_loop_pages) (simp add: unat_page_base diff_mult_distrib2)
qed

lemma in_pages_of:
  assumes "unat vaddr + unat sz + 4095 < 2 ^ 64" "unat vaddr \<le> unat va" "unat va < unat vaddr + unat sz"
  shows "page_base va \<in> set (pages_of vaddr sz)"
proof -
  let ?i = "unat va div 4096 - unat vaddr div 4096"
  have le: "unat vaddr div 4096 \<le> unat va div 4096" using assms(2) by (rule div_le_mono)
  have "unat va div 4096 < (unat vaddr + unat sz + 4095) div 4096" using assms(3) by linarith
  then have i: "?i < (unat vaddr + unat sz + 4095) div 4096 - unat vaddr div 4096" using le by linarith
  have "page_base vaddr + of_nat ?i * 0x1000 = page_base va"
  proof -
    have "of_nat (unat vaddr div 4096 * 4096 + ?i * 4096) = (of_nat (unat va div 4096 * 4096) :: u64)"
      using le by (simp flip: add_mult_distrib)
    then have "of_nat (unat (page_base vaddr)) + of_nat ?i * 0x1000 = (of_nat (unat (page_base va)) :: u64)"
      unfolding unat_page_base by simp
    then show ?thesis by simp
  qed
  then show ?thesis unfolding pages_of_def page_list_def using i by force
qed

lemma fold_grants:
  "(\<And>p m. grants m (body p m)) \<Longrightarrow> grants m (fold body ps m)"
  by (induction ps arbitrary: m) (auto intro: grants_trans)

text \<open>
  A property of the memory that a page of the list establishes and that granting more rights keeps
  holds after the loop.
\<close>

lemma fold_reaches:
  assumes grow: "\<And>p m. grants m (body p m)" and p: "p \<in> set ps"
    and est: "\<And>m'. grants m m' \<Longrightarrow> Q (body p m')" and keep: "\<And>m1 m2. Q m1 \<Longrightarrow> grants m1 m2 \<Longrightarrow> Q m2"
  shows "Q (fold body ps m)"
proof -
  obtain us vs where ps: "ps = us @ p # vs" using p by (auto simp: in_set_conv_decomp)
  have "Q (body p (fold body us m))" by (intro est fold_grants grow)
  moreover have "grants (body p (fold body us m)) (fold body vs (body p (fold body us m)))"
    by (intro fold_grants grow)
  ultimately show ?thesis unfolding ps by (simp add: keep)
qed

lemma exec_page_grants: "grants m (exec_page hhdm root p m)"
  by (auto simp: exec_page_walk grants_change split: option.split)

lemma fold_change_grants: "grants m (fold (\<lambda>a. change a (\<lambda>e. e OR PTE_USER)) path m)"
  by (rule fold_grants) (simp add: grants_change)

lemma user_page_grants: "grants m (user_page hhdm root va m)"
proof -
  let ?u = "\<lambda>a. change a (\<lambda>e. e OR PTE_USER)" let ?f = "\<lambda>e. e OR PTE_USER"
  have up: "m(a := m a OR PTE_USER) = ?u a m" "m(a := user_entry (m a)) = change a user_entry m" for a m
    by (simp_all add: change_def)
  have h: "(?u a m)(a := user_entry (m a)) = change a user_entry (?u a m)" for a m
    by (simp add: change_def user_entry_again)
  have g: "grants m m' \<Longrightarrow> grants m (?u a m')" "grants m m' \<Longrightarrow> grants m (change a user_entry m')" for m m' a
    by (erule grants_trans, rule grants_change, simp)+
  show ?thesis
    unfolding user_page_def Let_def up h by (auto simp: g simp del: fun_upd_apply)
qed

section \<open>Properties of the walks\<close>

definition translate :: "u64 \<Rightarrow> u64 \<Rightarrow> qwords \<Rightarrow> u64 \<Rightarrow> u64 option" where
  "translate hhdm root m va = map_option (\<lambda>path. phys_of m path va) (walk hhdm root m va)"

lemma grants_translate: "grants m m' \<Longrightarrow> translate hhdm root m' va = translate hhdm root m va"
  by (simp add: translate_def grants_walk grants_phys)

text \<open>The entry that maps the page grants writing and execution.\<close>

definition open_leaf :: "qwords \<Rightarrow> u64 list \<Rightarrow> bool" where
  "open_leaf m path \<longleftrightarrow> bit (m (List.last path)) 1 \<and> \<not> bit (m (List.last path)) 63"

lemma open_leaf_grants: "open_leaf m path \<Longrightarrow> grants m m' \<Longrightarrow> open_leaf m' path"
  by (auto simp: open_leaf_def dest: grants_bits(2,4))

lemma open_leaf_rights:
  assumes "open_leaf m path" "path \<noteq> []"
  shows "page_nx m path \<longleftrightarrow> page_nx m (butlast path)"
    "page_writable m path \<longleftrightarrow> page_writable m (butlast path)"
proof -
  have path: "path = butlast path @ [List.last path]" using assms(2) by simp
  show "page_nx m path \<longleftrightarrow> page_nx m (butlast path)"
    unfolding page_nx_def by (subst path, subst list_ex_append) (use assms(1) in \<open>simp add: open_leaf_def\<close>)
  show "page_writable m path \<longleftrightarrow> page_writable m (butlast path)"
    unfolding page_writable_def by (subst path, subst list_all_append) (use assms(1) in \<open>simp add: open_leaf_def\<close>)
qed

lemma walk_not_Nil: "walk hhdm root m va = Some path \<Longrightarrow> path \<noteq> []"
  by (auto simp: walk_def Let_def split: if_splits)

lemma change_opens: "open_leaf (change (List.last path) exec_entry m) path"
    "open_leaf (change (List.last path) user_entry m) path"
  by (simp_all add: open_leaf_def change_def bit_exec_entry bit_user_entry)

lemma page_user_grants: "page_user m path \<Longrightarrow> grants m m' \<Longrightarrow> page_user m' path"
  by (auto simp: page_user_def list_all_iff grants_bits)

lemma fold_user_path: "page_user (fold (\<lambda>a. change a (\<lambda>e. e OR PTE_USER)) path m) path"
proof -
  let ?body = "\<lambda>a. change a (\<lambda>e. e OR PTE_USER)"
  have "bit (fold ?body path m a) 2" if "a \<in> set path" for a
  proof (rule fold_reaches [where Q = "\<lambda>m. bit (m a) 2" and body = ?body and p = a])
    show "grants m (?body p m)" for p m by (rule grants_change) simp
    show "bit (?body a m' a) 2" for m' by (simp add: change_def bit_or_user)
  qed (use that in \<open>auto simp: grants_bits\<close>)
  then show ?thesis by (simp add: page_user_def list_all_iff)
qed

lemma user_page_opens:
  assumes "walk hhdm root m va = Some path"
  shows "page_user (user_page hhdm root va m) path" "open_leaf (user_page hhdm root va m) path"
  unfolding user_page_walk [OF assms]
  by (rule page_user_grants [OF fold_user_path], rule grants_change, simp) (rule change_opens)

lemma fold_exec_unchanged:
  "(\<And>p path. p \<in> set ps \<Longrightarrow> walk hhdm root m p = Some path \<Longrightarrow> List.last path \<noteq> a) \<Longrightarrow>
   fold (exec_page hhdm root) ps m a = m a"
proof (induction ps arbitrary: m)
  case (Cons p ps)
  have "fold (exec_page hhdm root) ps (exec_page hhdm root p m) a = exec_page hhdm root p m a"
    by (intro Cons.IH) (metis Cons.prems exec_page_grants grants_walk list.set_intros(2))
  also have "\<dots> = m a"
    using Cons.prems [of p] by (auto simp: exec_page_walk change_def split: option.split)
  finally show ?case by simp
qed simp

lemma make_executable_spec:
  assumes "unat vaddr + unat sz + 4095 < 2 ^ 64" and root: "root = page_base cr3"
  shows "\<exists>m'. make_executable cr3 hhdm vaddr sz m = Some m' \<and>
    (\<forall>va. walk hhdm root m' va = walk hhdm root m va \<and> translate hhdm root m' va = translate hhdm root m va) \<and>
    (\<forall>va path. unat vaddr \<le> unat va \<and> unat va < unat vaddr + unat sz \<and> walk hhdm root m va = Some path \<longrightarrow>
       page_nx m' path = page_nx m' (butlast path) \<and> page_writable m' path = page_writable m' (butlast path)) \<and>
    (\<forall>a. m' a \<noteq> m a \<longrightarrow> (\<exists>p\<in>set (pages_of vaddr sz). \<exists>path. walk hhdm root m p = Some path \<and> a = List.last path))"
proof -
  let ?m = "fold (exec_page hhdm root) (pages_of vaddr sz) m"
  have run: "make_executable cr3 hhdm vaddr sz m = Some ?m"
    unfolding make_executable_def root by (rule page_loop_range [OF assms(1)])
  have g: "grants m ?m" by (rule fold_grants) (rule exec_page_grants)
  have leaf: "open_leaf ?m path"
    if "unat vaddr \<le> unat va" "unat va < unat vaddr + unat sz" "walk hhdm root m va = Some path" for va path
  proof (rule fold_reaches [OF exec_page_grants in_pages_of [OF assms(1) that(1,2)], where Q = "\<lambda>m. open_leaf m path"])
    show "open_leaf (exec_page hhdm root (page_base va) m') path" if "grants m m'" for m'
      using grants_walk [OF that] \<open>walk hhdm root m va = Some path\<close>
      by (simp add: exec_page_walk walk_base change_opens)
  qed (rule open_leaf_grants)
  have "\<exists>p\<in>set (pages_of vaddr sz). \<exists>path. walk hhdm root m p = Some path \<and> a = List.last path" if "?m a \<noteq> m a" for a
    using fold_exec_unchanged [of "pages_of vaddr sz" hhdm root m a] that by blast
  then show ?thesis
    unfolding run using grants_walk [OF g] grants_translate [OF g] leaf open_leaf_rights walk_not_Nil by blast
qed

text \<open>
  C21: \<open>make_executable\<close>. For a range that does not wrap around the loop ends. No translation
  changes, neither which entries it goes through nor the physical address; every mapped page of the
  range is then executable and writable as far as the upper levels of the page tables allow; and
  only entries that map a page of the range were written.
\<close>

theorem make_executable_correct:
  assumes "unat vaddr + unat sz + 4095 < 2 ^ 64" and root: "root = page_base cr3"
  shows "\<exists>m'. make_executable cr3 hhdm vaddr sz m = Some m' \<and>
    (\<forall>va. walk hhdm root m' va = walk hhdm root m va \<and> translate hhdm root m' va = translate hhdm root m va) \<and>
    (\<forall>va path. unat vaddr \<le> unat va \<and> unat va < unat vaddr + unat sz \<and> walk hhdm root m va = Some path \<longrightarrow>
       page_nx m' path = page_nx m' (butlast path) \<and> page_writable m' path = page_writable m' (butlast path)) \<and>
    (\<forall>a. m' a \<noteq> m a \<longrightarrow> (\<exists>p\<in>set (pages_of vaddr sz). \<exists>path. walk hhdm root m p = Some path \<and> a = List.last path))"
  using assms by (rule make_executable_spec)

text \<open>
  \<open>make_user_accessible\<close>. For a range that does not wrap around the loop ends, no translation
  changes, and every mapped page of the range is accessible from user mode, and writable and
  executable as far as the upper levels allow.
\<close>

theorem make_user_accessible_correct:
  assumes "unat vaddr + unat sz + 4095 < 2 ^ 64" and root: "root = page_base cr3"
  shows "\<exists>m'. make_user_accessible cr3 hhdm vaddr sz m = Some m' \<and>
    (\<forall>va. walk hhdm root m' va = walk hhdm root m va \<and> translate hhdm root m' va = translate hhdm root m va) \<and>
    (\<forall>va path. unat vaddr \<le> unat va \<and> unat va < unat vaddr + unat sz \<and> walk hhdm root m va = Some path \<longrightarrow>
       page_user m' path \<and> page_nx m' path = page_nx m' (butlast path) \<and>
       page_writable m' path = page_writable m' (butlast path))"
proof -
  let ?m = "fold (user_page hhdm root) (pages_of vaddr sz) m"
  have run: "make_user_accessible cr3 hhdm vaddr sz m = Some ?m"
    unfolding make_user_accessible_def root by (rule page_loop_range [OF assms(1)])
  have g: "grants m ?m" by (rule fold_grants) (rule user_page_grants)
  have leaf: "page_user ?m path \<and> open_leaf ?m path"
    if "unat vaddr \<le> unat va" "unat va < unat vaddr + unat sz" "walk hhdm root m va = Some path" for va path
  proof (rule fold_reaches [OF user_page_grants in_pages_of [OF assms(1) that(1,2)],
        where Q = "\<lambda>m. page_user m path \<and> open_leaf m path"])
    show "page_user (user_page hhdm root (page_base va) m') path \<and> open_leaf (user_page hhdm root (page_base va) m') path"
      if "grants m m'" for m'
      using user_page_opens [of hhdm root m' "page_base va" path] grants_walk [OF that] \<open>walk hhdm root m va = Some path\<close>
      by (simp add: walk_base)
  qed (blast intro: open_leaf_grants page_user_grants)
  show ?thesis
    unfolding run using grants_walk [OF g] grants_translate [OF g] leaf open_leaf_rights walk_not_Nil by blast
qed

text \<open>
  Large pages. If an address of the range is mapped by a 2 MiB page, \<open>make_user_accessible\<close>
  opens the whole 2 MiB to user mode, whatever the size asked for: also the kernel's own memory
  around it when the range lies in a direct map built of large pages.
\<close>

theorem large_page_opened_as_a_whole:
  assumes "unat vaddr + unat sz + 4095 < 2 ^ 64" and root: "root = page_base cr3"
    and va: "unat vaddr \<le> unat va" "unat va < unat vaddr + unat sz" "walk hhdm root m va = Some [a4, a3, a2]"
    and near: "drop_bit 21 va' = drop_bit 21 va"
  shows "\<exists>m'. make_user_accessible cr3 hhdm vaddr sz m = Some m' \<and>
    walk hhdm root m' va' = Some [a4, a3, a2] \<and> page_user m' [a4, a3, a2] \<and>
    page_writable m' [a4, a3, a2] = page_writable m' [a4, a3]"
proof -
  have idx: "table_idx n va' = table_idx n va" if "21 \<le> n" for n
    using arg_cong [OF near, of "drop_bit (n - 21)"] that by (simp add: table_idx_def)
  have bits: "bit (m a4) 0" "bit (m a3) 0" "\<not> bit (m a3) 7" "bit (m a2) 0" "bit (m a2) 7"
    "a4 = entry (hhdm + root) (table_idx 39 va)" "a3 = entry (hhdm + frame_of (m a4)) (table_idx 30 va)"
    "a2 = entry (hhdm + frame_of (m a3)) (table_idx 21 va)"
    using va(3) by (auto simp: walk_def Let_def split: if_splits)
  have "walk hhdm root m va' = Some [a4, a3, a2]"
    using bits idx [of 39] idx [of 30] idx [of 21] by (simp add: walk_def Let_def)
  then show ?thesis
    using make_user_accessible_correct [OF assms(1) root, of hhdm m] va by fastforce
qed

text \<open>Tables that map the first 2 MiB of the address space by one page, not executable.\<close>

definition sample_tables :: qwords where
  "sample_tables = (\<lambda>_. 0)(0x1000 := 0x2003, 0x2000 := 0x3003, 0x3000 := 0x8000000000000081)"

lemma sample_walk: "walk 0 0x1000 sample_tables 0x5000 = Some [0x1000, 0x2000, 0x3000]"
  by (simp add: walk_def sample_tables_def table_idx_def entry_def frame_of_def Let_def bit_numeral_rec)

lemma sample_root: "page_base 0x1000 = 0x1000"
  by (simp add: page_base_def)

theorem make_executable_correct_witness:
  "\<exists>m'. make_executable 0x1000 0 0x5000 10 sample_tables = Some m' \<and>
     \<not> page_nx m' [0x1000, 0x2000, 0x3000]"
proof -
  have pages: "pages_of 0x5000 10 = [0x5000]"
    by (simp add: pages_of_def page_list_def page_base_def)
  obtain m' where m': "make_executable 0x1000 0 0x5000 10 sample_tables = Some m'"
    "page_nx m' [0x1000, 0x2000, 0x3000] = page_nx m' [0x1000, 0x2000]"
    "\<And>a. a \<noteq> 0x3000 \<Longrightarrow> m' a = sample_tables a"
    using make_executable_correct [of "0x5000" 10 "0x1000" "0x1000" 0 sample_tables] sample_walk sample_root
    by (fastforce simp: pages)
  have "\<not> page_nx m' [0x1000, 0x2000]"
    by (simp add: page_nx_def m'(3)) (simp add: sample_tables_def bit_numeral_rec)
  then show ?thesis using m' by simp
qed

theorem make_user_accessible_correct_witness:
  "\<exists>m'. make_user_accessible 0x1000 0 0x5000 10 sample_tables = Some m' \<and>
     page_user m' [0x1000, 0x2000, 0x3000]"
  using make_user_accessible_correct [of "0x5000" 10 "0x1000" "0x1000" 0 sample_tables] sample_walk sample_root
  by fastforce

theorem large_page_opened_as_a_whole_witness:
  "\<exists>m'. make_user_accessible 0x1000 0 0x5000 10 sample_tables = Some m' \<and>
     walk 0 0x1000 m' 0x1FF000 = Some [0x1000, 0x2000, 0x3000] \<and> page_user m' [0x1000, 0x2000, 0x3000]"
  using large_page_opened_as_a_whole [of "0x5000" 10 "0x1000" "0x1000" "0x5000" 0 sample_tables "0x1000" "0x2000" "0x3000" "0x1FF000"]
    sample_walk sample_root
  by fastforce
end
