(* ===== verification/Mmio_Map.thy ===== *)
theory Mmio_Map
  imports Paging
begin

text \<open>
  What \<open>map_mmio\<close> (\<open>src/kern/mem.rs\<close>) achieves: the pages of a device become reachable through the
  direct map, existing translations stay, and new tables come from the page allocator.
\<close>

section \<open>The entries a translation looks at\<close>

text \<open>With their levels: 3 for the PML4 down to 0 for a page table.\<close>

fun trail :: "u64 \<Rightarrow> qwords \<Rightarrow> nat \<Rightarrow> u64 \<Rightarrow> u64 \<Rightarrow> (nat \<times> u64) list" where
  "trail hhdm m 0 tbl va = []"
| "trail hhdm m (Suc n) tbl va =
     (let a = entry tbl (table_idx (12 + 9 * n) va)
      in (n, a) # (if bit (m a) 0 \<and> \<not> ((n = 1 \<or> n = 2) \<and> bit (m a) 7)
                   then trail hhdm m n (hhdm + frame_of (m a)) va else []))"

lemma walk_trail:
  "walk hhdm root m va =
     (let t = map snd (trail hhdm m 4 (hhdm + root) va) in if bit (m (List.last t)) 0 then Some t else None)"
proof -
  have four: "(4 :: nat) = Suc (Suc (Suc (Suc 0)))" by simp
  show ?thesis unfolding four walk_def by (simp add: Let_def)
qed

lemma trail_not_Nil: "trail hhdm m (Suc n) tbl va \<noteq> []"
  by (simp add: Let_def)

text \<open>Only the last entry of a trail can be absent.\<close>

lemma trail_last:
  "(k, a) \<in> set (trail hhdm m n tbl va) \<Longrightarrow> \<not> bit (m a) 0 \<Longrightarrow> List.last (trail hhdm m n tbl va) = (k, a)"
  by (induction hhdm m n tbl va rule: trail.induct) (auto simp: Let_def split: if_splits)

section \<open>The pages the allocator hands out\<close>

fun pool :: "mem \<Rightarrow> usize list \<Rightarrow> bool" where
  "pool h [] = (snd (mem_alloc_pages h 0) = None)"
| "pool h (p # ps) =
     (snd (mem_alloc_pages h 0) = Some p \<and> pool (fst (mem_alloc_pages h 0)) ps)"

definition in_page :: "u64 \<Rightarrow> u64 \<Rightarrow> bool" where
  "in_page page a \<longleftrightarrow> a - page < 4096"

definition page_ok :: "u64 \<Rightarrow> usize \<Rightarrow> bool" where
  "page_ok hhdm p \<longleftrightarrow> p < 2 ^ 64 \<and> frame_of (of_nat p - hhdm) = of_nat p - hhdm"

lemma bit_page_base: "bit (page_base a) n \<longleftrightarrow> 12 \<le> n \<and> bit a n"
  unfolding page_base_shift by (auto simp: bit_simps dest: bit_imp_le_length)

lemma frame_low:
  assumes f: "frame_of \<phi> = \<phi>" and lt: "x - \<phi> < 4096" shows "\<phi> = page_base x"
proof -
  have "page_base \<phi> = \<phi>"
    by (subst (2) f [symmetric], rule bit_eqI, subst bit_page_base, subst (1) f [symmetric]) (auto simp: bit_frame_of)
  then have al: "unat \<phi> = unat \<phi> div 4096 * 4096" using unat_page_base [of \<phi>] by simp
  have "\<phi> \<le> 0x000FFFFFFFFFF000" by (subst f [symmetric]) (simp add: frame_of_def word_and_le1)
  then have "unat \<phi> \<le> 0x000FFFFFFFFFF000" by (simp add: word_le_nat_alt)
  moreover have r: "unat (x - \<phi>) < 4096" using lt by (simp add: word_less_nat_alt)
  ultimately have "unat (\<phi> + (x - \<phi>)) = unat \<phi> + unat (x - \<phi>)"
    by (intro unat_add_lem [THEN iffD1]) simp
  then have x: "unat x = unat \<phi> + unat (x - \<phi>)" by simp
  have "unat x div 4096 = unat \<phi> div 4096"
    using r al unfolding x by linarith
  then have "unat (page_base x) = unat \<phi>" using al by (simp add: unat_page_base)
  then show ?thesis by (simp add: word_unat_eq_iff)
qed

lemma idx_less: "table_idx n va < 512"
proof -
  have "table_idx n va \<le> 0x1FF" by (simp add: table_idx_def word_and_le1)
  then show ?thesis by (simp add: word_le_nat_alt word_less_nat_alt)
qed

lemma entry_in_page: "in_page tbl (entry tbl (table_idx n va))"
proof -
  have "8 * table_idx n va < 4096"
    using idx_less [of n va] by (simp add: word_less_nat_alt unat_word_ariths)
  then show ?thesis by (simp add: in_page_def entry_def)
qed

section \<open>Adding a table\<close>

lemma trail_update:
  assumes lv: "\<And>k a. (k, a) \<in> set (trail hhdm m n tbl va) \<Longrightarrow> lev a = k \<and> \<not> in_page page a"
    and s: "\<not> bit (m s) 0" "\<not> in_page page s" "lev s = j"
    and same: "\<And>a. a \<noteq> s \<Longrightarrow> \<not> in_page page a \<Longrightarrow> m' a = m a"
    and zero: "\<And>a. in_page page a \<Longrightarrow> m' a = 0"
    and new: "bit (m' s) 0" "\<not> bit (m' s) 7" "hhdm + frame_of (m' s) = page"
  shows "trail hhdm m' n tbl va =
    trail hhdm m n tbl va @
    (if (j, s) \<in> set (trail hhdm m n tbl va) \<and> 0 < j
     then [(j - 1, entry page (table_idx (12 + 9 * (j - 1)) va))] else [])"
  using lv
proof (induction n arbitrary: tbl)
  case (Suc n)
  let ?a = "entry tbl (table_idx (12 + 9 * n) va)"
  have a: "lev ?a = n" "\<not> in_page page ?a" using Suc.prems [of n ?a] by (simp_all add: Let_def)
  show ?case
  proof (cases "?a = s")
    case True
    then have j: "j = n" using a s by simp
    show ?thesis
    proof (cases n)
      case 0
      then show ?thesis using True j by (simp add: Let_def)
    next
      case (Suc k)
      have "m' (entry page (table_idx (12 + 9 * k) va)) = 0" by (intro zero entry_in_page)
      then have "trail hhdm m' n (hhdm + frame_of (m' s)) va = [(k, entry page (table_idx (12 + 9 * k) va))]"
        unfolding new Suc by (simp add: Let_def)
      then show ?thesis using True j s new Suc by (simp add: Let_def)
    qed
  next
    case False
    then have eq: "m' ?a = m ?a" using same a by simp
    show ?thesis
    proof (cases "bit (m ?a) 0 \<and> \<not> ((n = 1 \<or> n = 2) \<and> bit (m ?a) 7)")
      case True
      have "trail hhdm m' n (hhdm + frame_of (m ?a)) va = trail hhdm m n (hhdm + frame_of (m ?a)) va @
          (if (j, s) \<in> set (trail hhdm m n (hhdm + frame_of (m ?a)) va) \<and> 0 < j
           then [(j - 1, entry page (table_idx (12 + 9 * (j - 1)) va))] else [])"
      proof (intro Suc.IH)
        show "lev a = k \<and> \<not> in_page page a" if "(k, a) \<in> set (trail hhdm m n (hhdm + frame_of (m ?a)) va)" for k a
          using Suc.prems [of k a] True that by (simp add: Let_def)
      qed
      with True eq False show ?thesis by (simp add: Let_def)
    next
      case no: False
      with eq False show ?thesis by (auto simp: Let_def)
    qed
  qed
qed simp

lemma trail_leaf:
  assumes "\<And>k a. (k, a) \<in> set (trail hhdm m n tbl va) \<Longrightarrow> lev a = k" "lev s = 0"
  shows "trail hhdm (m(s := v)) n tbl va = trail hhdm m n tbl va"
  using assms(1)
proof (induction n arbitrary: tbl)
  case (Suc n)
  let ?a = "entry tbl (table_idx (12 + 9 * n) va)"
  have "lev ?a = n" using Suc.prems [of n ?a] by (simp add: Let_def)
  then have "n = 0 \<or> ?a \<noteq> s" using assms(2) by auto
  then show ?case
    using Suc.IH [of "hhdm + frame_of (m ?a)"] Suc.prems by (auto simp: Let_def)
qed simp

lemma trail_end:
  "(k, a) \<in> set (trail hhdm m n tbl va) \<Longrightarrow> k = 0 \<or> \<not> bit (m a) 0 \<or> ((k = 1 \<or> k = 2) \<and> bit (m a) 7) \<Longrightarrow>
   List.last (trail hhdm m n tbl va) = (k, a)"
  by (induction hhdm m n tbl va rule: trail.induct) (auto simp: Let_def split: if_splits)

lemma trail_next:
  "(Suc k, a) \<in> set (trail hhdm m n tbl va) \<Longrightarrow> bit (m a) 0 \<Longrightarrow> \<not> ((Suc k = 1 \<or> Suc k = 2) \<and> bit (m a) 7) \<Longrightarrow>
   (k, entry (hhdm + frame_of (m a)) (table_idx (12 + 9 * k) va)) \<in> set (trail hhdm m n tbl va)"
  by (induction hhdm m n tbl va rule: trail.induct) (auto simp: Let_def split: if_splits)

lemma trail_level: "(k, a) \<in> set (trail hhdm m n tbl va) \<Longrightarrow> k < n"
  by (induction hhdm m n tbl va rule: trail.induct) (auto simp: Let_def split: if_splits)

lemma length_trail: "(0, a) \<in> set (trail hhdm m n tbl va) \<Longrightarrow> length (trail hhdm m n tbl va) = n"
  by (induction hhdm m n tbl va rule: trail.induct) (auto simp: Let_def dest: trail_level split: if_splits)

section \<open>The invariant\<close>

text \<open>
  The tables form a tree (no table is used at two levels, and only addresses that agree in the
  index bits of an entry's level and above look at the entry), the remaining pages of the allocator
  are distinct, aligned, and none of them holds an entry some translation looks at.
\<close>

definition key :: "nat \<Rightarrow> u64 \<Rightarrow> u64" where
  "key k va = drop_bit (12 + 9 * k) (take_bit 48 va)"

definition tables_ok :: "u64 \<Rightarrow> u64 \<Rightarrow> (u64 \<Rightarrow> nat) \<Rightarrow> mem \<Rightarrow> qwords \<Rightarrow> usize list \<Rightarrow> bool" where
  "tables_ok hhdm root lev h m ps \<longleftrightarrow>
     m_hhdm h = hhdm \<and> pool h ps \<and> distinct ps \<and> list_all (page_ok hhdm) ps \<and>
     (\<forall>va k a. (k, a) \<in> set (trail hhdm m 4 (hhdm + root) va) \<longrightarrow>
        lev a = k \<and> (\<forall>p\<in>set ps. \<not> in_page (of_nat p) a)) \<and>
     (\<forall>va va' k a. (k, a) \<in> set (trail hhdm m 4 (hhdm + root) va) \<longrightarrow>
        (k, a) \<in> set (trail hhdm m 4 (hhdm + root) va') \<longrightarrow> key k va = key k va')"

definition extends :: "u64 \<Rightarrow> u64 \<Rightarrow> qwords \<Rightarrow> qwords \<Rightarrow> bool" where
  "extends hhdm root m m' \<longleftrightarrow> (\<forall>va path. walk hhdm root m va = Some path \<longrightarrow>
     walk hhdm root m' va = Some path \<and> (\<forall>a\<in>set path. m' a = m a))"

lemma extends_refl [simp]: "extends hhdm root m m"
  by (simp add: extends_def)

lemma extends_trans: "extends hhdm root m m' \<Longrightarrow> extends hhdm root m' m'' \<Longrightarrow> extends hhdm root m m''"
  unfolding extends_def by metis

lemma key_step:
  assumes "key (Suc j) va = key (Suc j) va'" "table_idx (12 + 9 * j) va = table_idx (12 + 9 * j) va'" "j < 3"
  shows "key j va = key j va'"
proof (rule bit_eqI)
  fix n
  have mask9: "(0x1FF :: u64) = mask 9" by (simp add: mask_eq_exp_minus_1)
  have lo: "bit (table_idx (12 + 9 * j) w) n \<longleftrightarrow> bit (key j w) n" if "n < 9" for w
    using that assms(3) unfolding table_idx_def key_def mask9
    by (simp add: bit_and_iff bit_mask_iff bit_drop_bit_eq bit_take_bit_iff del: mask_numeral)
  have hi: "bit (key j w) n \<longleftrightarrow> bit (key (Suc j) w) (n - 9)" if "9 \<le> n" for w
  proof -
    have "12 + 9 * j + n = 12 + 9 * Suc j + (n - 9)" using that by simp
    then show ?thesis unfolding key_def bit_drop_bit_eq comp_def by (simp only: ac_simps)
  qed
  show "bit (key j va) n \<longleftrightarrow> bit (key j va') n"
    using lo [of va] lo [of va'] hi [of va] hi [of va'] assms(1,2) by (cases "n < 9") (simp_all add: not_less)
qed

lemma entry_inject:
  assumes "entry tbl (table_idx n va) = entry tbl (table_idx n' va')"
  shows "table_idx n va = table_idx n' va'"
proof -
  have "8 * table_idx n va = 8 * table_idx n' va'" using assms by (simp add: entry_def)
  moreover have "unat (8 * table_idx k w) = 8 * unat (table_idx k w)" for k w
    using idx_less [of k w] by (simp add: word_less_nat_alt unat_word_ariths)
  ultimately have "8 * unat (table_idx n va) = 8 * unat (table_idx n' va')" by metis
  then show ?thesis by (simp add: word_unat_eq_iff)
qed

lemma pages_disjoint:
  assumes "page_ok hhdm p" "page_ok hhdm q" "in_page (of_nat p) a" "in_page (of_nat q) a"
  shows "p = q"
proof -
  have "of_nat r - hhdm = page_base (a - hhdm)" if "page_ok hhdm r" "in_page (of_nat r) a" for r
  proof (rule frame_low)
    show "frame_of (of_nat r - hhdm) = of_nat r - hhdm" using that(1) by (simp add: page_ok_def)
    have "a - hhdm - (of_nat r - hhdm) = a - of_nat r" by simp
    then show "a - hhdm - (of_nat r - hhdm) < 4096" using that(2) by (simp add: in_page_def)
  qed
  from this [OF assms(1,3)] this [OF assms(2,4)] have "(of_nat p :: u64) - hhdm = of_nat q - hhdm" by simp
  then have "(of_nat p :: u64) = of_nat q" by (metis diff_add_cancel)
  then have "unat (of_nat p :: u64) = unat (of_nat q :: u64)" by simp
  then show ?thesis using assms(1,2) by (simp add: page_ok_def unat_of_usz)
qed

lemma walk_SomeD:
  assumes "walk hhdm root m va = Some path" "(k, a) \<in> set (trail hhdm m 4 (hhdm + root) va)"
  shows "bit (m a) 0"
proof (rule ccontr)
  assume "\<not> bit (m a) 0"
  moreover from trail_last [OF assms(2) this] have "List.last (map snd (trail hhdm m 4 (hhdm + root) va)) = a"
    using assms(2) by (subst last_map) auto
  ultimately show False using assms(1) by (simp add: walk_trail Let_def split: if_splits)
qed

lemma walk_path: "walk hhdm root m va = Some path \<Longrightarrow> path = map snd (trail hhdm m 4 (hhdm + root) va)"
  by (simp add: walk_trail Let_def split: if_splits)

lemma walk_end:
  assumes "(k, a) \<in> set (trail hhdm m 4 (hhdm + root) va)" "k = 0 \<or> ((k = 1 \<or> k = 2) \<and> bit (m a) 7)" "bit (m a) 0"
  shows "walk hhdm root m va = Some (map snd (trail hhdm m 4 (hhdm + root) va))"
    "List.last (map snd (trail hhdm m 4 (hhdm + root) va)) = a"
proof -
  have "List.last (trail hhdm m 4 (hhdm + root) va) = (k, a)" using assms by (intro trail_end) auto
  then show "List.last (map snd (trail hhdm m 4 (hhdm + root) va)) = a"
    using assms(1) by (subst last_map) auto
  then show "walk hhdm root m va = Some (map snd (trail hhdm m 4 (hhdm + root) va))"
    using assms(3) by (simp add: walk_trail Let_def)
qed

lemma alloc_hhdm: "m_hhdm (fst (mem_alloc_pages h k)) = m_hhdm h"
  by (simp add: mem_alloc_pages_def split_beta)

lemma table_entry_bits:
  assumes "frame_of \<phi> = \<phi>"
  defines "v \<equiv> (\<phi> OR PTE_PRESENT) OR PTE_WRITABLE"
  shows "bit v 0" "\<not> bit v 7" "frame_of v = \<phi>"
proof -
  have low: "\<not> bit \<phi> n" if "n < 12" for n
    using that by (subst assms(1) [symmetric]) (simp add: bit_frame_of)
  show "bit v 0" "\<not> bit v 7" using low [of 7] by (simp_all add: v_def bit_or_iff)
  have "frame_of v = frame_of \<phi>" by (rule bit_eqI) (auto simp: v_def bit_frame_of bit_or_iff)
  then show "frame_of v = \<phi>" using assms(1) by simp
qed

text \<open>One call of \<open>add_table\<close> on an entry above the last level.\<close>

lemma add_table_step:
  assumes ok: "tables_ok hhdm root lev h m ps" and s: "(Suc j, s) \<in> set (trail hhdm m 4 (hhdm + root) va)"
  obtains (present) "bit (m s) 0" "add_table h s m = (h, Some m)"
  | (full) h' where "\<not> bit (m s) 0" "ps = []" "add_table h s m = (h', None)" "m_hhdm h' = hhdm"
  | (added) h' m' lev' p ps' where "\<not> bit (m s) 0" "ps = p # ps'" "add_table h s m = (h', Some m')"
      "tables_ok hhdm root lev' h' m' ps'" "extends hhdm root m m'" "bit (m' s) 0" "\<not> bit (m' s) 7"
      "(Suc j, s) \<in> set (trail hhdm m' 4 (hhdm + root) va)"
      "\<And>va'. walk hhdm root m va' = None \<Longrightarrow> walk hhdm root m' va' = None"
proof (cases "bit (m s) 0")
  case True
  then show ?thesis by (intro present) (simp_all add: add_table_def)
next
  case absent: False
  show ?thesis
  proof (cases ps)
    case Nil
    then have "snd (mem_alloc_pages h 0) = None" using ok by (simp add: tables_ok_def)
    then show ?thesis using Nil absent ok alloc_hhdm [of h 0]
      by (intro full [of "fst (mem_alloc_pages h 0)"])
        (auto simp: add_table_def tables_ok_def split: prod.splits option.splits)
  next
    case (Cons p ps')
    let ?h = "fst (mem_alloc_pages h 0)" and ?P = "of_nat p :: u64"
    let ?v = "(virt_to_phys ?h p OR PTE_PRESENT) OR PTE_WRITABLE"
    let ?m = "(zero_page ?P m)(s := ?v)"
    let ?lev = "\<lambda>a. if in_page ?P a then j else lev a"
    have inv: "m_hhdm h = hhdm" "snd (mem_alloc_pages h 0) = Some p" "pool ?h ps'" "p \<notin> set ps'" "distinct ps'"
      "page_ok hhdm p" "list_all (page_ok hhdm) ps'"
      using ok Cons by (simp_all add: tables_ok_def)
    have sep: "key k va = key k va'" if "(k, a) \<in> set (trail hhdm m 4 (hhdm + root) va)"
      "(k, a) \<in> set (trail hhdm m 4 (hhdm + root) va')" for k a va va'
      using ok that unfolding tables_ok_def by blast
    have lv: "lev a = k" "\<not> in_page ?P a" "q \<in> set ps' \<Longrightarrow> \<not> in_page (of_nat q) a"
      if "(k, a) \<in> set (trail hhdm m 4 (hhdm + root) va')" for k a va' q
      using ok that Cons by (auto simp: tables_ok_def)
    have phys: "virt_to_phys ?h p = ?P - hhdm" "m_hhdm ?h = hhdm" by (simp_all add: virt_to_phys_def alloc_hhdm inv)
    have fr: "frame_of (?P - hhdm) = ?P - hhdm" using inv(6) by (simp add: page_ok_def)
    note v = table_entry_bits [OF fr, folded phys]
    have new: "bit (?m s) 0" "\<not> bit (?m s) 7" "hhdm + frame_of (?m s) = ?P"
      using v phys by simp_all
    have out: "\<not> in_page ?P s" "lev s = Suc j" using lv [OF s] by simp_all
    have same: "a \<noteq> s \<Longrightarrow> \<not> in_page ?P a \<Longrightarrow> ?m a = m a" and zero: "in_page ?P a \<Longrightarrow> ?m a = 0" for a
      using out by (auto simp: zero_page_def in_page_def)
    have tr: "trail hhdm ?m 4 (hhdm + root) va' = trail hhdm m 4 (hhdm + root) va' @
        (if (Suc j, s) \<in> set (trail hhdm m 4 (hhdm + root) va')
         then [(j, entry ?P (table_idx (12 + 9 * j) va'))] else [])" for va'
      using trail_update [of hhdm m 4 "hhdm + root" va' lev ?P s "Suc j" ?m] lv(1,2) absent out same zero new
      by simp
    have "tables_ok hhdm root ?lev ?h ?m ps'"
      unfolding tables_ok_def
    proof (intro conjI allI impI)
      fix va' k a assume "(k, a) \<in> set (trail hhdm ?m 4 (hhdm + root) va')"
      then consider "(k, a) \<in> set (trail hhdm m 4 (hhdm + root) va')" | "k = j" "in_page ?P a"
        unfolding tr by (auto split: if_splits intro: entry_in_page)
      then have "?lev a = k \<and> (\<forall>q\<in>set ps'. \<not> in_page (of_nat q) a)"
      proof cases
        case 1
        then show ?thesis using lv [OF 1] by auto
      next
        case 2
        then show ?thesis using pages_disjoint [OF inv(6)] inv(4,7) by (auto simp: list_all_iff)
      qed
      then show "?lev a = k" "\<forall>q\<in>set ps'. \<not> in_page (of_nat q) a" by auto
    next
      fix va1 va2 k a
      assume 1: "(k, a) \<in> set (trail hhdm ?m 4 (hhdm + root) va1)" and 2: "(k, a) \<in> set (trail hhdm ?m 4 (hhdm + root) va2)"
      show "key k va1 = key k va2"
      proof (cases "in_page ?P a")
        case True
        then have "(k, a) \<notin> set (trail hhdm m 4 (hhdm + root) va1)" "(k, a) \<notin> set (trail hhdm m 4 (hhdm + root) va2)"
          using lv(2) by blast+
        then have new1: "k = j" "a = entry ?P (table_idx (12 + 9 * j) va1)" "a = entry ?P (table_idx (12 + 9 * j) va2)"
          "(Suc j, s) \<in> set (trail hhdm m 4 (hhdm + root) va1)" "(Suc j, s) \<in> set (trail hhdm m 4 (hhdm + root) va2)"
          using 1 2 unfolding tr by (auto split: if_splits)
        have "table_idx (12 + 9 * j) va1 = table_idx (12 + 9 * j) va2" using new1(2,3) by (intro entry_inject [of ?P]) simp
        moreover have "j < 3" using trail_level [OF new1(4)] by simp
        ultimately show ?thesis using key_step [OF sep [OF new1(4,5)]] new1(1) by simp
      next
        case False
        then have "(k, a) \<in> set (trail hhdm m 4 (hhdm + root) va1)" "(k, a) \<in> set (trail hhdm m 4 (hhdm + root) va2)"
          using 1 2 entry_in_page unfolding tr by (auto split: if_splits)
        then show ?thesis by (rule sep)
      qed
    qed (use inv phys in simp_all)
    moreover have "extends hhdm root m ?m"
      unfolding extends_def
    proof (intro allI impI)
      fix va' path assume w: "walk hhdm root m va' = Some path"
      have no: "(k, s) \<notin> set (trail hhdm m 4 (hhdm + root) va')" for k
        using walk_SomeD [OF w] absent by blast
      then have t: "trail hhdm ?m 4 (hhdm + root) va' = trail hhdm m 4 (hhdm + root) va'" by (simp add: tr)
      have eq: "?m a = m a" if "a \<in> set path" for a
      proof -
        obtain k where "(k, a) \<in> set (trail hhdm m 4 (hhdm + root) va')"
          using \<open>a \<in> set path\<close> walk_path [OF w] by auto
        then show ?thesis using no lv(2) by (intro same) auto
      qed
      have "List.last path \<in> set path" using walk_not_Nil [OF w] by simp
      then have "walk hhdm root ?m va' = Some path"
        using w eq [of "List.last path"] walk_path [OF w] unfolding walk_trail Let_def t
        by (simp split: if_splits)
      then show "walk hhdm root ?m va' = Some path \<and> (\<forall>a\<in>set path. ?m a = m a)" using eq by blast
    qed
    moreover have "walk hhdm root ?m va' = None" if w: "walk hhdm root m va' = None" for va'
    proof (cases "(Suc j, s) \<in> set (trail hhdm m 4 (hhdm + root) va')")
      case True
      then show ?thesis unfolding walk_trail Let_def tr by (simp add: zero [OF entry_in_page] del: fun_upd_apply)
    next
      case False
      let ?e = "List.last (trail hhdm m 4 (hhdm + root) va')"
      have ne: "trail hhdm m 4 (hhdm + root) va' \<noteq> []" using trail_not_Nil [of hhdm m 3] by simp
      then have in_t: "(fst ?e, snd ?e) \<in> set (trail hhdm m 4 (hhdm + root) va')" by simp
      have "snd ?e \<noteq> s" using lv(1) [OF in_t] out(2) in_t False by (metis prod.collapse)
      then have "?m (snd ?e) = m (snd ?e)" using lv(2) [OF in_t] by (rule same)
      moreover have "\<not> bit (m (snd ?e)) 0" using w ne by (simp add: walk_trail Let_def last_map split: if_splits)
      ultimately show ?thesis unfolding walk_trail Let_def tr using False ne by (simp add: last_map del: fun_upd_apply)
    qed
    moreover have "(Suc j, s) \<in> set (trail hhdm ?m 4 (hhdm + root) va)" using s by (simp add: tr)
    moreover have "add_table h s m = (?h, Some ?m)"
      using absent inv(2) by (simp add: add_table_def split_beta split: prod.splits option.splits)
    ultimately show ?thesis using absent Cons new(1,2) by (intro added [of p ps' ?h ?m ?lev]) auto
  qed
qed

section \<open>One page\<close>

text \<open>What one step has achieved when \<open>n\<close> pages at most were taken from the allocator.\<close>

definition progress ::
  "u64 \<Rightarrow> u64 \<Rightarrow> nat \<Rightarrow> qwords \<Rightarrow> usize list \<Rightarrow> (u64 \<Rightarrow> nat) \<Rightarrow> mem \<Rightarrow> qwords \<Rightarrow> usize list \<Rightarrow> bool" where
  "progress hhdm root n m ps lev' h' m' ps' \<longleftrightarrow>
     tables_ok hhdm root lev' h' m' ps' \<and> extends hhdm root m m' \<and> length ps \<le> length ps' + n \<and>
     (\<forall>va. walk hhdm root m va = None \<longrightarrow> walk hhdm root m' va = None)"

lemma progress_trans:
  "progress hhdm root n m ps lev1 h1 m1 ps1 \<Longrightarrow> progress hhdm root k m1 ps1 lev2 h2 m2 ps2 \<Longrightarrow>
   progress hhdm root (n + k) m ps lev2 h2 m2 ps2"
  unfolding progress_def by (auto intro: extends_trans)

lemma progress_mono: "progress hhdm root n m ps lev1 h1 m1 ps1 \<Longrightarrow> n \<le> k \<Longrightarrow> progress hhdm root k m ps lev1 h1 m1 ps1"
  unfolding progress_def by auto

lemma add_table_cases:
  assumes ok: "tables_ok hhdm root lev h m ps" and s: "(Suc j, s) \<in> set (trail hhdm m 4 (hhdm + root) va)"
  obtains (failed) h' where "add_table h s m = (h', None)" "ps = []"
  | (ready) h' m' lev' ps' where "add_table h s m = (h', Some m')" "progress hhdm root 1 m ps lev' h' m' ps'"
      "bit (m' s) 0" "bit (m' s) 7 \<Longrightarrow> bit (m s) 0 \<and> bit (m s) 7"
      "(Suc j, s) \<in> set (trail hhdm m' 4 (hhdm + root) va)"
proof (cases rule: add_table_step [OF ok s, case_names present full added])
  case present
  then show ?thesis using ok s by (intro ready [of h m lev ps]) (auto simp: progress_def)
next
  case (full h')
  then show ?thesis by (intro failed)
next
  case (added h' m' lev' p ps')
  then show ?thesis by (intro ready [of h' m' lev' ps']) (auto simp: progress_def)
qed

lemma tables_ok_sep:
  "tables_ok hhdm root lev h m ps \<Longrightarrow> (k, a) \<in> set (trail hhdm m 4 (hhdm + root) va) \<Longrightarrow>
   (k, a) \<in> set (trail hhdm m 4 (hhdm + root) va') \<Longrightarrow> key k va = key k va'"
  unfolding tables_ok_def by blast

lemma leaf_step:
  assumes ok: "tables_ok hhdm root lev h m ps" and s: "(0, s) \<in> set (trail hhdm m 4 (hhdm + root) va)"
    and absent: "\<not> bit (m s) 0" and v: "bit v 0"
  shows "tables_ok hhdm root lev h (m(s := v)) ps" "extends hhdm root m (m(s := v))"
    "\<exists>path. walk hhdm root (m(s := v)) va = Some path \<and> length path = 4 \<and> (m(s := v)) (List.last path) = v"
    "walk hhdm root m va' = None \<Longrightarrow> key 0 va' \<noteq> key 0 va \<Longrightarrow> walk hhdm root (m(s := v)) va' = None"
proof -
  have lv: "lev a = k" if "(k, a) \<in> set (trail hhdm m 4 (hhdm + root) va1)" for k a va1
    using ok that by (auto simp: tables_ok_def)
  have "lev s = 0" using lv [OF s] .
  have tr: "trail hhdm (m(s := v)) 4 (hhdm + root) va1 = trail hhdm m 4 (hhdm + root) va1" for va1
  proof (rule trail_leaf)
    show "lev a = k" if "(k, a) \<in> set (trail hhdm m 4 (hhdm + root) va1)" for k a using that by (rule lv)
    show "lev s = 0" by fact
  qed
  show "tables_ok hhdm root lev h (m(s := v)) ps" using ok unfolding tables_ok_def tr .
  have no: "a \<noteq> s" if "walk hhdm root m va1 = Some path" "a \<in> set path" for va1 path a
    using walk_SomeD [OF that(1)] walk_path [OF that(1)] that(2) absent by auto
  have keep: "walk hhdm root (m(s := v)) va1 = walk hhdm root m va1"
    if "List.last (map snd (trail hhdm m 4 (hhdm + root) va1)) \<noteq> s" for va1
    using that by (simp add: walk_trail Let_def tr)
  show "extends hhdm root m (m(s := v))"
    unfolding extends_def
  proof (intro allI impI)
    fix va1 path assume w: "walk hhdm root m va1 = Some path"
    have "List.last path \<in> set path" using walk_not_Nil [OF w] by simp
    then have "walk hhdm root (m(s := v)) va1 = Some path"
      using w keep [of va1] no [OF w] walk_path [OF w] by metis
    then show "walk hhdm root (m(s := v)) va1 = Some path \<and> (\<forall>a\<in>set path. (m(s := v)) a = m a)"
      using no [OF w] by auto
  qed
  have end_va: "List.last (map snd (trail hhdm m 4 (hhdm + root) va)) = s"
    using trail_end [OF s] s by (subst last_map) auto
  then show "\<exists>path. walk hhdm root (m(s := v)) va = Some path \<and> length path = 4 \<and> (m(s := v)) (List.last path) = v"
    using v length_trail [OF s] by (simp add: walk_trail Let_def tr)
  show "walk hhdm root (m(s := v)) va' = None" if "walk hhdm root m va' = None" "key 0 va' \<noteq> key 0 va"
  proof -
    have "List.last (map snd (trail hhdm m 4 (hhdm + root) va')) \<noteq> s"
    proof
      assume e: "List.last (map snd (trail hhdm m 4 (hhdm + root) va')) = s"
      have ne: "trail hhdm m 4 (hhdm + root) va' \<noteq> []" using trail_not_Nil [of hhdm m 3] by simp
      then have "(fst (List.last (trail hhdm m 4 (hhdm + root) va')), s) \<in> set (trail hhdm m 4 (hhdm + root) va')"
        using e by (metis last_in_set last_map prod.collapse)
      then have "(0, s) \<in> set (trail hhdm m 4 (hhdm + root) va')" using lv \<open>lev s = 0\<close> by metis
      from tables_ok_sep [OF ok this s] that(2) show False by simp
    qed
    then show ?thesis using keep that(1) by simp
  qed
qed

lemma mmio_pte_present: "bit (mmio_pte phys) 0"
  by (simp add: mmio_pte_def bit_or_iff)

lemma mmio_page_cases:
  assumes ok: "tables_ok hhdm root lev h m ps" and va: "va = hhdm + phys"
  obtains (failed) h' m' where "mmio_page hhdm root phys h m = (h', m', False)" "extends hhdm root m m'" "length ps < 3"
  | (mapped) h' m' lev' ps' path where "mmio_page hhdm root phys h m = (h', m', True)"
      "tables_ok hhdm root lev' h' m' ps'" "extends hhdm root m m'" "length ps \<le> length ps' + 3"
      "walk hhdm root m' va = Some path"
      "walk hhdm root m va = None \<Longrightarrow> length path = 4 \<and> m' (List.last path) = mmio_pte phys"
      "\<And>va'. walk hhdm root m va' = None \<Longrightarrow> key 0 va' \<noteq> key 0 va \<Longrightarrow> walk hhdm root m' va' = None"
proof -
  let ?t = "\<lambda>m. set (trail hhdm m 4 (hhdm + root) va)"
  let ?s4 = "entry (hhdm + root) (table_idx 39 va)"
  have s4: "(Suc 2, ?s4) \<in> ?t m" by (simp add: numeral_eq_Suc Let_def)
  note start = mmio_page_def [of hhdm root phys h m, folded va, unfolded phys_to_virt_def, unfolded Let_def]
  show ?thesis
  proof (cases rule: add_table_cases [OF ok s4, case_names fail3 done3])
    case (fail3 h1)
    then show ?thesis by (intro failed [of h1 m]) (simp_all add: start)
  next
    case (done3 h1 m1 lev1 ps1)
    let ?s3 = "entry (hhdm + frame_of (m1 ?s4)) (table_idx 30 va)"
    have s3: "(Suc 1, ?s3) \<in> ?t m1" using trail_next [OF done3(5,3)] by (simp add: numeral_eq_Suc)
    have ok1: "tables_ok hhdm root lev1 h1 m1 ps1" using done3(2) by (simp add: progress_def)
    show ?thesis
    proof (cases "bit (m1 ?s3) 0 \<and> bit (m1 ?s3) 7")
      case True
      have w: "walk hhdm root m1 va = Some (map snd (trail hhdm m1 4 (hhdm + root) va))"
        using True by (intro walk_end [OF s3]) (auto simp: numeral_2_eq_2)
      show ?thesis using done3 True w
        by (intro mapped [of h1 m1 lev1 ps1]) (auto simp: start progress_def)
    next
      case small3: False
      note run3 = start [unfolded done3(1), simplified]
      show ?thesis
      proof (cases rule: add_table_cases [OF ok1 s3, case_names fail2 done2])
        case (fail2 h2)
        then show ?thesis using done3(2) small3
          by (intro failed [of h2 m1]) (auto simp: run3 progress_def)
      next
        case (done2 h2 m2 lev2 ps2)
        let ?s2 = "entry (hhdm + frame_of (m2 ?s3)) (table_idx 21 va)"
        have "\<not> bit (m2 ?s3) 7" using done2(4) small3 by auto
        then have s2: "(Suc 0, ?s2) \<in> ?t m2" using trail_next [OF done2(5,3)] by (simp add: numeral_eq_Suc)
        have p2: "progress hhdm root 2 m ps lev2 h2 m2 ps2"
          using progress_trans [OF done3(2) done2(2)] by (simp add: numeral_2_eq_2)
        then have ok2: "tables_ok hhdm root lev2 h2 m2 ps2" by (simp add: progress_def)
        show ?thesis
        proof (cases "bit (m2 ?s2) 0 \<and> bit (m2 ?s2) 7")
          case True
          have w: "walk hhdm root m2 va = Some (map snd (trail hhdm m2 4 (hhdm + root) va))"
            using True by (intro walk_end [OF s2]) auto
          show ?thesis using done2 True w p2 small3
            by (intro mapped [of h2 m2 lev2 ps2]) (auto simp: run3 progress_def)
        next
          case small2: False
          show ?thesis
          proof (cases rule: add_table_cases [OF ok2 s2, case_names fail1 done1])
            case (fail1 h3)
            then show ?thesis using done2 p2 small2 small3
              by (intro failed [of h3 m2]) (auto simp: run3 progress_def)
          next
            case (done1 h3 m3 lev3 ps3)
            let ?s1 = "entry (hhdm + frame_of (m3 ?s2)) (table_idx 12 va)"
            have "\<not> bit (m3 ?s2) 7" using done1(4) small2 by auto
            then have s1: "(0, ?s1) \<in> ?t m3" using trail_next [OF done1(5,3)] by simp
            have p3: "progress hhdm root 3 m ps lev3 h3 m3 ps3"
              using progress_trans [OF p2 done1(2)] by (simp add: numeral_eq_Suc)
            have run: "mmio_page hhdm root phys h m =
                (h3, if bit (m3 ?s1) 0 then m3 else m3(?s1 := mmio_pte phys), True)"
              using done2(1) done1(1) small2 small3 by (auto simp: run3)
            show ?thesis
            proof (cases "bit (m3 ?s1) 0")
              case True
              have w: "walk hhdm root m3 va = Some (map snd (trail hhdm m3 4 (hhdm + root) va))"
                using True by (intro walk_end [OF s1]) auto
              show ?thesis using run True w p3
                by (intro mapped [of h3 m3 lev3 ps3]) (auto simp: progress_def)
            next
              case False
              have ok3: "tables_ok hhdm root lev3 h3 m3 ps3" using p3 by (simp add: progress_def)
              note leaf = leaf_step [OF ok3 s1 False mmio_pte_present]
              obtain path where path: "walk hhdm root (m3(?s1 := mmio_pte phys)) va = Some path" "length path = 4"
                "(m3(?s1 := mmio_pte phys)) (List.last path) = mmio_pte phys"
                using leaf(3) by blast
              show ?thesis
                using run False p3 path leaf(1,2,4) extends_trans
                by (intro mapped [of h3 "m3(?s1 := mmio_pte phys)" lev3 ps3 path])
                  (auto simp: progress_def simp del: fun_upd_apply)
            qed
          qed
        qed
      qed
    qed
  qed
qed

section \<open>\<open>map_mmio\<close>\<close>

lemma key_distinct:
  assumes "0 < i" "i < 2 ^ 36" shows "key 0 (a + of_nat i * 0x1000) \<noteq> key 0 a"
proof
  assume eq: "key 0 (a + of_nat i * 0x1000) = key 0 a"
  have k: "unat (key 0 w) = unat w div 4096 mod 2 ^ 36" for w
  proof -
    have "unat (key 0 w) = unat w mod 2 ^ 48 div 4096"
      unfolding key_def unat_drop unsigned_take_bit_eq by (simp add: take_bit_eq_mod)
    also have "\<dots> = unat w div 4096 mod 2 ^ 36"
      using mod_mult2_eq [of "unat w" 4096 "2 ^ 36"] by simp
    finally show ?thesis .
  qed
  have "unat (of_nat i * 0x1000 :: u64) = i * 4096"
    using assms(2) by (simp add: unat_word_ariths unat_of_usz)
  then have "unat (a + of_nat i * 0x1000) = (unat a + i * 4096) mod 2 ^ 64"
    by (simp add: unat_word_ariths)
  then have "unat (key 0 (a + of_nat i * 0x1000)) = (unat a + i * 4096) mod 2 ^ 64 div 4096 mod 2 ^ 36"
    by (simp add: k)
  also have "(unat a + i * 4096) mod 2 ^ 64 div 4096 = (unat a + i * 4096) div 4096 mod 2 ^ 52"
    using mod_mult2_eq [of "unat a + i * 4096" 4096 "2 ^ 52"] by simp
  also have "(unat a + i * 4096) div 4096 mod 2 ^ 52 mod 2 ^ 36 = (unat a div 4096 + i) mod 2 ^ 36"
    by (simp add: mod_mod_cancel add.commute)
  finally have "(unat a div 4096 + i) mod 2 ^ 36 = unat a div 4096 mod 2 ^ 36" using eq by (simp add: k)
  then have "2 ^ 36 dvd unat a div 4096 + i - unat a div 4096"
    by (subst mod_eq_dvd_iff_nat [symmetric]) simp_all
  then have "2 ^ 36 \<le> i" using assms(1) by (intro dvd_imp_le) simp_all
  then show False using assms(2) by simp
qed

definition device_page :: "u64 \<Rightarrow> u64 \<Rightarrow> qwords \<Rightarrow> qwords \<Rightarrow> u64 \<Rightarrow> bool" where
  "device_page hhdm root m m' phys \<longleftrightarrow> (\<exists>path. walk hhdm root m' (hhdm + phys) = Some path \<and>
     (walk hhdm root m (hhdm + phys) = None \<longrightarrow> length path = 4 \<and> m' (List.last path) = mmio_pte phys))"

lemma device_page_from:
  "(walk hhdm root m (hhdm + phys) = None \<Longrightarrow> walk hhdm root m1 (hhdm + phys) = None) \<Longrightarrow>
   device_page hhdm root m1 m' phys \<Longrightarrow> device_page hhdm root m m' phys"
  unfolding device_page_def by metis

lemma mmio_loop_result:
  "tables_ok hhdm root lev h m ps \<Longrightarrow> n \<le> 2 ^ 36 \<Longrightarrow> mmio_loop hhdm root phys n h m = (h', m', r) \<Longrightarrow>
   extends hhdm root m m' \<and> (\<not> r \<longrightarrow> length ps < 3 * n) \<and>
   (r \<longrightarrow> (\<forall>i<n. device_page hhdm root m m' (phys + of_nat i * 0x1000)))"
proof (induction n arbitrary: phys h m ps lev)
  case (Suc n)
  let ?va = "hhdm + phys"
  show ?case
  proof (cases rule: mmio_page_cases [OF Suc.prems(1) refl, of phys, case_names failed mapped])
    case (failed h1 m1)
    then show ?thesis using Suc.prems(3) by auto
  next
    case (mapped h1 m1 lev1 ps1 path)
    have loop: "mmio_loop hhdm root (phys + 0x1000) n h1 m1 = (h', m', r)"
      using Suc.prems(3) mapped(1) by simp
    have IH: "extends hhdm root m1 m'" "\<not> r \<Longrightarrow> length ps1 < 3 * n"
      "r \<Longrightarrow> i < n \<Longrightarrow> device_page hhdm root m1 m' (phys + 0x1000 + of_nat i * 0x1000)" for i
      using Suc.IH [OF mapped(2) _ loop] Suc.prems(2) by auto
    have first: "device_page hhdm root m m' phys"
      using mapped(5,6) IH(1) walk_not_Nil [OF mapped(5)]
      unfolding device_page_def extends_def by (metis last_in_set)
    have later: "device_page hhdm root m m' (phys + of_nat (Suc i) * 0x1000)" if r: "r" and i: "i < n" for i
    proof -
      let ?va' = "hhdm + (phys + of_nat (Suc i) * 0x1000)"
      have eq: "phys + 0x1000 + of_nat i * 0x1000 = phys + of_nat (Suc i) * (0x1000 :: u64)"
        by (simp add: algebra_simps)
      have "key 0 (?va + of_nat (Suc i) * 0x1000) \<noteq> key 0 ?va"
        using i Suc.prems(2) by (intro key_distinct) auto
      then have "key 0 ?va' \<noteq> key 0 ?va" unfolding add.assoc .
      then have "walk hhdm root m ?va' = None \<Longrightarrow> walk hhdm root m1 ?va' = None" by (intro mapped(7))
      moreover have "device_page hhdm root m1 m' (phys + of_nat (Suc i) * 0x1000)"
        using IH(3) [OF r i] unfolding eq .
      ultimately show ?thesis by (rule device_page_from)
    qed
    have all: "device_page hhdm root m m' (phys + of_nat i * 0x1000)" if "r" "i < Suc n" for i
      using first later that by (cases i) auto
    have "extends hhdm root m m'" using mapped(3) IH(1) by (rule extends_trans)
    then show ?thesis using all IH(2) mapped(4) by auto
  qed
qed simp

text \<open>
  C22: \<open>map_mmio\<close>. For page tables that form a tree and an allocator that hands out distinct pages
  outside of them: translations that existed before are unchanged. If three free pages per mapped
  page are left, the call succeeds. When it succeeds, every page of the device is mapped at its
  direct-map address, and a page that was not mapped before is mapped by an uncached, writable,
  non-executable 4 KiB entry for its physical address.
\<close>

theorem map_mmio_correct:
  assumes "tables_ok (m_hhdm h) (page_base cr3) lev h m ps" and "n \<le> 2 ^ 36"
    and "map_mmio cr3 phys n h m = (h', m', r)"
  shows "extends (m_hhdm h) (page_base cr3) m m' \<and>
    (3 * n \<le> length ps \<longrightarrow> r = m_hhdm h + phys) \<and>
    (r \<noteq> 0 \<longrightarrow> (\<forall>i<n. device_page (m_hhdm h) (page_base cr3) m m' (phys + of_nat i * 0x1000)))"
proof -
  obtain ok where loop: "mmio_loop (m_hhdm h) (page_base cr3) phys n h m = (h', m', ok)"
    and r: "r = (if ok then m_hhdm h + phys else 0)"
    using assms(3) by (auto simp: map_mmio_def split: prod.splits)
  show ?thesis using mmio_loop_result [OF assms(1,2) loop] r by auto
qed

text \<open>The pool of the kernel's own allocator when nothing was allocated yet: every page of the region.\<close>

lemma pool_alloc_many:
  "pool h ps \<longleftrightarrow> snd (alloc_many (m_buddy h) (Suc (length ps))) = map Some ps @ [None]"
proof (induction ps arbitrary: h)
  case Nil
  then show ?case by (simp add: mem_alloc_pages_def alloc_one_def split_beta)
next
  case (Cons p ps)
  have b: "m_buddy (fst (mem_alloc_pages h 0)) = fst (alloc_one (m_buddy h))"
    "snd (mem_alloc_pages h 0) = snd (alloc_one (m_buddy h))"
    by (simp_all add: mem_alloc_pages_def alloc_one_def split_beta)
  show ?case using Cons.IH [of "fst (mem_alloc_pages h 0)"] by (auto simp: b split_beta)
qed

lemma pool_fresh:
  assumes "base + sz \<le> 2 ^ 64" "sz div PAGE_SIZE \<le> BITMAP_SIZE" "m_buddy h = buddy_init b0 base sz"
  shows "pool h (map (\<lambda>i. base + i * PAGE_SIZE) [0..<sz div PAGE_SIZE])"
  unfolding pool_alloc_many assms(3) length_map length_upt diff_zero
  unfolding fresh_bump(1) [OF assms(1,2)] by auto

definition sample_mem :: mem where
  "sample_mem = mem_boot\<lparr>m_buddy := buddy_init buddy_new 0x100000 0x3000\<rparr>"

lemma sample_tables_ok:
  "tables_ok 0 0x1000 (\<lambda>_. 3) sample_mem (\<lambda>_. 0) [0x100000, 0x101000, 0x102000]"
proof -
  have pool: "pool sample_mem [0x100000, 0x101000, 0x102000]"
    using pool_fresh [of "0x100000" "0x3000" sample_mem buddy_new]
    by (simp add: sample_mem_def PAGE_SIZE_def BITMAP_SIZE_val upt_rec)
  have tr: "trail 0 (\<lambda>_. 0) 4 0x1000 va = [(3, entry 0x1000 (table_idx 39 va))]" for va
    by (simp add: numeral_eq_Suc Let_def)
  have key3: "key 3 va = table_idx 39 va" for va
  proof -
    have low: "(0x1FF :: u64) = mask 9" by (simp add: mask_eq_exp_minus_1)
    show ?thesis unfolding key_def table_idx_def low
      by (intro bit_eqI) (auto simp: bit_simps simp del: mask_numeral)
  qed
  have out: "\<not> in_page p (entry 0x1000 (table_idx 39 va))" if "frame_of p = p" "p \<noteq> 0x1000" for p va
    using frame_low [of "0x1000"] frame_low [OF that(1)] entry_in_page [of "0x1000" 39 va] that(2)
    by (auto simp: in_page_def frame_of_def)
  show ?thesis
    unfolding tables_ok_def
    using pool by (auto simp: tr key3 page_ok_def frame_of_def sample_mem_def mem_boot_def out page_base_def dest: entry_inject)
qed

theorem map_mmio_correct_witness:
  "snd (snd (map_mmio 0x1000 0xFEBF0000 1 sample_mem (\<lambda>_. 0))) = 0xFEBF0000"
proof -
  obtain h' m' r where run: "map_mmio 0x1000 0xFEBF0000 1 sample_mem (\<lambda>_. 0) = (h', m', r)" by (metis prod_cases3)
  have "m_hhdm sample_mem = 0" by (simp add: sample_mem_def mem_boot_def)
  then show ?thesis
    using map_mmio_correct [OF _ _ run, of "\<lambda>_. 3" "[0x100000, 0x101000, 0x102000]"] sample_tables_ok sample_root run
    by simp
qed

end
