(* ===== verification/Lapic.thy ===== *)
theory Lapic
  imports Devices Mmio_Map
begin

text \<open>
  The local APIC (\<open>src/kern/arch/x86_64/lapic.rs\<close>): mapping its register page and setting it up for
  interrupts from the legacy controllers. \<open>LAPIC_VIRT\<close> is the last component of the result, the
  model-specific register that is printed is the argument \<open>apic_msr\<close>.
\<close>

section \<open>Definitions\<close>

definition LAPIC_PHYS :: u64 where "LAPIC_PHYS = 0xFEE00000"
definition SVR :: u64 where "SVR = 0xF0"
definition LINT0 :: u64 where "LINT0 = 0x350"
definition LINT1 :: u64 where "LINT1 = 0x360"

definition lapic_pte :: u64 where
  "lapic_pte = (((LAPIC_PHYS OR PTE_PRESENT) OR PTE_WRITABLE) OR PTE_PWT) OR PTE_PCD"

text \<open>Result: the state, the page tables and the virtual address, 0 on failure.\<close>

definition map_lapic_page :: "u64 \<Rightarrow> u64 \<Rightarrow> hw \<Rightarrow> qwords \<Rightarrow> (hw \<times> qwords \<times> u64) option" where
  "map_lapic_page cr3 hhdm s m =
     (let vaddr = hhdm + LAPIC_PHYS;
          pml4e = m (entry (phys_to_virt hhdm (page_base cr3)) (table_idx 39 vaddr))
      in if pml4e AND PTE_PRESENT = 0
         then do { s \<leftarrow> say [Str ''lapic: PML4 not present for LAPIC mapping\<newline>''] s; Some (s, m, 0) }
         else
      let pdpte = m (entry (phys_to_virt hhdm (frame_of pml4e)) (table_idx 30 vaddr))
      in if pdpte AND PTE_PRESENT \<noteq> 0 \<and> pdpte AND PTE_HUGE \<noteq> 0 then Some (s, m, vaddr)
         else if pdpte AND PTE_PRESENT = 0
         then do { s \<leftarrow> say [Str ''lapic: PDPT not present\<newline>''] s; Some (s, m, 0) }
         else
      let pd_slot = entry (phys_to_virt hhdm (frame_of pdpte)) (table_idx 21 vaddr); pde = m pd_slot
      in if pde AND PTE_PRESENT \<noteq> 0 \<and> pde AND PTE_HUGE \<noteq> 0 then Some (s, m, vaddr)
         else if pde AND PTE_PRESENT = 0
         then (case mem_alloc_pages (hw_heap s) 0 of
                 (h, Some va) \<Rightarrow>
                   let m1 = zero_page (of_nat va) m;
                       pt_phys_new = virt_to_phys h va;
                       m2 = m1(pd_slot := (pt_phys_new OR PTE_PRESENT) OR PTE_WRITABLE);
                       m3 = m2(entry (phys_to_virt hhdm pt_phys_new) (table_idx 12 vaddr) := lapic_pte)
                   in Some (s\<lparr>hw_heap := h\<rparr>, m3, vaddr)
               | (h, None) \<Rightarrow>
                   do { s \<leftarrow> say [Str ''lapic: cannot alloc page table\<newline>''] (s\<lparr>hw_heap := h\<rparr>); Some (s, m, 0) })
         else let slot = entry (phys_to_virt hhdm (frame_of pde)) (table_idx 12 vaddr)
              in Some (s, if m slot AND PTE_PRESENT = 0 then m(slot := lapic_pte) else m, vaddr))"

definition lapic_read_reg :: "u64 \<Rightarrow> u64 \<Rightarrow> hw \<Rightarrow> u32 \<times> hw" where
  "lapic_read_reg lapic_virt off s = mmio_read (lapic_virt + off) s"

definition lapic_write_reg :: "u64 \<Rightarrow> u64 \<Rightarrow> u32 \<Rightarrow> hw \<Rightarrow> hw" where
  "lapic_write_reg lapic_virt off v s = mmio_write (lapic_virt + off) v s"

definition lapic_init :: "u64 \<Rightarrow> u64 \<Rightarrow> u64 \<Rightarrow> hw \<Rightarrow> qwords \<Rightarrow> (hw \<times> qwords \<times> u64) option" where
  "lapic_init apic_msr cr3 hhdm s m =
     do { s \<leftarrow> say [Str ''lapic: MSR=0x'', Hex apic_msr, Str ''\<newline>''] s;
          (s, m, vaddr) \<leftarrow> map_lapic_page cr3 hhdm s m;
          if vaddr = 0
          then do { s \<leftarrow> say [Str ''lapic: mapping failed\<newline>''] s; Some (s, m, 0) }
          else do {
            s \<leftarrow> say [Str ''lapic: mapped at 0x'', Hex vaddr, Str ''\<newline>''] s;
            let (svr_before, s) = lapic_read_reg vaddr SVR s;
            let (lint0_before, s) = lapic_read_reg vaddr LINT0 s;
            s \<leftarrow> say [Str ''lapic: SVR=0x'', Hex (ucast svr_before), Str '' LINT0=0x'', Hex (ucast lint0_before), Str ''\<newline>''] s;
            let s = lapic_write_reg vaddr SVR ((svr_before OR push_bit 8 1) OR 0xFF) s;
            let s = lapic_write_reg vaddr LINT0 (push_bit 8 7) s;
            let s = lapic_write_reg vaddr LINT1 (push_bit 8 4) s;
            let (svr_after, s) = lapic_read_reg vaddr SVR s;
            let (lint0_after, s) = lapic_read_reg vaddr LINT0 s;
            s \<leftarrow> say [Str ''lapic: SVR=0x'', Hex (ucast svr_after), Str '' LINT0=0x'', Hex (ucast lint0_after), Str '' OK\<newline>''] s;
            Some (s, m, vaddr) } }"

section \<open>Mapping the page\<close>

text \<open>The walk stops above the last level only where \<open>map_lapic_page\<close> gives up.\<close>

lemma lapic_pte_present: "bit lapic_pte 0"
  by (simp add: lapic_pte_def bit_or_iff)

lemma add_table_fresh:
  assumes "tables_ok hhdm root lev h m (p # ps)" "\<not> bit (m s) 0" "add_table h s m = (h', Some m')"
  shows "frame_of (m' s) = virt_to_phys h' p" "snd (mem_alloc_pages h 0) = Some p" "h' = fst (mem_alloc_pages h 0)"
    "m' = (zero_page (of_nat p) m)(s := (virt_to_phys h' p OR PTE_PRESENT) OR PTE_WRITABLE)"
proof -
  have p: "snd (mem_alloc_pages h 0) = Some p" "frame_of (of_nat p - hhdm) = of_nat p - hhdm" "m_hhdm h = hhdm"
    using assms(1) by (simp_all add: tables_ok_def page_ok_def)
  have r: "h' = fst (mem_alloc_pages h 0)"
    "m' = (zero_page (of_nat p) m)(s := (virt_to_phys h' p OR PTE_PRESENT) OR PTE_WRITABLE)"
    using assms(2,3) p(1) by (auto simp: add_table_def split: prod.splits option.splits)
  have "virt_to_phys h' p = of_nat p - hhdm" by (simp add: virt_to_phys_def r(1) alloc_hhdm p(3))
  then show "frame_of (m' s) = virt_to_phys h' p"
    using table_entry_bits(3) [OF p(2)] r(2) by simp
  show "snd (mem_alloc_pages h 0) = Some p" "h' = fst (mem_alloc_pages h 0)"
    "m' = (zero_page (of_nat p) m)(s := (virt_to_phys h' p OR PTE_PRESENT) OR PTE_WRITABLE)"
    by (fact p(1) r)+
qed

definition lapic_mapped :: "u64 \<Rightarrow> u64 \<Rightarrow> hw \<Rightarrow> qwords \<Rightarrow> (hw \<times> qwords \<times> u64) option \<Rightarrow> bool" where
  "lapic_mapped hhdm root s m r \<longleftrightarrow> (\<exists>s' m' va. r = Some (s', m', va) \<and>
     live s' \<and> hw_trace s' = hw_trace s \<and> hw_reg s' = hw_reg s \<and> extends hhdm root m m' \<and>
     (va = 0 \<longrightarrow> m' = m) \<and>
     (va \<noteq> 0 \<longrightarrow> va = hhdm + LAPIC_PHYS \<and> (\<exists>path. walk hhdm root m' va = Some path \<and>
        (walk hhdm root m va = None \<longrightarrow> length path = 4 \<and> m' (List.last path) = lapic_pte))))"

lemma lapic_failed:
  assumes "live s" shows "lapic_mapped hhdm root s m (do { s \<leftarrow> say cs (s\<lparr>hw_heap := h\<rparr>); Some (s, m, 0) })"
proof -
  obtain s' where "say cs (s\<lparr>hw_heap := h\<rparr>) = Some s'" "printed (s\<lparr>hw_heap := h\<rparr>) (concat (map con_text cs)) s'" "live s'"
    using say_prints [of "s\<lparr>hw_heap := h\<rparr>" cs] assms by auto
  then show ?thesis by (auto simp: lapic_mapped_def printed_def)
qed

lemma heap_same [simp]: "s\<lparr>hw_heap := hw_heap s\<rparr> = s"
  by simp

lemma map_lapic_page_maps:
  assumes live: "live s" and ok: "tables_ok hhdm root lev (hw_heap s) m ps" and root: "root = page_base cr3"
    and nz: "hhdm + LAPIC_PHYS \<noteq> 0"
  shows "lapic_mapped hhdm root s m (map_lapic_page cr3 hhdm s m)"
proof -
  let ?va = "hhdm + LAPIC_PHYS"
  let ?t = "\<lambda>m. set (trail hhdm m 4 (hhdm + root) ?va)"
  let ?s4 = "entry (hhdm + root) (table_idx 39 ?va)"
  let ?s3 = "entry (hhdm + frame_of (m ?s4)) (table_idx 30 ?va)"
  let ?s2 = "entry (hhdm + frame_of (m ?s3)) (table_idx 21 ?va)"
  have s4: "(Suc 2, ?s4) \<in> ?t m" by (simp add: numeral_eq_Suc Let_def)
  note run = map_lapic_page_def [of cr3 hhdm s m, folded root, unfolded phys_to_virt_def Let_def]
  note fail = lapic_failed [OF live, of hhdm root m _ "hw_heap s", simplified]
  show ?thesis
  proof (cases "bit (m ?s4) 0")
    case False
    then show ?thesis using fail by (simp add: run)
  next
    case p4: True
    have s3: "(Suc 1, ?s3) \<in> ?t m" using trail_next [OF s4 p4] by (simp add: numeral_eq_Suc)
    show ?thesis
    proof (cases "bit (m ?s3) 0")
      case False
      then show ?thesis using fail p4 by (simp add: run)
    next
      case p3: True
      show ?thesis
      proof (cases "bit (m ?s3) 7")
        case True
        have "walk hhdm root m ?va = Some (map snd (trail hhdm m 4 (hhdm + root) ?va))"
          using True p3 by (intro walk_end [OF s3]) (auto simp: numeral_2_eq_2)
        then show ?thesis using True p3 p4 live nz by (simp add: run lapic_mapped_def)
      next
        case small3: False
        have s2: "(Suc 0, ?s2) \<in> ?t m" using trail_next [OF s3 p3] small3 by (simp add: numeral_eq_Suc)
        show ?thesis
        proof (cases "bit (m ?s2) 0")
          case p2: True
          show ?thesis
          proof (cases "bit (m ?s2) 7")
            case True
            have "walk hhdm root m ?va = Some (map snd (trail hhdm m 4 (hhdm + root) ?va))"
              using True p2 by (intro walk_end [OF s2]) auto
            then show ?thesis using True p2 p3 p4 small3 live nz by (simp add: run lapic_mapped_def)
          next
            case small2: False
            let ?s1 = "entry (hhdm + frame_of (m ?s2)) (table_idx 12 ?va)"
            have s1: "(0, ?s1) \<in> ?t m" using trail_next [OF s2 p2] small2 by simp
            have res: "map_lapic_page cr3 hhdm s m =
                Some (s, if bit (m ?s1) 0 then m else m(?s1 := lapic_pte), ?va)"
              using p2 p3 p4 small3 small2 by (simp add: run)
            show ?thesis
            proof (cases "bit (m ?s1) 0")
              case True
              have "walk hhdm root m ?va = Some (map snd (trail hhdm m 4 (hhdm + root) ?va))"
                using True by (intro walk_end [OF s1]) auto
              then show ?thesis using True live nz by (simp add: res lapic_mapped_def)
            next
              case False
              show ?thesis
                using leaf_step(2,3) [OF ok s1 False lapic_pte_present] False live nz
                by (auto simp: res lapic_mapped_def simp del: fun_upd_apply)
            qed
          qed
        next
          case p2: False
          show ?thesis
          proof (cases rule: add_table_step [OF ok s2, case_names present full added])
            case present
            then show ?thesis using p2 by simp
          next
            case (full h')
            then have "mem_alloc_pages (hw_heap s) 0 = (h', None)"
              using p2 by (auto simp: add_table_def split: prod.splits option.splits)
            then show ?thesis using p2 p3 p4 small3 lapic_failed [OF live] by (simp add: run)
          next
            case (added h' m' lev' p ps')
            note fresh = add_table_fresh [OF ok [unfolded added(2)] added(1,3)]
            let ?s1 = "entry (hhdm + frame_of (m' ?s2)) (table_idx 12 ?va)"
            have s1: "(0, ?s1) \<in> ?t m'" using trail_next [OF added(8,6)] added(7) by simp
            have none: "walk hhdm root m ?va = None"
              using walk_SomeD [OF _ s2] p2 by (cases "walk hhdm root m ?va") auto
            have absent: "\<not> bit (m' ?s1) 0"
              using walk_end(1) [OF s1] added(9) [OF none] by auto
            have "mem_alloc_pages (hw_heap s) 0 = (h', Some p)" using fresh(2,3) by (metis prod.collapse)
            then have res: "map_lapic_page cr3 hhdm s m = Some (s\<lparr>hw_heap := h'\<rparr>, m'(?s1 := lapic_pte), ?va)"
              using p2 p3 p4 small3 unfolding fresh(1) by (simp add: run fresh(4) del: fun_upd_apply)
            show ?thesis
              using leaf_step(2,3) [OF added(4) s1 absent lapic_pte_present] extends_trans [OF added(5)] live nz
              unfolding res lapic_mapped_def by (auto simp del: fun_upd_apply)
          qed
        qed
      qed
    qed
  qed
qed

section \<open>Setting up the controller\<close>

lemma printed_trace: "printed s bs s' \<Longrightarrow> hw_trace s' = hw_trace s \<and> hw_reg s' = hw_reg s \<and> hw_heap s' = hw_heap s"
  by (auto simp: printed_def)

lemma trace_ops [simp]:
  "hw_trace (mmio_write a v s) = Store a v # hw_trace s"
  "hw_trace (snd (mmio_read a s)) = Load a (fst (mmio_read a s)) # hw_trace s"
  by (simp_all add: mmio_write_def mmio_read_def Let_def)

text \<open>
  \<open>lapic::init\<close>. It always returns. When the register page cannot be mapped, no register is
  touched; otherwise the page is mapped at its direct-map address (uncached, if it was not mapped
  before), existing translations are kept, and exactly these registers are written: the software
  enable bit and spurious vector 255 in SVR, \<open>ExtINT\<close> in LINT0 and \<open>NMI\<close> in LINT1.
\<close>

theorem lapic_init_programs:
  assumes live: "live s" and ok: "tables_ok hhdm (page_base cr3) lev (hw_heap s) m ps"
    and nz: "hhdm + LAPIC_PHYS \<noteq> 0"
  shows "\<exists>s' m' va. lapic_init apic_msr cr3 hhdm s m = Some (s', m', va) \<and>
    extends hhdm (page_base cr3) m m' \<and> (va = 0 \<longrightarrow> m' = m \<and> hw_trace s' = hw_trace s) \<and>
    (va \<noteq> 0 \<longrightarrow> va = hhdm + LAPIC_PHYS \<and>
      (\<exists>path. walk hhdm (page_base cr3) m' va = Some path \<and>
         (walk hhdm (page_base cr3) m va = None \<longrightarrow> length path = 4 \<and> m' (List.last path) = lapic_pte)) \<and>
      (\<exists>v w x y. hw_trace s' =
         [Load (va + LINT0) y, Load (va + SVR) x, Store (va + LINT1) 0x400, Store (va + LINT0) 0x700,
          Store (va + SVR) (v OR 0x1FF), Load (va + LINT0) w, Load (va + SVR) v] @ hw_trace s))"
proof -
  obtain s1 where 1: "say [Str ''lapic: MSR=0x'', Hex apic_msr, Str ''\<newline>''] s = Some s1"
    "hw_trace s1 = hw_trace s" "hw_heap s1 = hw_heap s" "live s1"
    using say_prints [OF live] printed_trace by metis
  have "lapic_mapped hhdm (page_base cr3) s1 m (map_lapic_page cr3 hhdm s1 m)"
    using map_lapic_page_maps [OF 1(4) _ refl nz] ok 1(3) by simp
  then obtain s2 m' va where 2: "map_lapic_page cr3 hhdm s1 m = Some (s2, m', va)" "live s2" "hw_trace s2 = hw_trace s"
    "extends hhdm (page_base cr3) m m'" "va = 0 \<longrightarrow> m' = m"
    "va \<noteq> 0 \<longrightarrow> va = hhdm + LAPIC_PHYS \<and> (\<exists>path. walk hhdm (page_base cr3) m' va = Some path \<and>
         (walk hhdm (page_base cr3) m va = None \<longrightarrow> length path = 4 \<and> m' (List.last path) = lapic_pte))"
    unfolding lapic_mapped_def 1(2) by (elim exE conjE) (rule that)
  note run = lapic_init_def [of apic_msr cr3 hhdm s m, unfolded 1(1) Option.bind_lunit 2(1) prod.case lapic_read_reg_def lapic_write_reg_def]
  show ?thesis
  proof (cases "va = 0")
    case True
    obtain s3 where "say [Str ''lapic: mapping failed\<newline>''] s2 = Some s3" "hw_trace s3 = hw_trace s2"
      using say_prints [OF 2(2)] printed_trace by metis
    then show ?thesis using True 2 by (simp add: run)
  next
    case False
    obtain s3 where 3: "say [Str ''lapic: mapped at 0x'', Hex va, Str ''\<newline>''] s2 = Some s3" "hw_trace s3 = hw_trace s" "live s3"
      using say_prints [OF 2(2)] printed_trace 2(3) by metis
    let ?v = "fst (mmio_read (va + SVR) s3)" and ?s4 = "snd (mmio_read (va + SVR) s3)"
    let ?w = "fst (mmio_read (va + LINT0) ?s4)" and ?s5 = "snd (mmio_read (va + LINT0) ?s4)"
    have "live ?s5" using 3(3) by simp
    then obtain s6 where 6: "say [Str ''lapic: SVR=0x'', Hex (ucast ?v), Str '' LINT0=0x'', Hex (ucast ?w), Str ''\<newline>''] ?s5 = Some s6"
      "hw_trace s6 = hw_trace ?s5" "live s6"
      using say_prints printed_trace by metis
    let ?s7 = "mmio_write (va + LINT1) 0x400 (mmio_write (va + LINT0) 0x700 (mmio_write (va + SVR) (?v OR 0x1FF) s6))"
    let ?x = "fst (mmio_read (va + SVR) ?s7)" and ?s8 = "snd (mmio_read (va + SVR) ?s7)"
    let ?y = "fst (mmio_read (va + LINT0) ?s8)" and ?s9 = "snd (mmio_read (va + LINT0) ?s8)"
    have "live ?s9" using 6(3) by simp
    then obtain s10 where 10: "say [Str ''lapic: SVR=0x'', Hex (ucast ?x), Str '' LINT0=0x'', Hex (ucast ?y), Str '' OK\<newline>''] ?s9 = Some s10"
      "hw_trace s10 = hw_trace ?s9"
      using say_prints printed_trace by metis
    have bits: "(w OR 0x100) OR 0xFF = w OR (0x1FF :: u32)" for w by (simp add: or.assoc)
    have "lapic_init apic_msr cr3 hhdm s m = Some (s10, m', va)"
      using False 3(1) 6(1) 10(1) unfolding run Let_def by (simp add: split_beta bits)
    moreover have "\<exists>v w x y. hw_trace s10 =
         [Load (va + LINT0) y, Load (va + SVR) x, Store (va + LINT1) 0x400, Store (va + LINT0) 0x700,
          Store (va + SVR) (v OR 0x1FF), Load (va + LINT0) w, Load (va + SVR) v] @ hw_trace s"
      using 10(2) 6(2) 3(2) by (intro exI [of _ ?v] exI [of _ ?w] exI [of _ ?x] exI [of _ ?y]) simp
    ultimately show ?thesis using 2(4,6) False by (intro exI [of _ s10] exI [of _ m'] exI [of _ va]) blast
  qed
qed

definition sample_hw :: hw where
  "sample_hw = \<lparr>hw_io = \<lparr>io_env = (\<lambda>_ _. 0x20), io_trace = []\<rparr>, hw_trace = [], hw_reg = (\<lambda>_ _. 0x10F),
     hw_port = (\<lambda>_ _. 0), hw_dma = (\<lambda>_ r. r), hw_ram = (\<lambda>_. 0), hw_heap = sample_mem\<rparr>"

lemma sample_live: "live sample_hw"
  by (simp add: live_def sample_hw_def tx_live_def)

theorem lapic_init_programs_witness:
  "\<exists>s' m' va. lapic_init 0x900 0x1000 0 sample_hw (\<lambda>_. 0) = Some (s', m', va) \<and>
     (va = 0 \<longrightarrow> m' = (\<lambda>_. 0) \<and> hw_trace s' = []) \<and> (va \<noteq> 0 \<longrightarrow> va = 0xFEE00000)"
proof -
  have ok: "tables_ok 0 (page_base 0x1000) (\<lambda>_. 3) (hw_heap sample_hw) (\<lambda>_. 0) [0x100000, 0x101000, 0x102000]"
    using sample_tables_ok sample_root by (simp add: sample_hw_def)
  have "hw_trace sample_hw = []" by (simp add: sample_hw_def)
  then show ?thesis
    using lapic_init_programs [OF sample_live ok, of "0x900"] by (fastforce simp: LAPIC_PHYS_def)
qed

end
