(* ===== verification/Ring3.thy ===== *)
theory Ring3
  imports Devices Paging Interrupts
begin

text \<open>
  Entering user mode (\<open>enter_ring3\<close> of \<open>src/kern/drv/ring3/mod.rs\<close>): a stack from the kernel heap is
  opened to user mode, the data segments are loaded with the user selector and a frame for \<open>iretq\<close> is
  built. The result is that frame with the selector of \<open>ds\<close>, \<open>es\<close>, \<open>fs\<close> and \<open>gs\<close>, or \<open>None\<close> when the
  function returns to its caller instead.
\<close>

definition USER_STACK_SIZE :: usize where "USER_STACK_SIZE = 0x4000"

definition enter_ring3 ::
  "u64 \<Rightarrow> u64 \<Rightarrow> u64 \<Rightarrow> hw \<Rightarrow> qwords \<Rightarrow> (hw \<times> qwords \<times> (u16 \<times> interrupt_frame) option) option" where
  "enter_ring3 cr3 entry_pt hhdm_offset s m =
     do { (user_stack_ptr, s) \<leftarrow> on_heap (\<lambda>h. kmalloc h USER_STACK_SIZE) s;
          if user_stack_ptr = 0
          then do { s \<leftarrow> say [Str ''ring3: failed to allocate user stack\<newline>''] s; Some (s, m, None) }
          else do {
            let user_stack_top = of_nat user_stack_ptr + of_nat USER_STACK_SIZE;
            m \<leftarrow> make_user_accessible cr3 hhdm_offset (of_nat user_stack_ptr) (of_nat USER_STACK_SIZE) m;
            Some (s, m, Some (USER_DS,
              \<lparr>if_rip = entry_pt, if_cs = ucast USER_CS, if_rflags = 0x202, if_rsp = user_stack_top,
               if_ss = ucast USER_DS\<rparr>)) } }"

text \<open>
  C23: entering user mode. With a heap whose region ends below the last page of the address space,
  \<open>enter_ring3\<close> enters ring 3 exactly when \<open>kmalloc\<close> has 16 KiB for the stack, and otherwise returns with the page
  tables as they were. In ring 3 (both selectors have request level 3) it starts at the given address with interrupts enabled
  and the stack pointer at the end of that block, which lies inside the heap's region and
  whose mapped pages all are accessible from user mode; no translation has changed.
\<close>

theorem enter_ring3_gives_user_stack:
  assumes live: "live s" and inv: "mem_inv (hw_heap s)" and top: "snd (mem_region (hw_heap s)) + 4095 < 2 ^ 64"
  shows "\<exists>s' m' r p. enter_ring3 cr3 entry_pt hhdm s m = Some (s', m', r) \<and>
    kmalloc (hw_heap s) USER_STACK_SIZE = Some (hw_heap s', p) \<and> (r = None \<longleftrightarrow> p = 0) \<and>
    (\<forall>va. walk hhdm (page_base cr3) m' va = walk hhdm (page_base cr3) m va) \<and>
    (case r of None \<Rightarrow> m' = m
     | Some (ds, f) \<Rightarrow> ds AND 3 = 3 \<and> if_cs f AND 3 = 3 \<and> if_ss f = ucast ds \<and> bit (if_rflags f) 9 \<and>
         if_rip f = entry_pt \<and> unat (if_rsp f) = p + USER_STACK_SIZE \<and>
         fst (mem_region (hw_heap s)) + USER_STACK_SIZE \<le> unat (if_rsp f) \<and>
         unat (if_rsp f) \<le> snd (mem_region (hw_heap s)) \<and>
         (\<forall>va path. unat va < unat (if_rsp f) \<and> unat (if_rsp f) \<le> unat va + USER_STACK_SIZE \<and>
            walk hhdm (page_base cr3) m va = Some path \<longrightarrow> page_user m' path))"
proof -
  obtain h p where km: "kmalloc (hw_heap s) USER_STACK_SIZE = Some (h, p)"
    using kheap.alloc_returns [OF inv, of USER_STACK_SIZE] by (auto simp: USER_STACK_SIZE_def PAGE_SIZE_def)
  let ?s = "s\<lparr>hw_heap := h\<rparr>"
  note run = enter_ring3_def [of cr3 entry_pt hhdm s m, unfolded on_heap_def km Option.bind_lunit prod.case]
  show ?thesis
  proof (cases "p = 0")
    case True
    have "live ?s" using live by simp
    then obtain s' where "say [Str ''ring3: failed to allocate user stack\<newline>''] ?s = Some s'" "hw_heap s' = h"
      by (rule say_prints [of ?s "[Str ''ring3: failed to allocate user stack\<newline>'']"]) (auto simp: printed_def)
    then show ?thesis using True km by (simp add: run)
  next
    case False
    have reg: "fst (mem_region (hw_heap s)) \<le> p" "p + USER_STACK_SIZE \<le> snd (mem_region (hw_heap s))"
      using kheap.alloc_region [OF inv _ km] False by (auto simp: USER_STACK_SIZE_def PAGE_SIZE_def)
    then have fits: "p + 0x4000 + 4095 < 2 ^ 64" using top by (simp add: USER_STACK_SIZE_def)
    then have p: "unat (of_nat p :: u64) = p" "unat (of_nat USER_STACK_SIZE :: u64) = 0x4000"
      by (simp_all add: unat_of_usz USER_STACK_SIZE_def)
    then have sp: "unat (of_nat p + 0x4000 :: u64) = p + 0x4000"
      using fits by (simp add: unat_word_ariths)
    have "unat (of_nat p :: u64) + unat (of_nat USER_STACK_SIZE :: u64) + 4095 < 2 ^ 64" using fits p by simp
    from make_user_accessible_correct [OF this refl, of cr3 hhdm m] obtain m' where
      m': "make_user_accessible cr3 hhdm (of_nat p) (of_nat USER_STACK_SIZE) m = Some m'"
      "\<forall>va. walk hhdm (page_base cr3) m' va = walk hhdm (page_base cr3) m va"
      "\<forall>va path. p \<le> unat va \<and> unat va < p + 0x4000 \<and> walk hhdm (page_base cr3) m va = Some path \<longrightarrow> page_user m' path"
      unfolding p by blast
    show ?thesis
      using False m' reg km by (auto simp: run USER_STACK_SIZE_def sp USER_CS_def USER_DS_def bit_numeral_rec)
  qed
qed

definition ring3_hw :: hw where
  "ring3_hw = \<lparr>hw_io = \<lparr>io_env = (\<lambda>_ _. 0x20), io_trace = []\<rparr>, hw_trace = [], hw_reg = (\<lambda>_ _. 0),
     hw_port = (\<lambda>_ _. 0), hw_dma = (\<lambda>_ r. r), hw_ram = (\<lambda>_. 0),
     hw_heap = mem_init mem_boot 0x1000 [\<lparr>me_usable = True, me_base = 0x100000, me_length = 0x10000\<rparr>]\<rparr>"

lemma ring3_stack: "\<exists>h. kmalloc (hw_heap ring3_hw) USER_STACK_SIZE = Some (h, 0x101000)"
proof -
  let ?b = "buddy_init buddy_new 0x101000 0x10000"
  have b: "m_buddy (hw_heap ring3_hw) = ?b" by (simp add: ring3_hw_def mem_init_def mem_boot_def Let_def)
  have "2 \<le> bd_max_order ?b" using init_max_order [of 2 "0x10000" buddy_new "0x101000"] by (simp add: PAGE_SIZE_def MAX_ORDER_def)
  then have al: "buddy_alloc_pages ?b 2 = (mark_allocated ?b 2 0, Some (bd_base ?b))"
    by (intro alloc_first_block) (simp_all add: buddy_wf_init free_bits_init PAGE_SIZE_def BITMAP_SIZE_val)
  have "pages_for USER_STACK_SIZE = 4" by (simp add: pages_for_def USER_STACK_SIZE_def PAGE_SIZE_def)
  moreover have "least_order 4 2" by (auto simp: least_order_def less_Suc_eq numeral_eq_Suc)
  ultimately have "order_for (pages_for USER_STACK_SIZE) 0 = Some 2" by (simp add: order_for_iff)
  then show ?thesis by (simp add: kmalloc_def alloc_rounded_def USER_STACK_SIZE_def b al)
qed

theorem enter_ring3_gives_user_stack_witness:
  "\<exists>s' m' ds f. enter_ring3 0x1000 0x400000 0x1000 ring3_hw sample_tables = Some (s', m', Some (ds, f)) \<and>
     if_rip f = 0x400000 \<and> unat (if_rsp f) = 0x105000 \<and> if_cs f AND 3 = 3"
proof -
  have live: "live ring3_hw" by (simp add: live_def ring3_hw_def tx_live_def)
  have inv: "mem_inv (hw_heap ring3_hw)"
    unfolding ring3_hw_def hw.simps by (rule mem_inv_init [of _ "0x100000" "0x10000"]) simp_all
  have reg: "mem_region (hw_heap ring3_hw) = (0x101000, 0x111000)"
    by (simp add: ring3_hw_def mem_region_def mem_init_def mem_boot_def Let_def PAGE_SIZE_def)
  obtain s' m' r where r: "enter_ring3 0x1000 0x400000 0x1000 ring3_hw sample_tables = Some (s', m', r)" "r \<noteq> None"
    "case r of None \<Rightarrow> True | Some (ds, f) \<Rightarrow> if_rip f = 0x400000 \<and> unat (if_rsp f) = 0x101000 + USER_STACK_SIZE \<and> if_cs f AND 3 = 3"
    using enter_ring3_gives_user_stack [OF live inv, of "0x1000" "0x400000" "0x1000" sample_tables] reg ring3_stack
    by (fastforce split: option.splits)
  then show ?thesis by (cases r) (auto simp: USER_STACK_SIZE_def)
qed

end
