(* ===== verification/Pci.thy ===== *)
theory Pci
  imports Devices
begin

text \<open>
  PCI configuration space (\<open>src/kern/drv/pci.rs\<close>): access through the ports 0xCF8 and 0xCFC, the bus
  scan with its table of at most 64 functions, and the lookup by class. \<open>PCI_DEVICES\<close> and
  \<open>PCI_COUNT\<close> are the fields of \<open>pci\<close>.
\<close>

section \<open>Configuration space\<close>

definition PCI_CONFIG_ADDR :: u16 where "PCI_CONFIG_ADDR = 0xCF8"
definition PCI_CONFIG_DATA :: u16 where "PCI_CONFIG_DATA = 0xCFC"

record pci_addr =
  pa_bus :: u8
  pa_dev :: u8
  pa_func :: u8

definition config_address :: "pci_addr \<Rightarrow> u8 \<Rightarrow> u32" where
  "config_address a offset =
     0x80000000 OR push_bit 16 (ucast (pa_bus a)) OR push_bit 11 (ucast (pa_dev a))
       OR push_bit 8 (ucast (pa_func a)) OR (ucast offset AND 0xFC)"

definition config_read32 :: "pci_addr \<Rightarrow> u8 \<Rightarrow> hw \<Rightarrow> u32 \<times> hw" where
  "config_read32 a offset s = inl PCI_CONFIG_DATA (outl PCI_CONFIG_ADDR (config_address a offset) s)"

definition config_write32 :: "pci_addr \<Rightarrow> u8 \<Rightarrow> u32 \<Rightarrow> hw \<Rightarrow> hw" where
  "config_write32 a offset v s = outl PCI_CONFIG_DATA v (outl PCI_CONFIG_ADDR (config_address a offset) s)"

definition config_read16 :: "pci_addr \<Rightarrow> u8 \<Rightarrow> hw \<Rightarrow> u16 \<times> hw" where
  "config_read16 a offset s =
     (let (v, s) = config_read32 a (offset AND 0xFC) s in (ucast (drop_bit (unat (offset AND 2) * 8) v), s))"

definition config_read8 :: "pci_addr \<Rightarrow> u8 \<Rightarrow> hw \<Rightarrow> u8 \<times> hw" where
  "config_read8 a offset s =
     (let (v, s) = config_read32 a (offset AND 0xFC) s in (ucast (drop_bit (unat (offset AND 3) * 8) v), s))"

definition pci_vendor :: "pci_addr \<Rightarrow> hw \<Rightarrow> u16 \<times> hw" where "pci_vendor a = config_read16 a 0x00"
definition pci_device_id :: "pci_addr \<Rightarrow> hw \<Rightarrow> u16 \<times> hw" where "pci_device_id a = config_read16 a 0x02"
definition pci_class_code :: "pci_addr \<Rightarrow> hw \<Rightarrow> u8 \<times> hw" where "pci_class_code a = config_read8 a 0x0B"
definition pci_subclass :: "pci_addr \<Rightarrow> hw \<Rightarrow> u8 \<times> hw" where "pci_subclass a = config_read8 a 0x0A"
definition pci_prog_if :: "pci_addr \<Rightarrow> hw \<Rightarrow> u8 \<times> hw" where "pci_prog_if a = config_read8 a 0x09"
definition pci_header_type :: "pci_addr \<Rightarrow> hw \<Rightarrow> u8 \<times> hw" where "pci_header_type a = config_read8 a 0x0E"
definition pci_interrupt_line :: "pci_addr \<Rightarrow> hw \<Rightarrow> u8 \<times> hw" where "pci_interrupt_line a = config_read8 a 0x3C"
definition pci_interrupt_pin :: "pci_addr \<Rightarrow> hw \<Rightarrow> u8 \<times> hw" where "pci_interrupt_pin a = config_read8 a 0x3D"

definition pci_bar :: "pci_addr \<Rightarrow> u8 \<Rightarrow> hw \<Rightarrow> u32 \<times> hw" where
  "pci_bar a index = config_read32 a (0x10 + index * 4)"

definition bar_mem_base :: "pci_addr \<Rightarrow> u8 \<Rightarrow> hw \<Rightarrow> u64 \<times> hw" where
  "bar_mem_base a index s =
     (let (bar0, s) = pci_bar a index s
      in if bar0 AND 1 \<noteq> 0 then (ucast (bar0 AND NOT 0x3), s)
         else let bar_type = drop_bit 1 bar0 AND 0x3; base_lo = ucast (bar0 AND NOT 0xF)
              in if bar_type = 2
                 then let (bar1, s) = pci_bar a (index + 1) s in (base_lo OR push_bit 32 (ucast bar1), s)
                 else (base_lo, s))"

definition enable_bus_master :: "pci_addr \<Rightarrow> hw \<Rightarrow> hw" where
  "enable_bus_master a s =
     (let (cmd, s) = config_read16 a 0x04 s; new_cmd = cmd OR 0x06; (full, s) = config_read32 a 0x04 s
      in config_write32 a 0x04 ((full AND 0xFFFF0000) OR ucast new_cmd) s)"

section \<open>The scan\<close>

record pci_device =
  pd_addr :: pci_addr
  pd_vendor_id :: u16
  pd_device_id :: u16
  pd_class :: u8
  pd_subclass :: u8
  pd_prog_if :: u8

definition MAX_PCI_DEVICES :: nat where "MAX_PCI_DEVICES = 64"

record pci =
  pc_devices :: "nat \<Rightarrow> pci_device option"
  pc_count :: nat

definition scan_func :: "u8 \<Rightarrow> u8 \<Rightarrow> u8 \<Rightarrow> nat \<times> pci \<times> hw \<Rightarrow> nat \<times> pci \<times> hw" where
  "scan_func bus dev func st =
     (case st of (count, p, s) \<Rightarrow>
        let faddr = \<lparr>pa_bus = bus, pa_dev = dev, pa_func = func\<rparr>;
            (vid, s) = pci_vendor faddr s
        in if vid = 0xFFFF then (count, p, s)
           else let (did, s) = pci_device_id faddr s;
                    (cls, s) = pci_class_code faddr s;
                    (sub, s) = pci_subclass faddr s;
                    (prog_if, s) = pci_prog_if faddr s;
                    d = \<lparr>pd_addr = faddr, pd_vendor_id = vid, pd_device_id = did, pd_class = cls,
                         pd_subclass = sub, pd_prog_if = prog_if\<rparr>;
                    p' = (if count < MAX_PCI_DEVICES
                          then p\<lparr>pc_devices := (pc_devices p)(count := Some d), pc_count := count + 1\<rparr> else p)
                in (count + 1, p', s))"

definition scan_dev :: "u8 \<Rightarrow> u8 \<Rightarrow> nat \<times> pci \<times> hw \<Rightarrow> nat \<times> pci \<times> hw" where
  "scan_dev bus dev st =
     (case st of (count, p, s) \<Rightarrow>
        let addr = \<lparr>pa_bus = bus, pa_dev = dev, pa_func = 0\<rparr>;
            (vendor, s) = pci_vendor addr s
        in if vendor = 0xFFFF then (count, p, s)
           else let (header, s) = pci_header_type addr s;
                    max_func = (if header AND 0x80 \<noteq> 0 then 8 else 1 :: nat)
                in fold (\<lambda>func. scan_func bus dev (of_nat func)) [0..<max_func] (count, p, s))"

definition scan_bus :: "u8 \<Rightarrow> nat \<times> pci \<times> hw \<Rightarrow> nat \<times> pci \<times> hw" where
  "scan_bus bus st = fold (\<lambda>dev. scan_dev bus (of_nat dev)) [0..<32] st"

definition pci_scan :: "pci \<Rightarrow> hw \<Rightarrow> (pci \<times> hw) option" where
  "pci_scan p s =
     (let (count, p', s') = fold (\<lambda>bus. scan_bus (of_nat bus)) [0..<256] (0, p, s)
      in do { s'' \<leftarrow> say [Str ''PCI: found '', Dec (of_nat count), Str '' devices\<newline>''] s'; Some (p', s'') })"

text \<open>The table index is always in range: the count never exceeds 64.\<close>

definition find_by_class :: "u8 \<Rightarrow> u8 \<Rightarrow> u8 \<Rightarrow> pci \<Rightarrow> pci_addr option" where
  "find_by_class cls sub prog_if p =
     (case first_from (\<lambda>i. case pc_devices p i of None \<Rightarrow> False
              | Some d \<Rightarrow> pd_class d = cls \<and> pd_subclass d = sub \<and> pd_prog_if d = prog_if) 0 (pc_count p) of
        None \<Rightarrow> None | Some i \<Rightarrow> map_option pd_addr (pc_devices p i))"

definition dump_device :: "pci_device \<Rightarrow> con list" where
  "dump_device d =
     [Str ''  '', Hex (ucast (pa_bus (pd_addr d))), Str '':'', Hex (ucast (pa_dev (pd_addr d))), Str ''.'',
      Hex (ucast (pa_func (pd_addr d))), Str '' '', Hex (ucast (pd_vendor_id d)), Str '':'',
      Hex (ucast (pd_device_id d)), Str '' class='', Hex (ucast (pd_class d)), Str '':'',
      Hex (ucast (pd_subclass d)), Str '':'', Hex (ucast (pd_prog_if d)), Str ''\<newline>'']"

definition pci_dump :: "pci \<Rightarrow> hw \<Rightarrow> hw option" where
  "pci_dump p s =
     say (concat (map (\<lambda>i. case pc_devices p i of None \<Rightarrow> [] | Some d \<Rightarrow> dump_device d) [0..<pc_count p])) s"

section \<open>The host bridge\<close>

text \<open>
  PCI Local Bus Specification, configuration mechanism 1: a read of the data port returns the
  double word selected by the last write of the address port. \<open>conf\<close> is the configuration space,
  not changing during the scan.
\<close>

definition pci_host :: "(u32 \<Rightarrow> u32) \<Rightarrow> hw \<Rightarrow> bool" where
  "pci_host conf s \<longleftrightarrow> (\<forall>v tr. hw_port s (OutL PCI_CONFIG_ADDR v # tr) PCI_CONFIG_DATA = conf v)"

text \<open>\<open>looked s s'\<close>: the driver has only read configuration space between the two states.\<close>

definition looked :: "hw \<Rightarrow> hw \<Rightarrow> bool" where
  "looked s s' \<longleftrightarrow> (\<exists>tr. s' = s\<lparr>hw_trace := tr @ hw_trace s\<rparr> \<and> (\<forall>v. OutL PCI_CONFIG_DATA v \<notin> set tr))"

lemma looked_refl [simp]: "looked s s"
  unfolding looked_def by (rule exI [of _ "[]"]) simp

lemma looked_trans: "looked s s' \<Longrightarrow> looked s' s'' \<Longrightarrow> looked s s''"
  unfolding looked_def by (elim exE conjE, rule_tac x = "tra @ tr" in exI) auto

lemma looked_host: "looked s s' \<Longrightarrow> pci_host conf s' = pci_host conf s"
  by (auto simp: looked_def pci_host_def)

lemma looked_live: "looked s s' \<Longrightarrow> live s' = live s"
  by (auto simp: looked_def live_def)

text \<open>What a field of a function reads.\<close>

definition conf16 :: "(u32 \<Rightarrow> u32) \<Rightarrow> pci_addr \<Rightarrow> u8 \<Rightarrow> u16" where
  "conf16 conf a off = ucast (drop_bit (unat (off AND 2) * 8) (conf (config_address a (off AND 0xFC))))"

definition conf8 :: "(u32 \<Rightarrow> u32) \<Rightarrow> pci_addr \<Rightarrow> u8 \<Rightarrow> u8" where
  "conf8 conf a off = ucast (drop_bit (unat (off AND 3) * 8) (conf (config_address a (off AND 0xFC))))"

lemma config_reads:
  assumes "pci_host conf s"
  shows "\<exists>s'. config_read32 a off s = (conf (config_address a off), s') \<and> looked s s'"
    "\<exists>s'. config_read16 a off s = (conf16 conf a off, s') \<and> looked s s'"
    "\<exists>s'. config_read8 a off s = (conf8 conf a off, s') \<and> looked s s'"
proof -
  have one: "\<exists>s'. config_read32 a o1 s = (conf (config_address a o1), s') \<and> looked s s'" for o1
    using assms unfolding pci_host_def
    by (auto simp: config_read32_def inl_def outl_def Let_def looked_def PCI_CONFIG_ADDR_def PCI_CONFIG_DATA_def
        intro!: exI [of _ "[InL _ _, OutL _ _]"])
  show "\<exists>s'. config_read32 a off s = (conf (config_address a off), s') \<and> looked s s'" by (rule one)
  show "\<exists>s'. config_read16 a off s = (conf16 conf a off, s') \<and> looked s s'"
    using one [of "off AND 0xFC"] by (auto simp: config_read16_def conf16_def)
  show "\<exists>s'. config_read8 a off s = (conf8 conf a off, s') \<and> looked s s'"
    using one [of "off AND 0xFC"] by (auto simp: config_read8_def conf8_def)
qed

section \<open>What the scan finds\<close>

definition conf_device :: "(u32 \<Rightarrow> u32) \<Rightarrow> pci_addr \<Rightarrow> pci_device" where
  "conf_device conf a =
     \<lparr>pd_addr = a, pd_vendor_id = conf16 conf a 0x00, pd_device_id = conf16 conf a 0x02,
      pd_class = conf8 conf a 0x0B, pd_subclass = conf8 conf a 0x0A, pd_prog_if = conf8 conf a 0x09\<rparr>"

definition present :: "(u32 \<Rightarrow> u32) \<Rightarrow> pci_addr \<Rightarrow> bool" where
  "present conf a \<longleftrightarrow> conf16 conf a 0x00 \<noteq> 0xFFFF"

definition func_list :: "(u32 \<Rightarrow> u32) \<Rightarrow> u8 \<Rightarrow> u8 \<Rightarrow> u8 \<Rightarrow> pci_addr list" where
  "func_list conf bus dev func =
     (let a = \<lparr>pa_bus = bus, pa_dev = dev, pa_func = func\<rparr> in if present conf a then [a] else [])"

definition multi_function :: "(u32 \<Rightarrow> u32) \<Rightarrow> pci_addr \<Rightarrow> bool" where
  "multi_function conf a \<longleftrightarrow> conf8 conf a 0x0E AND 0x80 \<noteq> 0"

definition slot_list :: "(u32 \<Rightarrow> u32) \<Rightarrow> u8 \<Rightarrow> u8 \<Rightarrow> pci_addr list" where
  "slot_list conf bus dev =
     (let a = \<lparr>pa_bus = bus, pa_dev = dev, pa_func = 0\<rparr>
      in if present conf a
         then concat (map (\<lambda>f. func_list conf bus dev (of_nat f)) [0..<if multi_function conf a then 8 else 1])
         else [])"

definition all_functions :: "(u32 \<Rightarrow> u32) \<Rightarrow> pci_addr list" where
  "all_functions conf =
     concat (map (\<lambda>b. concat (map (\<lambda>d. slot_list conf (of_nat b) (of_nat d)) [0..<32])) [0..<256])"

text \<open>The table after the functions \<open>as\<close> have been found.\<close>

definition table_of :: "(u32 \<Rightarrow> u32) \<Rightarrow> pci \<Rightarrow> pci_addr list \<Rightarrow> pci" where
  "table_of conf p as =
     \<lparr>pc_devices = (\<lambda>i. if i < min 64 (length as) then Some (conf_device conf (as ! i)) else pc_devices p i),
      pc_count = (if as = [] then pc_count p else min 64 (length as))\<rparr>"

lemma table_of_Nil [simp]: "table_of conf p [] = p"
  by (simp add: table_of_def)

lemma table_of_snoc:
  "table_of conf p (as @ [a]) =
     (if length as < 64
      then (table_of conf p as)\<lparr>pc_devices := (pc_devices (table_of conf p as))(length as := Some (conf_device conf a)),
                               pc_count := length as + 1\<rparr>
      else table_of conf p as)"
  by (auto simp: table_of_def nth_append fun_eq_iff min_def)

text \<open>A step of the scan that finds the functions \<open>fs\<close>.\<close>

definition finds ::
  "(u32 \<Rightarrow> u32) \<Rightarrow> pci \<Rightarrow> (nat \<times> pci \<times> hw \<Rightarrow> nat \<times> pci \<times> hw) \<Rightarrow> pci_addr list \<Rightarrow> bool" where
  "finds conf p g fs \<longleftrightarrow> (\<forall>as s. pci_host conf s \<longrightarrow>
     (\<exists>s'. g (length as, table_of conf p as, s) = (length (as @ fs), table_of conf p (as @ fs), s') \<and> looked s s'))"

lemma finds_fold:
  assumes "\<And>x. finds conf p (g x) (h x)"
  shows "finds conf p (fold g xs) (concat (map h xs))"
proof (induction xs)
  case Nil
  then show ?case by (simp add: finds_def)
next
  case (Cons x xs)
  show ?case
    unfolding finds_def
  proof (intro allI impI)
    fix as s assume host: "pci_host conf s"
    obtain s1 where 1: "g x (length as, table_of conf p as, s) = (length (as @ h x), table_of conf p (as @ h x), s1)"
      "looked s s1"
      using assms [of x] host unfolding finds_def by blast
    then have "pci_host conf s1" using host looked_host by simp
    then obtain s2 where 2: "fold g xs (length (as @ h x), table_of conf p (as @ h x), s1) =
        (length ((as @ h x) @ concat (map h xs)), table_of conf p ((as @ h x) @ concat (map h xs)), s2)" "looked s1 s2"
      using Cons.IH unfolding finds_def by blast
    have "fold g (x # xs) (length as, table_of conf p as, s) =
        (length (as @ concat (map h (x # xs))), table_of conf p (as @ concat (map h (x # xs))), s2)"
      unfolding fold_Cons comp_apply 1(1) 2(1) by simp
    then show "\<exists>s'. fold g (x # xs) (length as, table_of conf p as, s) =
        (length (as @ concat (map h (x # xs))), table_of conf p (as @ concat (map h (x # xs))), s') \<and> looked s s'"
      using looked_trans [OF 1(2) 2(2)] by blast
  qed
qed

lemma finds_func: "finds conf p (scan_func bus dev func) (func_list conf bus dev func)"
  unfolding finds_def
proof (intro allI impI)
  fix as s assume host: "pci_host conf s"
  let ?a = "\<lparr>pa_bus = bus, pa_dev = dev, pa_func = func\<rparr>"
  obtain s1 where 1: "pci_vendor ?a s = (conf16 conf ?a 0, s1)" "looked s s1"
    using config_reads(2) [OF host] by (metis pci_vendor_def)
  then have h1: "pci_host conf s1" using host looked_host by simp
  obtain s2 where 2: "pci_device_id ?a s1 = (conf16 conf ?a 2, s2)" "looked s1 s2"
    using config_reads(2) [OF h1] by (metis pci_device_id_def)
  then have h2: "pci_host conf s2" using h1 looked_host by simp
  obtain s3 where 3: "pci_class_code ?a s2 = (conf8 conf ?a 0x0B, s3)" "looked s2 s3"
    using config_reads(3) [OF h2] by (metis pci_class_code_def)
  then have h3: "pci_host conf s3" using h2 looked_host by simp
  obtain s4 where 4: "pci_subclass ?a s3 = (conf8 conf ?a 0x0A, s4)" "looked s3 s4"
    using config_reads(3) [OF h3] by (metis pci_subclass_def)
  then have h4: "pci_host conf s4" using h3 looked_host by simp
  obtain s5 where 5: "pci_prog_if ?a s4 = (conf8 conf ?a 9, s5)" "looked s4 s5"
    using config_reads(3) [OF h4] by (metis pci_prog_if_def)
  have all: "looked s s5" using looked_trans 1(2) 2(2) 3(2) 4(2) 5(2) by blast
  show "\<exists>s'. scan_func bus dev func (length as, table_of conf p as, s) =
      (length (as @ func_list conf bus dev func), table_of conf p (as @ func_list conf bus dev func), s') \<and> looked s s'"
  proof (cases "present conf ?a")
    case False
    then show ?thesis using 1 by (simp add: scan_func_def func_list_def present_def)
  next
    case True
    then show ?thesis using all
      by (simp add: scan_func_def func_list_def present_def 1(1) 2(1) 3(1) 4(1) 5(1) table_of_snoc
          MAX_PCI_DEVICES_def conf_device_def Let_def)
  qed
qed

lemma finds_dev: "finds conf p (scan_dev bus dev) (slot_list conf bus dev)"
  unfolding finds_def
proof (intro allI impI)
  fix as s assume host: "pci_host conf s"
  let ?a = "\<lparr>pa_bus = bus, pa_dev = dev, pa_func = 0\<rparr>"
  obtain s1 where 1: "pci_vendor ?a s = (conf16 conf ?a 0, s1)" "looked s s1"
    using config_reads(2) [OF host] by (metis pci_vendor_def)
  then have h1: "pci_host conf s1" using host looked_host by simp
  obtain s2 where 2: "pci_header_type ?a s1 = (conf8 conf ?a 0x0E, s2)" "looked s1 s2"
    using config_reads(3) [OF h1] by (metis pci_header_type_def)
  then have h2: "pci_host conf s2" using h1 looked_host by simp
  show "\<exists>s'. scan_dev bus dev (length as, table_of conf p as, s) =
      (length (as @ slot_list conf bus dev), table_of conf p (as @ slot_list conf bus dev), s') \<and> looked s s'"
  proof (cases "present conf ?a")
    case False
    then show ?thesis using 1 by (simp add: scan_dev_def slot_list_def present_def)
  next
    case True
    let ?n = "if multi_function conf ?a then 8 else 1 :: nat"
    have "finds conf p (fold (\<lambda>f. scan_func bus dev (of_nat f)) [0..<?n])
        (concat (map (\<lambda>f. func_list conf bus dev (of_nat f)) [0..<?n]))"
      by (rule finds_fold) (rule finds_func)
    then obtain s3 where "fold (\<lambda>f. scan_func bus dev (of_nat f)) [0..<?n] (length as, table_of conf p as, s2) =
        (length (as @ slot_list conf bus dev), table_of conf p (as @ slot_list conf bus dev), s3)" "looked s2 s3"
      using h2 True unfolding finds_def slot_list_def Let_def by (auto simp del: upt_Suc)
    moreover have "scan_dev bus dev (length as, table_of conf p as, s) =
        fold (\<lambda>f. scan_func bus dev (of_nat f)) [0..<?n] (length as, table_of conf p as, s2)"
      using True 1(1) 2(1) by (simp add: scan_dev_def present_def multi_function_def del: upt_Suc upt_rec_numeral)
    ultimately show ?thesis using looked_trans 1(2) 2(2) by metis
  qed
qed

lemma finds_all: "finds conf p (fold (\<lambda>bus. scan_bus (of_nat bus)) [0..<256]) (all_functions conf)"
  unfolding all_functions_def scan_bus_def by (intro finds_fold finds_dev)

lemma find_first_from:
  assumes "\<And>i. i < length xs \<Longrightarrow> p i = f (xs ! i)"
  shows "find f xs = map_option (\<lambda>i. xs ! i) (first_from p 0 (length xs))"
proof (cases "first_from p 0 (length xs)")
  case None
  then have "\<not> f (xs ! i)" if "i < length xs" for i using assms that by (auto simp: first_from_None)
  then show ?thesis using None by (auto simp: find_None_iff in_set_conv_nth)
next
  case (Some i)
  note i = first_from_SomeD [OF Some]
  have "find f xs = Some (xs ! i)"
    unfolding find_Some_iff using i assms by (intro exI [of _ i]) auto
  then show ?thesis using Some by simp
qed

lemma find_by_class_table:
  "find_by_class cls sub prog (table_of conf \<lparr>pc_devices = (\<lambda>_. None), pc_count = 0\<rparr> as) =
   find (\<lambda>a. conf8 conf a 0x0B = cls \<and> conf8 conf a 0x0A = sub \<and> conf8 conf a 0x09 = prog) (take 64 as)"
proof -
  let ?p = "table_of conf \<lparr>pc_devices = (\<lambda>_. None), pc_count = 0\<rparr> as"
  let ?q = "\<lambda>i. case pc_devices ?p i of None \<Rightarrow> False
      | Some d \<Rightarrow> pd_class d = cls \<and> pd_subclass d = sub \<and> pd_prog_if d = prog"
  have n: "pc_count ?p = length (take 64 as)" by (simp add: table_of_def min.commute)
  have dev: "pc_devices ?p i = Some (conf_device conf (take 64 as ! i))" if "i < length (take 64 as)" for i
    using that by (simp add: table_of_def)
  have "find (\<lambda>a. conf8 conf a 0x0B = cls \<and> conf8 conf a 0x0A = sub \<and> conf8 conf a 0x09 = prog) (take 64 as) =
      map_option (\<lambda>i. take 64 as ! i) (first_from ?q 0 (length (take 64 as)))"
    by (rule find_first_from) (simp add: dev conf_device_def)
  moreover have "(case first_from ?q 0 (length (take 64 as)) of None \<Rightarrow> None | Some i \<Rightarrow> map_option pd_addr (pc_devices ?p i)) =
      map_option (\<lambda>i. take 64 as ! i) (first_from ?q 0 (length (take 64 as)))"
  proof (cases "first_from ?q 0 (length (take 64 as))")
    case (Some i)
    then have "i < length (take 64 as)" using first_from_SomeD(2) by fastforce
    then show ?thesis unfolding Some by (simp add: dev conf_device_def)
  qed (simp only: option.simps)
  ultimately show ?thesis unfolding find_by_class_def n by (rule trans [OF _ sym, rotated])
qed

text \<open>
  C24: the scan. On a host bridge that implements configuration mechanism 1, \<open>scan\<close> ends and records
  the first 64 functions of the machine in the order bus, device, function, where a device whose
  function 0 is missing has none and a single-function device only function 0; it reports how many
  there are in all, and it never writes configuration data. \<open>find_by_class\<close> then gives the first
  recorded function of that class.
\<close>

theorem pci_scan_finds_functions:
  assumes "pci_host conf s" "live s"
  shows "\<exists>s'. pci_scan p s = Some (table_of conf p (all_functions conf), s') \<and>
    written COM1 (hw_io s') = written COM1 (hw_io s) @ str_bytes ''PCI: found '' @
      number_text 10 (of_nat (length (all_functions conf))) @ str_bytes '' devices\<newline>'' \<and>
    find_by_class cls sub prog (table_of conf \<lparr>pc_devices = (\<lambda>_. None), pc_count = 0\<rparr> (all_functions conf)) =
      find (\<lambda>a. conf8 conf a 0x0B = cls \<and> conf8 conf a 0x0A = sub \<and> conf8 conf a 0x09 = prog)
        (take 64 (all_functions conf))"
proof -
  have "\<exists>s'. fold (\<lambda>bus. scan_bus (of_nat bus)) [0..<256] (length ([] :: pci_addr list), table_of conf p [], s) =
      (length ([] @ all_functions conf), table_of conf p ([] @ all_functions conf), s') \<and> looked s s'"
    using finds_all assms(1) unfolding finds_def by blast
  then obtain s1 where 1: "fold (\<lambda>bus. scan_bus (of_nat bus)) [0..<256] (0, p, s) =
      (length (all_functions conf), table_of conf p (all_functions conf), s1)" "looked s s1"
    unfolding list.size append_Nil table_of_Nil by (elim exE conjE) (rule that)
  then have "live s1" using assms(2) looked_live by simp
  then obtain s2 where 2: "say [Str ''PCI: found '', Dec (of_nat (length (all_functions conf))), Str '' devices\<newline>''] s1 = Some s2"
    "printed s1 (concat (map con_text [Str ''PCI: found '', Dec (of_nat (length (all_functions conf))), Str '' devices\<newline>''])) s2"
    by (rule say_prints)
  have "hw_io s1 = hw_io s" using 1(2) by (auto simp: looked_def)
  then have "written COM1 (hw_io s2) = written COM1 (hw_io s) @ str_bytes ''PCI: found '' @
      number_text 10 (of_nat (length (all_functions conf))) @ str_bytes '' devices\<newline>''"
    using 2(2) by (auto simp: printed_def sent_def)
  moreover have "pci_scan p s = Some (table_of conf p (all_functions conf), s2)"
    unfolding pci_scan_def 1(1) by (simp add: 2(1))
  ultimately show ?thesis using find_by_class_table by blast
qed

text \<open>A machine with one single-function AHCI controller in slot 3 of bus 0.\<close>

definition sample_conf :: "u32 \<Rightarrow> u32" where
  "sample_conf v = (if v = 0x80001800 then 0x29228086 else if v = 0x80001808 then 0x01060100 else
     if v AND 0x00FFF800 = 0x1800 then 0 else 0xFFFFFFFF)"

definition pci_hw :: hw where
  "pci_hw = \<lparr>hw_io = \<lparr>io_env = (\<lambda>_ _. 0x20), io_trace = []\<rparr>, hw_trace = [], hw_reg = (\<lambda>_ _. 0),
     hw_port = (\<lambda>tr p. case tr of OutL q v # _ \<Rightarrow> sample_conf v | _ \<Rightarrow> 0),
     hw_dma = (\<lambda>_ r. r), hw_ram = (\<lambda>_. 0), hw_heap = mem_boot\<rparr>"

theorem pci_scan_finds_functions_witness:
  "\<exists>p s'. pci_scan \<lparr>pc_devices = (\<lambda>_. None), pc_count = 0\<rparr> pci_hw = Some (p, s') \<and>
     find_by_class 0xFF 0 0 p = find (\<lambda>a. conf8 sample_conf a 0x0B = 0xFF \<and> conf8 sample_conf a 0x0A = 0 \<and>
       conf8 sample_conf a 0x09 = 0) (take 64 (all_functions sample_conf))"
proof -
  have "pci_host sample_conf pci_hw" by (simp add: pci_host_def pci_hw_def)
  moreover have "live pci_hw" by (simp add: live_def pci_hw_def tx_live_def)
  ultimately show ?thesis
    using pci_scan_finds_functions [of sample_conf pci_hw "\<lparr>pc_devices = (\<lambda>_. None), pc_count = 0\<rparr>" "0xFF" 0 0] by blast
qed

section \<open>Bus mastering and base addresses\<close>

lemma high_half: "(0xFFFF0000 :: u32) = push_bit 16 (mask 16)"
  by (simp add: mask_eq_exp_minus_1)

lemma low_half_or: "(v AND 0xFFFF0000) OR ucast ((ucast v :: u16) OR 6) = (v OR 6 :: u32)"
proof -
  have six: "(6 :: u32) = ucast (6 :: u16)" by simp
  have "(6 :: int) = push_bit 1 (mask 2)" by (simp add: mask_eq_exp_minus_1)
  then have small: "bit (6 :: int) n \<Longrightarrow> n < 16" for n
    by (simp only: bit_push_bit_iff bit_mask_iff) linarith
  show ?thesis
    unfolding high_half six
    by (intro bit_eqI) (auto simp: bit_simps not_less simp del: mask_numeral dest: small)
qed

text \<open>
  The command register is written with I/O untouched and memory decoding and bus mastering set; the
  status half of the double word is written back as it was read, which clears its latched error bits.
\<close>

lemma enable_bus_master_writes:
  assumes "pci_host conf s"
  shows "\<exists>tr. hw_trace (enable_bus_master a s) =
    OutL PCI_CONFIG_DATA (conf (config_address a 4) OR 6) # OutL PCI_CONFIG_ADDR (config_address a 4) # tr"
proof -
  obtain s1 where 1: "config_read16 a 4 s = (conf16 conf a 4, s1)" "looked s s1"
    using config_reads(2) [OF assms] by blast
  then have "pci_host conf s1" using assms looked_host by simp
  then obtain s2 where 2: "config_read32 a 4 s1 = (conf (config_address a 4), s2)"
    using config_reads(1) by blast
  have "conf16 conf a 4 = ucast (conf (config_address a 4))" by (simp add: conf16_def)
  then show ?thesis
    by (simp add: enable_bus_master_def 1(1) 2 config_write32_def outl_def low_half_or)
qed

lemma bar_mem_base_memory:
  assumes "pci_host conf s" "conf (config_address a (0x10 + index * 4)) = lo" "lo AND 1 = 0"
  shows "fst (bar_mem_base a index s) =
    (if drop_bit 1 lo AND 3 = 2
     then ucast (lo AND NOT 0xF) OR push_bit 32 (ucast (conf (config_address a (0x10 + (index + 1) * 4))))
     else ucast (lo AND NOT 0xF))"
proof -
  obtain s1 where 1: "pci_bar a index s = (lo, s1)" "looked s s1"
    using config_reads(1) [OF assms(1)] assms(2) by (metis pci_bar_def)
  then have "pci_host conf s1" using assms(1) looked_host by simp
  then obtain s2 where "pci_bar a (index + 1) s1 = (conf (config_address a (0x10 + (index + 1) * 4)), s2)"
    using config_reads(1) by (metis pci_bar_def)
  then show ?thesis using assms(3) 1(1) by (simp add: bar_mem_base_def)
qed

end
