(* ===== verification/Ahci.thy ===== *)
theory Ahci
  imports Pci Mmio_Map
begin

text \<open>
  The AHCI disk driver (\<open>src/kern/drv/disk/ahci.rs\<close>): port start and stop, command set-up and issue,
  IDENTIFY, initialisation and sector reads. The statics are the record \<open>ahci\<close>; registers are
  accessed through \<open>mmio_read\<close> and \<open>mmio_write\<close>, command lists and tables are written to memory.
  Pointers are addresses, 0 is null. Polling loops are bounded in the code and so are they here.
\<close>

section \<open>Registers and structures\<close>

definition GHC_AE :: u32 where "GHC_AE = push_bit 31 1"
definition PORT_CMD_ST :: u32 where "PORT_CMD_ST = push_bit 0 1"
definition PORT_CMD_FRE :: u32 where "PORT_CMD_FRE = push_bit 4 1"
definition PORT_CMD_FR :: u32 where "PORT_CMD_FR = push_bit 14 1"
definition PORT_CMD_CR :: u32 where "PORT_CMD_CR = push_bit 15 1"
definition PORT_TFD_BSY :: u32 where "PORT_TFD_BSY = push_bit 7 1"
definition PORT_TFD_DRQ :: u32 where "PORT_TFD_DRQ = push_bit 3 1"
definition PORT_TFD_ERR :: u32 where "PORT_TFD_ERR = push_bit 0 1"
definition SATA_SIG_ATA :: u32 where "SATA_SIG_ATA = 0x00000101"
definition FIS_TYPE_REG_H2D :: u8 where "FIS_TYPE_REG_H2D = 0x27"
definition ATA_CMD_IDENTIFY :: u8 where "ATA_CMD_IDENTIFY = 0xEC"
definition ATA_CMD_READ_DMA_EXT :: u8 where "ATA_CMD_READ_DMA_EXT = 0x25"
definition MAX_PORTS :: nat where "MAX_PORTS = 32"

text \<open>Offsets of the fields of the \<open>repr(C)\<close> structures.\<close>

datatype hba_field = Ghc | Pi | Vs

fun hba_off :: "hba_field \<Rightarrow> u64" where
  "hba_off Ghc = 0x04" | "hba_off Pi = 0x0C" | "hba_off Vs = 0x10"

datatype port_field = Clb | Clbu | Fb | Fbu | Isr | Cmd | Tfd | Sig | Ssts | Serr | Ci

fun port_off :: "port_field \<Rightarrow> u64" where
  "port_off Clb = 0x00" | "port_off Clbu = 0x04" | "port_off Fb = 0x08" | "port_off Fbu = 0x0C"
| "port_off Isr = 0x10" | "port_off Cmd = 0x18" | "port_off Tfd = 0x20" | "port_off Sig = 0x24"
| "port_off Ssts = 0x28" | "port_off Serr = 0x30" | "port_off Ci = 0x38"

definition HDR_FLAGS :: nat where "HDR_FLAGS = 0"
definition HDR_PRDTL :: nat where "HDR_PRDTL = 2"
definition HDR_PRDBC :: nat where "HDR_PRDBC = 4"
definition HDR_CTBA :: nat where "HDR_CTBA = 8"
definition HDR_CTBAU :: nat where "HDR_CTBAU = 12"
definition TABLE_PRDT :: nat where "TABLE_PRDT = 128"
definition TABLE_SIZE :: nat where "TABLE_SIZE = 144"

record ahci =
  ah_abar :: u64
  ah_active :: u32
  ah_clb :: "nat \<Rightarrow> u64"
  ah_fb :: "nat \<Rightarrow> u64"
  ah_ctba :: "nat \<Rightarrow> u64"
  ah_identify :: u64

definition ahci_boot :: ahci where
  "ahci_boot = \<lparr>ah_abar = 0, ah_active = 0, ah_clb = (\<lambda>_. 0), ah_fb = (\<lambda>_. 0), ah_ctba = (\<lambda>_. 0), ah_identify = 0\<rparr>"

definition port_ptr :: "ahci \<Rightarrow> nat \<Rightarrow> u64" where
  "port_ptr d port = ah_abar d + 0x100 + 0x80 * of_nat port"

definition port_read :: "ahci \<Rightarrow> nat \<Rightarrow> port_field \<Rightarrow> hw \<Rightarrow> u32 \<times> hw" where
  "port_read d port f s = mmio_read (port_ptr d port + port_off f) s"

definition port_write :: "ahci \<Rightarrow> nat \<Rightarrow> port_field \<Rightarrow> u32 \<Rightarrow> hw \<Rightarrow> hw" where
  "port_write d port f v s = mmio_write (port_ptr d port + port_off f) v s"

section \<open>Port control\<close>

text \<open>\<open>for _ in 0..n { if ok(read) { return true } } false\<close>\<close>

fun poll_port :: "nat \<Rightarrow> ahci \<Rightarrow> nat \<Rightarrow> port_field \<Rightarrow> (u32 \<Rightarrow> bool) \<Rightarrow> hw \<Rightarrow> bool \<times> hw" where
  "poll_port 0 d port f ok s = (False, s)"
| "poll_port (Suc n) d port f ok s =
     (let (v, s) = port_read d port f s in if ok v then (True, s) else poll_port n d port f ok s)"

definition PORT_POLLS :: nat where "PORT_POLLS = 1000000"
definition ISSUE_POLLS :: nat where "ISSUE_POLLS = 10000000"

definition stop_port :: "ahci \<Rightarrow> nat \<Rightarrow> hw \<Rightarrow> hw option" where
  "stop_port d port s =
     (let (cmd, s) = port_read d port Cmd s;
          cmd = cmd AND NOT PORT_CMD_ST; s = port_write d port Cmd cmd s;
          cmd = cmd AND NOT PORT_CMD_FRE; s = port_write d port Cmd cmd s;
          (ok, s) = poll_port PORT_POLLS d port Cmd (\<lambda>c. c AND PORT_CMD_CR = 0 \<and> c AND PORT_CMD_FR = 0) s
      in if ok then Some s else say [Str ''ahci: WARN: port stop timeout\<newline>''] s)"

definition start_port :: "ahci \<Rightarrow> nat \<Rightarrow> hw \<Rightarrow> hw" where
  "start_port d port s =
     (let (ok, s) = poll_port PORT_POLLS d port Cmd (\<lambda>c. c AND PORT_CMD_CR = 0) s;
          (cmd, s) = port_read d port Cmd s;
          cmd = cmd OR PORT_CMD_FRE; s = port_write d port Cmd cmd s;
          cmd = cmd OR PORT_CMD_ST
      in port_write d port Cmd cmd s)"

definition wait_port_ready :: "ahci \<Rightarrow> nat \<Rightarrow> hw \<Rightarrow> bool \<times> hw" where
  "wait_port_ready d port s = poll_port PORT_POLLS d port Tfd (\<lambda>tfd. tfd AND (PORT_TFD_BSY OR PORT_TFD_DRQ) = 0) s"

section \<open>Commands\<close>

fun issue_loop :: "nat \<Rightarrow> ahci \<Rightarrow> nat \<Rightarrow> hw \<Rightarrow> (bool \<times> hw) option" where
  "issue_loop 0 d port s = do { s \<leftarrow> say [Str ''ahci: command timeout\<newline>''] s; Some (False, s) }"
| "issue_loop (Suc n) d port s =
     (let (ci, s) = port_read d port Ci s
      in if ci AND 1 = 0
         then let (tfd, s) = port_read d port Tfd s
              in if tfd AND PORT_TFD_ERR \<noteq> 0
                 then do { s \<leftarrow> say [Str ''ahci: command error, TFD=0x'', Hex (ucast tfd), Str ''\<newline>''] s; Some (False, s) }
                 else Some (True, s)
         else let (isr, s) = port_read d port Isr s
              in if isr AND push_bit 30 1 \<noteq> 0
                 then do { s \<leftarrow> say [Str ''ahci: task file error\<newline>''] s; Some (False, s) }
                 else issue_loop n d port s)"

definition issue_command :: "ahci \<Rightarrow> nat \<Rightarrow> hw \<Rightarrow> (bool \<times> hw) option" where
  "issue_command d port s =
     issue_loop ISSUE_POLLS d port (port_write d port Ci 1 (port_write d port Isr 0xFFFFFFFF s))"

text \<open>The bytes of the register FIS, host to device.\<close>

definition fis_bytes :: "u8 \<Rightarrow> u64 \<Rightarrow> u16 \<Rightarrow> u8 list" where
  "fis_bytes command lba count =
     [FIS_TYPE_REG_H2D, 0x80, command, 0,
      ucast (lba AND 0xFF), ucast (drop_bit 8 lba AND 0xFF), ucast (drop_bit 16 lba AND 0xFF), 0x40,
      ucast (drop_bit 24 lba AND 0xFF), ucast (drop_bit 32 lba AND 0xFF), ucast (drop_bit 40 lba AND 0xFF), 0,
      ucast (count AND 0xFF), ucast (drop_bit 8 count AND 0xFF), 0, 0]"

definition prdt_bytes :: "u64 \<Rightarrow> u32 \<Rightarrow> u8 list" where
  "prdt_bytes buf_phys buf_size =
     to_le 4 (ucast buf_phys :: u32) @ to_le 4 (ucast (drop_bit 32 buf_phys) :: u32) @ to_le 4 (0 :: u32) @
     to_le 4 (buf_size - 1)"

definition setup_command ::
  "ahci \<Rightarrow> nat \<Rightarrow> u8 \<Rightarrow> u64 \<Rightarrow> u16 \<Rightarrow> u64 \<Rightarrow> u32 \<Rightarrow> bool \<Rightarrow> hw \<Rightarrow> hw" where
  "setup_command d port command lba count buf_phys buf_size is_write s =
     (let clb = ah_clb d port; ctba = ah_ctba d port;
          m = fill_ram ctba TABLE_SIZE 0 (hw_ram s);
          m = put_field 2 (clb + of_nat HDR_FLAGS) (5 :: u16) m;
          m = (if is_write
               then put_field 2 (clb + of_nat HDR_FLAGS) ((get_field 2 (clb + of_nat HDR_FLAGS) m :: u16) OR push_bit 6 1) m
               else m);
          m = put_field 2 (clb + of_nat HDR_PRDTL) (1 :: u16) m;
          m = put_field 4 (clb + of_nat HDR_PRDBC) (0 :: u32) m;
          m = store_ram (ctba + of_nat TABLE_PRDT) (prdt_bytes buf_phys buf_size) m;
          m = store_ram ctba (fis_bytes command lba count) m
      in s\<lparr>hw_ram := m\<rparr>)"

section \<open>Identification\<close>

definition printable :: "u8 \<Rightarrow> u8 list" where
  "printable b = (if 0x20 \<le> b \<and> b \<le> 0x7E then [b] else [])"

definition id_word :: "u64 \<Rightarrow> nat \<Rightarrow> ram \<Rightarrow> u16" where
  "id_word buf w m = get_field 2 (buf + of_nat (2 * w)) m"

definition id_model :: "u64 \<Rightarrow> ram \<Rightarrow> u8 list" where
  "id_model buf m =
     concat (map (\<lambda>w. let v = id_word buf w m in printable (ucast (drop_bit 8 v)) @ printable (ucast (v AND 0xFF))) [27..<47])"

definition id_sectors :: "u64 \<Rightarrow> ram \<Rightarrow> u64" where
  "id_sectors buf m =
     ucast (id_word buf 100 m) OR push_bit 16 (ucast (id_word buf 101 m)) OR
     push_bit 32 (ucast (id_word buf 102 m)) OR push_bit 48 (ucast (id_word buf 103 m))"

definition identify_device :: "ahci \<Rightarrow> nat \<Rightarrow> hw \<Rightarrow> hw option" where
  "identify_device d port s =
     (let buf = ah_identify d
      in if buf = 0 then say [Str ''ahci: IDENTIFY buf not allocated\<newline>''] s
         else
      let s = s\<lparr>hw_ram := fill_ram buf 512 0 (hw_ram s)\<rparr>;
          buf_phys = virt_to_phys (hw_heap s) (unat buf);
          (ready, s) = wait_port_ready d port s
      in if \<not> ready then say [Str ''ahci: port '', Dec (of_nat port), Str '' not ready for IDENTIFY\<newline>''] s
         else do {
           (ok, s) \<leftarrow> issue_command d port (setup_command d port ATA_CMD_IDENTIFY 0 1 buf_phys 512 False s);
           if \<not> ok then say [Str ''ahci: IDENTIFY failed on port '', Dec (of_nat port), Str ''\<newline>''] s
           else let sectors = id_sectors buf (hw_ram s); size_mb = (sectors * 512) div (1024 * 1024)
                in say [Str ''  model: '', Raw (id_model buf (hw_ram s)), Str ''\<newline>'', Str ''  sectors: '', Dec sectors,
                        Str '' ('', Dec size_mb, Str '' MB)\<newline>''] s })"

section \<open>Initialisation\<close>

text \<open>One zeroed page for a port structure; \<open>None\<close> inside when there is no memory.\<close>

definition port_page :: "string \<Rightarrow> nat \<Rightarrow> hw \<Rightarrow> (u64 option \<times> hw) option" where
  "port_page what port s =
     do { (p, s) \<leftarrow> on_heap (\<lambda>h. kmalloc_aligned h 4096 4096) s;
          if p = 0
          then do { s \<leftarrow> say [Str ''ahci: failed to alloc '', Str what, Str '' for port '', Dec (of_nat port), Str ''\<newline>''] s;
                    Some (None, s) }
          else Some (Some (of_nat p), s\<lparr>hw_ram := fill_ram (of_nat p) 4096 0 (hw_ram s)\<rparr>) }"

definition init_port :: "ahci \<Rightarrow> nat \<Rightarrow> hw \<Rightarrow> (bool \<times> ahci \<times> hw) option" where
  "init_port d port s =
     do { s \<leftarrow> stop_port d port s;
          (clb, s) \<leftarrow> port_page ''CLB'' port s;
          case clb of None \<Rightarrow> Some (False, d, s) | Some clb_virt \<Rightarrow> do {
          (fb, s) \<leftarrow> port_page ''FB'' port s;
          case fb of None \<Rightarrow> Some (False, d, s) | Some fb_virt \<Rightarrow> do {
          (ct, s) \<leftarrow> port_page ''CT'' port s;
          case ct of None \<Rightarrow> Some (False, d, s) | Some ct_virt \<Rightarrow>
            let d = d\<lparr>ah_clb := (ah_clb d)(port := clb_virt), ah_fb := (ah_fb d)(port := fb_virt),
                      ah_ctba := (ah_ctba d)(port := ct_virt)\<rparr>;
                clb_phys = virt_to_phys (hw_heap s) (unat clb_virt);
                fb_phys = virt_to_phys (hw_heap s) (unat fb_virt);
                ct_phys = virt_to_phys (hw_heap s) (unat ct_virt);
                s = port_write d port Clb (ucast clb_phys) s;
                s = port_write d port Clbu (ucast (drop_bit 32 clb_phys)) s;
                s = port_write d port Fb (ucast fb_phys) s;
                s = port_write d port Fbu (ucast (drop_bit 32 fb_phys)) s;
                s = s\<lparr>hw_ram := put_field 4 (clb_virt + of_nat HDR_CTBAU) (ucast (drop_bit 32 ct_phys) :: u32)
                        (put_field 4 (clb_virt + of_nat HDR_CTBA) (ucast ct_phys :: u32) (hw_ram s))\<rparr>;
                s = port_write d port Serr 0xFFFFFFFF s;
                s = port_write d port Isr 0xFFFFFFFF s
            in Some (True, d, start_port d port s) } } }"

text \<open>The em dash of the message in UTF-8.\<close>

definition init_one :: "u32 \<Rightarrow> nat \<Rightarrow> ahci \<times> hw \<Rightarrow> (ahci \<times> hw) option" where
  "init_one pi i st =
     (case st of (d, s) \<Rightarrow>
        if pi AND push_bit i 1 = 0 then Some (d, s)
        else let (ssts, s) = port_read d i Ssts s; det = ssts AND 0x0F; ipm = drop_bit 8 ssts AND 0x0F
             in if det \<noteq> 3 then Some (d, s)
                else if ipm \<noteq> 1 then Some (d, s)
                else let (sig, s) = port_read d i Sig s
                     in if sig \<noteq> SATA_SIG_ATA
                        then do { s \<leftarrow> say [Str ''ahci: port '', Dec (of_nat i), Str '' non-ATA sig=0x'', Hex (ucast sig),
                                            Str '', skipping\<newline>''] s; Some (d, s) }
                        else do {
                          s \<leftarrow> say [Str ''ahci: port '', Dec (of_nat i), Str '' '', Raw [0xE2, 0x80, 0x94],
                                    Str '' SATA disk detected\<newline>''] s;
                          (ok, d, s) \<leftarrow> init_port d i s;
                          if \<not> ok then Some (d, s)
                          else do { let d = d\<lparr>ah_active := ah_active d OR push_bit i 1\<rparr>;
                                    s \<leftarrow> identify_device d i s; Some (d, s) } })"

fun init_ports :: "u32 \<Rightarrow> nat list \<Rightarrow> ahci \<times> hw \<Rightarrow> (ahci \<times> hw) option" where
  "init_ports pi [] st = Some st"
| "init_ports pi (i # is) st = do { st \<leftarrow> init_one pi i st; init_ports pi is st }"

definition count_ones :: "u32 \<Rightarrow> nat" where
  "count_ones w = length (filter (bit w) [0..<32])"

definition ahci_start :: "u64 \<Rightarrow> ahci \<Rightarrow> hw \<Rightarrow> (ahci \<times> hw) option" where
  "ahci_start abar_virt d s =
     (let d = d\<lparr>ah_abar := abar_virt\<rparr>; (vs, s) = mmio_read (abar_virt + hba_off Vs) s
      in do { s \<leftarrow> say [Str ''ahci: version '', Dec (ucast (drop_bit 16 vs AND 0xFFFF)), Str ''.'',
                        Dec (ucast (vs AND 0xFFFF)), Str ''\<newline>''] s;
              let (ghc, s) = mmio_read (abar_virt + hba_off Ghc) s;
              let s = (if ghc AND GHC_AE = 0 then mmio_write (abar_virt + hba_off Ghc) (ghc OR GHC_AE) s else s);
              let (pi, s) = mmio_read (abar_virt + hba_off Pi) s;
              s \<leftarrow> say [Str ''ahci: ports implemented: 0x'', Hex (ucast pi), Str ''\<newline>''] s;
              (d, s) \<leftarrow> init_ports pi [0..<MAX_PORTS] (d, s);
              s \<leftarrow> say [Str ''ahci: '', Dec (of_nat (count_ones (ah_active d))), Str '' disk(s) ready\<newline>''] s;
              Some (d, s) })"

definition ahci_init :: "u64 \<Rightarrow> pci \<Rightarrow> ahci \<Rightarrow> hw \<Rightarrow> qwords \<Rightarrow> (ahci \<times> hw \<times> qwords) option" where
  "ahci_init cr3 p d s m =
     do { (id_buf, s) \<leftarrow> on_heap (\<lambda>h. kmalloc_aligned h 4096 4096) s;
          if id_buf = 0
          then do { s \<leftarrow> say [Str ''ahci: failed to alloc IDENTIFY buffer\<newline>''] s; Some (d, s, m) }
          else do {
            let d = d\<lparr>ah_identify := of_nat id_buf\<rparr>;
            case find_by_class 0x01 0x06 0x01 p of
              None \<Rightarrow> do { s \<leftarrow> say [Str ''ahci: no AHCI controller found\<newline>''] s; Some (d, s, m) }
            | Some addr \<Rightarrow> do {
                s \<leftarrow> say [Str ''ahci: found controller at PCI '', Hex (ucast (pa_bus addr)), Str '':'',
                          Hex (ucast (pa_dev addr)), Str ''.'', Hex (ucast (pa_func addr)), Str ''\<newline>''] s;
                let s = enable_bus_master addr s;
                let (abar_phys, s) = bar_mem_base addr 5 s;
                if abar_phys = 0 then do { s \<leftarrow> say [Str ''ahci: BAR5 is zero\<newline>''] s; Some (d, s, m) }
                else do {
                  s \<leftarrow> say [Str ''ahci: ABAR phys=0x'', Hex abar_phys, Str ''\<newline>''] s;
                  let abar_phys_aligned = page_base abar_phys;
                  let num_pages = usz (unat (abar_phys - abar_phys_aligned) + 0x1100 + 0xFFF) div 0x1000;
                  let (h, m, mapped) = map_mmio cr3 abar_phys_aligned num_pages (hw_heap s) m;
                  let s = s\<lparr>hw_heap := h\<rparr>;
                  if mapped = 0 then do { s \<leftarrow> say [Str ''ahci: failed to map ABAR\<newline>''] s; Some (d, s, m) }
                  else do {
                    let abar_virt = mapped + (abar_phys - abar_phys_aligned);
                    s \<leftarrow> say [Str ''ahci: ABAR mapped at 0x'', Hex abar_virt, Str ''\<newline>''] s;
                    (d, s) \<leftarrow> ahci_start abar_virt d s;
                    Some (d, s, m) } } } } }"

section \<open>Reading sectors\<close>

definition byte_count :: "u16 \<Rightarrow> u32" where
  "byte_count count = (if count = 0 then 65536 * 512 else ucast count * 512)"

definition read_sectors :: "ahci \<Rightarrow> nat \<Rightarrow> u64 \<Rightarrow> u16 \<Rightarrow> u64 \<Rightarrow> hw \<Rightarrow> (bool \<times> hw) option" where
  "read_sectors d port lba count buf s =
     (if port \<ge> MAX_PORTS then Some (False, s)
      else if ah_active d AND push_bit port 1 = 0 then Some (False, s)
      else let (ready, s) = wait_port_ready d port s
           in if \<not> ready then do { s \<leftarrow> say [Str ''ahci: read: port not ready\<newline>''] s; Some (False, s) }
              else let buf_phys = virt_to_phys (hw_heap s) (unat buf)
                   in issue_command d port
                        (setup_command d port ATA_CMD_READ_DMA_EXT lba count buf_phys (byte_count count) False s))"

definition active_ports :: "ahci \<Rightarrow> u32" where
  "active_ports d = ah_active d"

section \<open>What the device reads from memory\<close>

text \<open>
  Serial ATA: LBA and sector count of a register FIS. AHCI: base address and byte count of a
  physical region descriptor, whose byte count field has 22 bits.
\<close>

definition fis_lba :: "u8 list \<Rightarrow> u64" where
  "fis_lba fis = from_le [fis ! 4, fis ! 5, fis ! 6, fis ! 8, fis ! 9, fis ! 10]"

definition fis_count :: "u8 list \<Rightarrow> u16" where
  "fis_count fis = from_le [fis ! 12, fis ! 13]"

definition prdt_base :: "u8 list \<Rightarrow> u64" where
  "prdt_base prd = from_le (take 8 prd)"

definition prdt_count :: "u8 list \<Rightarrow> u32" where
  "prdt_count prd = from_le (drop 12 prd)"

lemma low_byte: "(ucast (w AND 0xFF :: u64) :: u8) = ucast w" "(ucast (v AND 0xFF :: u16) :: u8) = ucast v"
proof -
  have m: "(0xFF :: u64) = mask 8" "(0xFF :: u16) = mask 8" by (simp_all add: mask_eq_exp_minus_1)
  show "(ucast (w AND 0xFF :: u64) :: u8) = ucast w" "(ucast (v AND 0xFF :: u16) :: u8) = ucast v"
    unfolding m by (intro bit_eqI; auto simp: bit_simps simp del: mask_numeral)+
qed

lemma fis_fields:
  "fis_lba (fis_bytes command lba count) = take_bit 48 lba"
  "fis_count (fis_bytes command lba count) = count"
proof -
  have "[fis_bytes command lba count ! 4, fis_bytes command lba count ! 5, fis_bytes command lba count ! 6,
      fis_bytes command lba count ! 8, fis_bytes command lba count ! 9, fis_bytes command lba count ! 10] = to_le 6 lba"
    by (simp add: fis_bytes_def low_byte numeral_eq_Suc drop_bit_drop_bit)
  then have "fis_lba (fis_bytes command lba count) = of_nat (unat lba mod 2 ^ 48)"
    by (simp add: fis_lba_def from_le_def le_value_to_le)
  also have "unat lba mod 2 ^ 48 = unat (take_bit 48 lba)" by (simp only: unsigned_take_bit_eq) (simp only: take_bit_eq_mod)
  finally show "fis_lba (fis_bytes command lba count) = take_bit 48 lba" by simp
  have "[fis_bytes command lba count ! 12, fis_bytes command lba count ! 13] = to_le 2 count"
    by (simp add: fis_bytes_def low_byte numeral_eq_Suc)
  then show "fis_count (fis_bytes command lba count) = count"
    using from_to_le [of 2 count] by (simp add: fis_count_def)
qed

lemma le_value_append: "le_value (xs @ ys) = le_value xs + 256 ^ length xs * le_value ys"
  by (induction xs) (simp_all add: algebra_simps)

lemma prdt_fields:
  "prdt_base (prdt_bytes buf n) = buf" "prdt_count (prdt_bytes buf n) = n - 1"
proof -
  have "take 8 (prdt_bytes buf n) = to_le 4 (ucast buf :: u32) @ to_le 4 (ucast (drop_bit 32 buf) :: u32)"
    by (simp add: prdt_bytes_def)
  moreover have "le_value \<dots> = unat buf mod 2 ^ 32 + 2 ^ 32 * (unat buf div 2 ^ 32)"
    using unat_64 [of buf] by (simp add: le_value_append le_value_to_le unat_trunc unat_drop less_mult_imp_div_less)
  ultimately have "le_value (take 8 (prdt_bytes buf n)) = unat buf" by simp
  then show "prdt_base (prdt_bytes buf n) = buf" by (simp add: prdt_base_def from_le_def)
  have "drop 12 (prdt_bytes buf n) = to_le 4 (n - 1)" by (simp add: prdt_bytes_def)
  then show "prdt_count (prdt_bytes buf n) = n - 1" using from_to_le [of 4 "n - 1"] by (simp add: prdt_count_def)
qed

lemma load_store_other:
  assumes "\<And>i. i < n \<Longrightarrow> length bs \<le> unat (p + of_nat i - q)"
  shows "load_ram p n (store_ram q bs m) = load_ram p n m"
  using assms by (fastforce simp: load_ram_def store_ram_def)

lemma get_put_other:
  assumes "\<And>i. i < k \<Longrightarrow> n \<le> unat (p + of_nat i - q)"
  shows "get_field k p (put_field n q w m) = get_field k p m"
  unfolding get_field_def put_field_def by (subst load_store_other) (use assms in simp_all)

lemma field_apart: "unat (p + of_nat i - (p + of_nat j) :: u64) = (if j \<le> i then i - j else i + 2 ^ 64 - j)"
  if "i < 64" "j < 64"
proof -
  have "p + of_nat i - (p + of_nat j) = (of_nat i - of_nat j :: u64)" by simp
  moreover have "unat (of_nat i :: u64) = i" "unat (of_nat j :: u64) = j" using that by (simp_all add: unat_of_usz)
  ultimately show ?thesis using unat_sub_if' [of "of_nat i :: u64" "of_nat j"] by simp
qed

text \<open>The FIS and the region descriptor, as the device finds them in the command table.\<close>

lemma setup_command_table:
  "load_ram (ah_ctba d port) 16 (hw_ram (setup_command d port command lba count buf_phys n w s)) =
     fis_bytes command lba count"
  "load_ram (ah_ctba d port + 128) 16 (hw_ram (setup_command d port command lba count buf_phys n w s)) =
     prdt_bytes buf_phys n"
proof -
  let ?t = "ah_ctba d port" and ?fis = "fis_bytes command lba count" and ?prd = "prdt_bytes buf_phys n"
  obtain m where m: "hw_ram (setup_command d port command lba count buf_phys n w s) =
      store_ram ?t ?fis (store_ram (?t + 128) ?prd m)"
    by (simp add: setup_command_def Let_def TABLE_PRDT_def)
  have len: "length ?fis = 16" "length ?prd = 16" by (simp_all add: fis_bytes_def prdt_bytes_def)
  show "load_ram ?t 16 (hw_ram (setup_command d port command lba count buf_phys n w s)) = ?fis"
    unfolding m using load_store_same [of ?fis ?t] len by simp
  have "load_ram (?t + 128) 16 (store_ram ?t ?fis (store_ram (?t + 128) ?prd m)) =
      load_ram (?t + 128) 16 (store_ram (?t + 128) ?prd m)"
  proof (rule load_store_other)
    fix i :: nat assume "i < 16"
    then have "unat (?t + 128 + of_nat i - ?t) = 128 + i"
      by (simp add: unat_word_ariths unat_of_usz)
    then show "length ?fis \<le> unat (?t + 128 + of_nat i - ?t)" using len by simp
  qed
  also have "\<dots> = ?prd" using load_store_same [of ?prd "?t + 128"] len by simp
  finally show "load_ram (?t + 128) 16 (hw_ram (setup_command d port command lba count buf_phys n w s)) = ?prd"
    unfolding m .
qed

lemma setup_command_header:
  assumes apart: "list_all (\<lambda>i. 144 \<le> unat (ah_clb d port + of_nat i - ah_ctba d port)) [0..<8]"
  shows "get_field 2 (ah_clb d port) (hw_ram (setup_command d port command lba count buf_phys n w s)) = (if w then 0x45 else 5 :: u16)"
    "get_field 2 (ah_clb d port + 2) (hw_ram (setup_command d port command lba count buf_phys n w s)) = (1 :: u16)"
proof -
  define m where "m = hw_ram (setup_command d port command lba count buf_phys n w s)"
  let ?c = "ah_clb d port" and ?t = "ah_ctba d port"
  let ?fis = "fis_bytes command lba count" and ?prd = "prdt_bytes buf_phys n"
  let ?m0 = "fill_ram ?t TABLE_SIZE 0 (hw_ram s)"
  let ?m1 = "put_field 2 ?c (5 :: u16) ?m0"
  let ?m2 = "if w then put_field 2 ?c ((get_field 2 ?c ?m1 :: u16) OR push_bit 6 1) ?m1 else ?m1"
  let ?m3 = "put_field 2 (?c + 2) (1 :: u16) ?m2"
  let ?m4 = "put_field 4 (?c + 4) (0 :: u32) ?m3"
  let ?m5 = "store_ram (?t + 128) ?prd ?m4"
  have m: "m = store_ram ?t ?fis ?m5"
    by (simp add: m_def setup_command_def Let_def HDR_FLAGS_def HDR_PRDTL_def HDR_PRDBC_def TABLE_PRDT_def)
  have len: "length ?fis = 16" "length ?prd = 16" by (simp_all add: fis_bytes_def prdt_bytes_def)
  have far: "144 \<le> unat (?c + of_nat i - ?t)" if "i < 8" for i
    using apart that by (simp add: list_all_iff)
  have clear: "load_ram (?c + of_nat j) 2 m = load_ram (?c + of_nat j) 2 ?m4" if "j + 2 \<le> 8" for j
  proof -
    have off: "144 \<le> unat (?c + of_nat j + of_nat i - ?t)" if "i < 2" for i
      using far [of "j + i"] that \<open>j + 2 \<le> 8\<close> by (simp add: add.assoc)
    have sub: "16 \<le> unat (?c + of_nat j + of_nat i - (?t + 128))" if "i < 2" for i
    proof -
      have e: "?c + of_nat j + of_nat i - (?t + 128) = (?c + of_nat j + of_nat i - ?t) - 128" by simp
      show ?thesis unfolding e using off [OF that] by (subst unat_sub) (simp_all add: word_le_nat_alt)
    qed
    have 1: "load_ram (?c + of_nat j) 2 m = load_ram (?c + of_nat j) 2 ?m5"
      unfolding m by (rule load_store_other) (use off len in fastforce)
    show ?thesis unfolding 1 by (rule load_store_other) (use sub len in simp)
  qed
  have f0: "get_field 2 ?c m = (get_field 2 ?c ?m4 :: u16)" and f2: "get_field 2 (?c + 2) m = (get_field 2 (?c + 2) ?m4 :: u16)"
    using clear [of 0] clear [of 2] by (simp_all add: get_field_def)
  have "get_field 2 ?c ?m4 = (get_field 2 ?c ?m3 :: u16)"
    by (rule get_put_other) (use field_apart [of _ 4 ?c] in simp)
  also have "\<dots> = get_field 2 ?c ?m2"
    by (rule get_put_other) (use field_apart [of _ 2 ?c] in simp)
  also have "\<dots> = (if w then 0x45 else 5)"
    by (simp add: get_put_field)
  finally show "get_field 2 ?c (hw_ram (setup_command d port command lba count buf_phys n w s)) = (if w then 0x45 else 5 :: u16)"
    unfolding f0 [unfolded m_def] .
  have "get_field 2 (?c + 2) ?m4 = (get_field 2 (?c + 2) ?m3 :: u16)"
  proof (rule get_put_other)
    fix i :: nat assume i: "i < 2"
    have "?c + 2 + of_nat i - (?c + 4) = ?c + of_nat (2 + i) - (?c + of_nat 4)" by simp
    then show "4 \<le> unat (?c + 2 + of_nat i - (?c + 4))" using field_apart [of "2 + i" 4 ?c] i by simp
  qed
  also have "\<dots> = 1" by (simp add: get_put_field)
  finally show "get_field 2 (?c + 2) (hw_ram (setup_command d port command lba count buf_phys n w s)) = (1 :: u16)"
    unfolding f2 [unfolded m_def] .
qed

text \<open>
  C25: the command a set-up writes is the one asked for. When the port's command list and command
  table do not overlap, the FIS in the table has the right type, command, count and 48-bit sector
  number, the region descriptor the buffer's address and its size less one, and the header one
  descriptor, five double words of FIS and the direction.
\<close>

theorem ahci_command_encodes:
  assumes apart: "list_all (\<lambda>i. 144 \<le> unat (ah_clb d port + of_nat i - ah_ctba d port)) [0..<8]"
  shows "let m = hw_ram (setup_command d port command lba count buf_phys n w s);
      fis = load_ram (ah_ctba d port) 16 m
    in fis ! 0 = 0x27 \<and> bit (fis ! 1) 7 \<and> fis ! 2 = command \<and> fis_lba fis = take_bit 48 lba \<and> fis_count fis = count \<and>
    prdt_base (load_ram (ah_ctba d port + 128) 16 m) = buf_phys \<and>
    prdt_count (load_ram (ah_ctba d port + 128) 16 m) = n - 1 \<and>
    get_field 2 (ah_clb d port) m = (if w then 0x45 else 5 :: u16) \<and>
    get_field 2 (ah_clb d port + 2) m = (1 :: u16)"
  unfolding Let_def setup_command_header [OF apart]
  by (simp add: setup_command_table fis_fields prdt_fields) (simp add: fis_bytes_def FIS_TYPE_REG_H2D_def bit_numeral_rec)

theorem ahci_command_encodes_witness:
  "fis_lba (load_ram 0x2000 16 (hw_ram (setup_command
      \<lparr>ah_abar = 0, ah_active = 1, ah_clb = (\<lambda>_. 0x1000), ah_fb = (\<lambda>_. 0), ah_ctba = (\<lambda>_. 0x2000), ah_identify = 0\<rparr>
      0 0x25 0x123456789A 8 0x5000 4096 False pci_hw))) = 0x123456789A"
proof -
  let ?d = "\<lparr>ah_abar = 0, ah_active = 1, ah_clb = (\<lambda>_. 0x1000), ah_fb = (\<lambda>_. 0), ah_ctba = (\<lambda>_. 0x2000), ah_identify = 0\<rparr> :: ahci"
  have "list_all (\<lambda>i. 144 \<le> unat (ah_clb ?d 0 + of_nat i - ah_ctba ?d 0)) [0..<8]"
    by (simp add: upt_rec)
  moreover have "take_bit 48 (0x123456789A :: u64) = 0x123456789A" by (simp add: take_bit_eq_mod)
  ultimately show ?thesis
    using ahci_command_encodes [of ?d 0 "0x25" "0x123456789A" 8 "0x5000" 4096 False pci_hw] by (simp add: Let_def)
qed

text \<open>
  The byte count of a descriptor has 22 bits, and the driver always uses a single descriptor: above
  8192 sectors the size it writes does not fit the field.
\<close>

lemma large_read_exceeds_descriptor:
  "unat (byte_count count - 1) < 2 ^ 22 \<longleftrightarrow> count \<noteq> 0 \<and> count \<le> 8192"
proof (cases "count = 0")
  case False
  have c: "0 < unat count" "unat count < 2 ^ 16"
    using False unsigned_less [where 'a = nat, of count] by (simp_all add: unat_gt_0)
  have "unat (ucast count :: u32) = unat count" using c by (simp add: unat_trunc)
  then have "unat (ucast count * 512 :: u32) = unat count * 512" using c by (simp add: unat_word_ariths)
  then have "unat (ucast count * 512 - 1 :: u32) = unat count * 512 - 1"
    using c by (subst unat_sub) (simp_all add: word_le_nat_alt)
  then show ?thesis using False c by (auto simp: byte_count_def word_le_nat_alt)
qed (simp add: byte_count_def)

section \<open>Reads end, and only report success after the device has\<close>

text \<open>\<open>drove s tr s'\<close>: the driver did \<open>tr\<close> to the device registers, newest first; the heap is the same.\<close>

definition drove :: "hw \<Rightarrow> dev_op list \<Rightarrow> hw \<Rightarrow> bool" where
  "drove s tr s' \<longleftrightarrow> hw_trace s' = tr @ hw_trace s \<and> hw_heap s' = hw_heap s \<and> (live s \<longrightarrow> live s')"

lemma drove_refl [simp]: "drove s [] s"
  by (simp add: drove_def)

lemma drove_trans: "drove s tr s' \<Longrightarrow> drove s' tr' s'' \<Longrightarrow> drove s (tr' @ tr) s''"
  by (auto simp: drove_def)

lemma drove_ops:
  "drove s [Load (port_ptr d port + port_off f) (fst (port_read d port f s))] (snd (port_read d port f s))"
  "drove s [Store (port_ptr d port + port_off f) v] (port_write d port f v s)"
  "drove s [] (s\<lparr>hw_ram := m\<rparr>)"
  by (simp_all add: drove_def port_read_def port_write_def mmio_read_def mmio_write_def Let_def live_def)

lemma drove_say: "live s \<Longrightarrow> \<exists>s'. say cs s = Some s' \<and> drove s [] s'"
  by (erule say_prints [of s cs]) (auto simp: drove_def printed_def)

definition done_trace :: "ahci \<Rightarrow> nat \<Rightarrow> dev_op list \<Rightarrow> bool" where
  "done_trace d port tr \<longleftrightarrow> (\<exists>tfd ci tr'. tr = Load (port_ptr d port + port_off Tfd) tfd #
     Load (port_ptr d port + port_off Ci) ci # tr' \<and> \<not> bit ci 0 \<and> \<not> bit tfd 0)"

lemma issue_loop_returns:
  "live s \<Longrightarrow> \<exists>r s' tr. issue_loop n d port s = Some (r, s') \<and> drove s tr s' \<and> (r \<longrightarrow> done_trace d port tr)"
proof (induction n arbitrary: s)
  case 0
  then obtain s' where "say [Str ''ahci: command timeout\<newline>''] s = Some s'" "drove s [] s'" using drove_say by blast
  then show ?case by auto
next
  case (Suc n)
  obtain ci s1 where 1: "port_read d port Ci s = (ci, s1)" by fastforce
  have r1: "drove s [Load (port_ptr d port + port_off Ci) ci] s1" using drove_ops(1) [of s d port Ci] by (simp add: 1)
  have l1: "live s1" using r1 Suc.prems by (simp add: drove_def)
  have b0: "v AND 1 = 0 \<longleftrightarrow> \<not> bit v 0" for v :: u32 by (simp add: and_one_eq odd_iff_mod_2_eq_one bit_0 even_iff_mod_2_eq_zero)
  show ?case
  proof (cases "ci AND 1 = 0")
    case True
    obtain tfd s2 where 2: "port_read d port Tfd s1 = (tfd, s2)" by fastforce
    have r2: "drove s [Load (port_ptr d port + port_off Tfd) tfd, Load (port_ptr d port + port_off Ci) ci] s2"
      using drove_trans [OF r1 drove_ops(1) [of s1 d port Tfd]] by (simp add: 2)
    have l2: "live s2" using r2 Suc.prems by (simp add: drove_def)
    show ?thesis
    proof (cases "tfd AND PORT_TFD_ERR = 0")
      case ok: True
      then have "done_trace d port [Load (port_ptr d port + port_off Tfd) tfd, Load (port_ptr d port + port_off Ci) ci]"
        using True by (simp add: done_trace_def PORT_TFD_ERR_def b0)
      then show ?thesis using True ok 1 2 r2 by auto
    next
      case False
      obtain s3 where "say [Str ''ahci: command error, TFD=0x'', Hex (ucast tfd), Str ''\<newline>''] s2 = Some s3" "drove s2 [] s3"
        using drove_say [OF l2] by blast
      then show ?thesis using True False 1 2 drove_trans [OF r2] by auto
    qed
  next
    case False
    obtain isr s2 where 2: "port_read d port Isr s1 = (isr, s2)" by fastforce
    have r2: "drove s [Load (port_ptr d port + port_off Isr) isr, Load (port_ptr d port + port_off Ci) ci] s2"
      using drove_trans [OF r1 drove_ops(1) [of s1 d port Isr]] by (simp add: 2)
    have l2: "live s2" using r2 Suc.prems by (simp add: drove_def)
    show ?thesis
    proof (cases "isr AND push_bit 30 1 = 0")
      case err: False
      obtain s3 where "say [Str ''ahci: task file error\<newline>''] s2 = Some s3" "drove s2 [] s3"
        using drove_say [OF l2] by blast
      then show ?thesis using False err 1 2 drove_trans [OF r2] by auto
    next
      case True
      obtain r s' tr where "issue_loop n d port s2 = Some (r, s')" "drove s2 tr s'" "r \<longrightarrow> done_trace d port tr"
        using Suc.IH [OF l2] by blast
      moreover have "done_trace d port tr \<Longrightarrow> done_trace d port (tr @ tr1)" for tr1
        by (auto simp: done_trace_def)
      ultimately show ?thesis using False True 1 2 drove_trans [OF r2] by fastforce
    qed
  qed
qed

lemma poll_port_runs: "\<exists>tr. drove s tr (snd (poll_port n d port f ok s))"
proof (induction n arbitrary: s)
  case 0
  then show ?case by (auto intro: exI [of _ "[]"])
next
  case (Suc n)
  obtain v s1 where 1: "port_read d port f s = (v, s1)" by fastforce
  have r1: "drove s [Load (port_ptr d port + port_off f) v] s1" using drove_ops(1) [of s d port f] by (simp add: 1)
  obtain tr where "drove s1 tr (snd (poll_port n d port f ok s1))" using Suc.IH by blast
  from drove_trans [OF r1 this] r1 show ?case by (auto simp: 1)
qed

lemma issue_command_returns:
  assumes "live s"
  shows "\<exists>r s' tr. issue_command d port s = Some (r, s') \<and>
    drove s (tr @ [Store (port_ptr d port + port_off Ci) 1, Store (port_ptr d port + port_off Isr) 0xFFFFFFFF]) s' \<and>
    (r \<longrightarrow> done_trace d port tr)"
proof -
  let ?s = "port_write d port Ci 1 (port_write d port Isr 0xFFFFFFFF s)"
  have r1: "drove s [Store (port_ptr d port + port_off Ci) 1, Store (port_ptr d port + port_off Isr) 0xFFFFFFFF] ?s"
    using drove_trans [OF drove_ops(2) [of s d port Isr "0xFFFFFFFF"] drove_ops(2) [of _ d port Ci 1]] by simp
  then have "live ?s" using assms by (simp add: drove_def)
  from issue_loop_returns [OF this] show ?thesis
    unfolding issue_command_def using drove_trans [OF r1] by blast
qed

lemma read_sectors_runs:
  assumes "live s"
  shows "\<exists>r s'. read_sectors d port lba count buf s = Some (r, s') \<and> live s' \<and> hw_heap s' = hw_heap s \<and>
    (port \<ge> MAX_PORTS \<or> \<not> bit (ah_active d) port \<longrightarrow> \<not> r \<and> s' = s) \<and>
    (r \<longrightarrow> (\<exists>s1 tr. wait_port_ready d port s = (True, s1) \<and>
       issue_command d port (setup_command d port ATA_CMD_READ_DMA_EXT lba count
         (virt_to_phys (hw_heap s) (unat buf)) (byte_count count) False s1) = Some (True, s') \<and>
       hw_trace s' = tr @ [Store (port_ptr d port + port_off Ci) 1, Store (port_ptr d port + port_off Isr) 0xFFFFFFFF] @
         hw_trace s1 \<and>
       done_trace d port tr))"
proof -
  have act: "ah_active d AND 2 ^ port = 0 \<longleftrightarrow> \<not> bit (ah_active d) port"
    by (rule and_exp_eq_0_iff_not_bit)
  obtain ready s1 where w: "wait_port_ready d port s = (ready, s1)" by fastforce
  obtain tr0 where r0: "drove s tr0 s1"
    using poll_port_runs [of s PORT_POLLS d port Tfd] w unfolding wait_port_ready_def by (metis snd_conv)
  have l1: "live s1" and h1: "hw_heap s1 = hw_heap s" using r0 assms by (simp_all add: drove_def)
  consider "port \<ge> MAX_PORTS \<or> \<not> bit (ah_active d) port" | "port < MAX_PORTS" "bit (ah_active d) port" "\<not> ready"
    | "port < MAX_PORTS" "bit (ah_active d) port" "ready" by linarith
  then show ?thesis
  proof cases
    case 1
    then have "read_sectors d port lba count buf s = Some (False, s)" by (auto simp: read_sectors_def act)
    then show ?thesis using assms by (intro exI [of _ False] exI [of _ s]) simp
  next
    case 2
    obtain s2 where "say [Str ''ahci: read: port not ready\<newline>''] s1 = Some s2" "drove s1 [] s2"
      using drove_say [OF l1] by blast
    then have "read_sectors d port lba count buf s = Some (False, s2)" "live s2" "hw_heap s2 = hw_heap s"
      using 2 w l1 h1 by (simp_all add: read_sectors_def act drove_def)
    then show ?thesis using 2 by (intro exI [of _ False] exI [of _ s2]) simp
  next
    case 3
    let ?c = "setup_command d port ATA_CMD_READ_DMA_EXT lba count (virt_to_phys (hw_heap s1) (unat buf)) (byte_count count) False s1"
    have c: "drove s1 [] ?c" unfolding setup_command_def Let_def by (rule drove_ops(3))
    then have "live ?c" using l1 by (simp add: drove_def)
    from issue_command_returns [OF this] obtain r s2 tr where i: "issue_command d port ?c = Some (r, s2)"
      "drove ?c (tr @ [Store (port_ptr d port + port_off Ci) 1, Store (port_ptr d port + port_off Isr) 0xFFFFFFFF]) s2"
      "r \<longrightarrow> done_trace d port tr" by blast
    note all = drove_trans [OF c i(2)]
    have "read_sectors d port lba count buf s = Some (r, s2)"
      using 3 w i(1) by (simp add: read_sectors_def act)
    moreover have "live s2" "hw_heap s2 = hw_heap s" using all l1 h1 by (simp_all add: drove_def)
    moreover have "hw_trace s2 = tr @ [Store (port_ptr d port + port_off Ci) 1, Store (port_ptr d port + port_off Isr) 0xFFFFFFFF] @ hw_trace s1"
      using all by (simp add: drove_def)
    ultimately show ?thesis using 3 w i(1,3) h1 by auto
  qed
qed

text \<open>
  C26: reading sectors. \<open>read_sectors\<close> always returns. For a port that does not exist or has no disk it
  fails without touching a register. It reports success only after it has handed the command for
  exactly these sectors to the device, and the device has taken the command off its issue register
  and reported no error; the heap is never changed.
\<close>

theorem read_sectors_reports_completion:
  assumes "live s"
  shows "\<exists>r s'. read_sectors d port lba count buf s = Some (r, s') \<and> live s' \<and> hw_heap s' = hw_heap s \<and>
    (port \<ge> MAX_PORTS \<or> \<not> bit (ah_active d) port \<longrightarrow> \<not> r \<and> s' = s) \<and>
    (r \<longrightarrow> (\<exists>s1 tr. wait_port_ready d port s = (True, s1) \<and>
       issue_command d port (setup_command d port ATA_CMD_READ_DMA_EXT lba count
         (virt_to_phys (hw_heap s) (unat buf)) (byte_count count) False s1) = Some (True, s') \<and>
       hw_trace s' = tr @ [Store (port_ptr d port + port_off Ci) 1, Store (port_ptr d port + port_off Isr) 0xFFFFFFFF] @
         hw_trace s1 \<and>
       done_trace d port tr))"
  by (rule read_sectors_runs [OF assms])

theorem read_sectors_reports_completion_witness:
  "\<exists>s'. read_sectors ahci_boot 3 0 1 0x5000 pci_hw = Some (False, s') \<and> s' = pci_hw"
proof -
  have "live pci_hw" by (simp add: live_def pci_hw_def tx_live_def)
  moreover have "\<not> bit (ah_active ahci_boot) 3" by (simp add: ahci_boot_def)
  ultimately obtain r s' where "read_sectors ahci_boot 3 0 1 0x5000 pci_hw = Some (r, s')" "\<not> r" "s' = pci_hw"
    using read_sectors_reports_completion [of pci_hw ahci_boot 3 0 1 "0x5000"] by metis
  then show ?thesis by simp
qed

end
