(* ===== verification/Ext3.thy ===== *)
theory Ext3
  imports Ahci
begin

text \<open>
  The ext3 reader of \<open>src/kern/fs/ext3\<close>: byte and block reads over the AHCI driver (\<open>block.rs\<close>), the
  superblock (\<open>superblock.rs\<close>), inodes and the block tree (\<open>inode.rs\<close>), directories and paths
  (\<open>dir.rs\<close>), and the mounted file system (\<open>mod.rs\<close>).

  A shared reference (\<open>&Superblock\<close>, \<open>&Inode\<close>) is the value it refers to, read from memory where the
  reference is made. A pointer result is an address, 0 for null; \<open>None\<close> is a call that does not return,
  here a division by zero.
\<close>

section \<open>Blocks\<close>

text \<open>\<open>block::read_bytes\<close>: the bytes it copies to its destination, \<open>None\<close> inside when it returns false.\<close>

definition read_bytes :: "ahci \<Rightarrow> nat \<Rightarrow> u64 \<Rightarrow> usize \<Rightarrow> hw \<Rightarrow> (u8 list option \<times> hw) option" where
  "read_bytes d port byte_off count s =
     (if count = 0 then Some (Some [], s)
      else let sector_start = byte_off div 512; offset_in_sector = unat (byte_off mod 512);
               total_bytes = usz (offset_in_sector + count);
               sector_count = usz (total_bytes + 511) div 512;
               buf_size = usz (sector_count * 512)
           in do { (buf, s) \<leftarrow> on_heap (\<lambda>h. kmalloc_aligned h buf_size 4096) s;
                   if buf = 0 then Some (None, s)
                   else do {
                     (ok, s) \<leftarrow> read_sectors d port sector_start (of_nat sector_count) (of_nat buf) s;
                     let r = (if ok then Some (load_ram (of_nat (buf + offset_in_sector)) count (hw_ram s)) else None);
                     s \<leftarrow> hw_kfree (of_nat buf) buf_size s;
                     Some (r, s) } })"

text \<open>The same with a destination in memory.\<close>

definition read_bytes_to :: "ahci \<Rightarrow> nat \<Rightarrow> u64 \<Rightarrow> u64 \<Rightarrow> usize \<Rightarrow> hw \<Rightarrow> (bool \<times> hw) option" where
  "read_bytes_to d port byte_off dst count s =
     do { (r, s) \<leftarrow> read_bytes d port byte_off count s;
          case r of None \<Rightarrow> Some (False, s)
          | Some bs \<Rightarrow> Some (True, s\<lparr>hw_ram := store_ram dst bs (hw_ram s)\<rparr>) }"

definition read_block :: "ahci \<Rightarrow> nat \<Rightarrow> u64 \<Rightarrow> u32 \<Rightarrow> u64 \<Rightarrow> hw \<Rightarrow> (bool \<times> hw) option" where
  "read_block d port block_num block_size dst s =
     read_bytes_to d port (block_num * ucast block_size) dst (unat block_size) s"

section \<open>The superblock\<close>

definition EXT_MAGIC :: u16 where "EXT_MAGIC = 0xEF53"

text \<open>\<open>Superblock\<close>, at its \<open>repr(C)\<close> offsets; the padding at its end is not read.\<close>

record superblock =
  s_inodes_count :: u32
  s_blocks_count :: u32
  s_r_blocks_count :: u32
  s_free_blocks_count :: u32
  s_free_inodes_count :: u32
  s_first_data_block :: u32
  s_log_block_size :: u32
  s_log_frag_size :: u32
  s_blocks_per_group :: u32
  s_frags_per_group :: u32
  s_inodes_per_group :: u32
  s_mtime :: u32
  s_wtime :: u32
  s_mnt_count :: u16
  s_max_mnt_count :: u16
  s_magic :: u16
  s_state :: u16
  s_errors :: u16
  s_minor_rev_level :: u16
  s_lastcheck :: u32
  s_checkinterval :: u32
  s_creator_os :: u32
  s_rev_level :: u32
  s_def_resuid :: u16
  s_def_resgid :: u16
  s_first_ino :: u32
  s_inode_size :: u16
  s_block_group_nr :: u16
  s_feature_compat :: u32
  s_feature_incompat :: u32
  s_feature_ro_compat :: u32
  s_uuid :: "u8 list"
  s_volume_name :: "u8 list"

definition superblock_at :: "u64 \<Rightarrow> ram \<Rightarrow> superblock" where
  "superblock_at p m =
     \<lparr>s_inodes_count = get_field 4 p m, s_blocks_count = get_field 4 (p + 4) m,
      s_r_blocks_count = get_field 4 (p + 8) m, s_free_blocks_count = get_field 4 (p + 12) m,
      s_free_inodes_count = get_field 4 (p + 16) m, s_first_data_block = get_field 4 (p + 20) m,
      s_log_block_size = get_field 4 (p + 24) m, s_log_frag_size = get_field 4 (p + 28) m,
      s_blocks_per_group = get_field 4 (p + 32) m, s_frags_per_group = get_field 4 (p + 36) m,
      s_inodes_per_group = get_field 4 (p + 40) m, s_mtime = get_field 4 (p + 44) m,
      s_wtime = get_field 4 (p + 48) m, s_mnt_count = get_field 2 (p + 52) m,
      s_max_mnt_count = get_field 2 (p + 54) m, s_magic = get_field 2 (p + 56) m,
      s_state = get_field 2 (p + 58) m, s_errors = get_field 2 (p + 60) m,
      s_minor_rev_level = get_field 2 (p + 62) m, s_lastcheck = get_field 4 (p + 64) m,
      s_checkinterval = get_field 4 (p + 68) m, s_creator_os = get_field 4 (p + 72) m,
      s_rev_level = get_field 4 (p + 76) m, s_def_resuid = get_field 2 (p + 80) m,
      s_def_resgid = get_field 2 (p + 82) m, s_first_ino = get_field 4 (p + 84) m,
      s_inode_size = get_field 2 (p + 88) m, s_block_group_nr = get_field 2 (p + 90) m,
      s_feature_compat = get_field 4 (p + 92) m, s_feature_incompat = get_field 4 (p + 96) m,
      s_feature_ro_compat = get_field 4 (p + 100) m, s_uuid = load_ram (p + 104) 16 m,
      s_volume_name = load_ram (p + 120) 16 m\<rparr>"

text \<open>The shift amount is taken modulo 32.\<close>

definition block_size :: "superblock \<Rightarrow> u32" where
  "block_size sb = push_bit (unat (s_log_block_size sb) mod 32) 1024"

definition block_group_count :: "superblock \<Rightarrow> u32 option" where
  "block_group_count sb =
     (if s_blocks_per_group sb = 0 then None
      else Some ((s_blocks_count sb + s_blocks_per_group sb - 1) div s_blocks_per_group sb))"

definition inode_size :: "superblock \<Rightarrow> u32" where
  "inode_size sb = (if s_rev_level sb \<ge> 1 \<and> s_inode_size sb > 0 then ucast (s_inode_size sb) else 128)"

definition read_superblock :: "ahci \<Rightarrow> nat \<Rightarrow> hw \<Rightarrow> (u64 \<times> hw) option" where
  "read_superblock d port s =
     do { (buf, s) \<leftarrow> on_heap (\<lambda>h. kmalloc_aligned h 4096 4096) s;
          if buf = 0
          then do { s \<leftarrow> say [Str ''ext3: cannot alloc superblock buf\<newline>''] s; Some (0, s) }
          else do {
            (ok, s) \<leftarrow> read_bytes_to d port 1024 (of_nat buf) 1024 s;
            if \<not> ok
            then do { s \<leftarrow> say [Str ''ext3: failed to read superblock\<newline>''] s;
                      s \<leftarrow> hw_kfree (of_nat buf) 4096 s; Some (0, s) }
            else let magic = s_magic (superblock_at (of_nat buf) (hw_ram s))
                 in if magic \<noteq> EXT_MAGIC
                    then do { s \<leftarrow> say [Str ''ext3: bad magic 0x'', Hex (ucast magic), Str ''\<newline>''] s;
                              s \<leftarrow> hw_kfree (of_nat buf) 4096 s; Some (0, s) }
                    else Some (of_nat buf, s) } }"

section \<open>Inodes\<close>

definition ROOT_INO :: u32 where "ROOT_INO = 2"
definition S_IFMT :: u16 where "S_IFMT = 0xF000"
definition S_IFREG :: u16 where "S_IFREG = 0x8000"
definition S_IFDIR :: u16 where "S_IFDIR = 0x4000"

text \<open>\<open>size_of::<Inode>()\<close> is 128.\<close>

definition INODE_BYTES :: usize where "INODE_BYTES = 128"

record inode =
  i_mode :: u16
  i_uid :: u16
  i_size :: u32
  i_atime :: u32
  i_ctime :: u32
  i_mtime :: u32
  i_dtime :: u32
  i_gid :: u16
  i_links_count :: u16
  i_blocks :: u32
  i_flags :: u32
  i_osd1 :: u32
  i_block :: "u32 list"
  i_generation :: u32
  i_file_acl :: u32
  i_size_high :: u32
  i_faddr :: u32
  i_osd2 :: "u8 list"

definition inode_at :: "u64 \<Rightarrow> ram \<Rightarrow> inode" where
  "inode_at p m =
     \<lparr>i_mode = get_field 2 p m, i_uid = get_field 2 (p + 2) m, i_size = get_field 4 (p + 4) m,
      i_atime = get_field 4 (p + 8) m, i_ctime = get_field 4 (p + 12) m, i_mtime = get_field 4 (p + 16) m,
      i_dtime = get_field 4 (p + 20) m, i_gid = get_field 2 (p + 24) m,
      i_links_count = get_field 2 (p + 26) m, i_blocks = get_field 4 (p + 28) m,
      i_flags = get_field 4 (p + 32) m, i_osd1 = get_field 4 (p + 36) m, i_block = map (\<lambda>i. get_field 4 (p + 40 + of_nat (4 * i)) m) [0..<15],
      i_generation = get_field 4 (p + 100) m, i_file_acl = get_field 4 (p + 104) m,
      i_size_high = get_field 4 (p + 108) m, i_faddr = get_field 4 (p + 112) m,
      i_osd2 = load_ram (p + 116) 12 m\<rparr>"

definition is_dir :: "inode \<Rightarrow> bool" where
  "is_dir ino \<longleftrightarrow> i_mode ino AND S_IFMT = S_IFDIR"

definition is_file :: "inode \<Rightarrow> bool" where
  "is_file ino \<longleftrightarrow> i_mode ino AND S_IFMT = S_IFREG"

definition inode_bytes :: "inode \<Rightarrow> u64" where
  "inode_bytes ino =
     (let lo = ucast (i_size ino)
      in if i_mode ino AND S_IFMT = S_IFREG then lo OR push_bit 32 (ucast (i_size_high ino)) else lo)"

definition inode_alloc_size :: "u32 \<Rightarrow> usize" where
  "inode_alloc_size sz = (if unat sz > INODE_BYTES then unat sz else INODE_BYTES)"

text \<open>\<open>BlockGroupDesc\<close>, from the 32 bytes read over it.\<close>

record block_group_desc =
  bg_block_bitmap :: u32
  bg_inode_bitmap :: u32
  bg_inode_table :: u32
  bg_free_blocks_count :: u16
  bg_free_inodes_count :: u16
  bg_used_dirs_count :: u16

definition block_group_desc_of :: "u8 list \<Rightarrow> block_group_desc" where
  "block_group_desc_of bs =
     \<lparr>bg_block_bitmap = from_le (take 4 bs), bg_inode_bitmap = from_le (take 4 (drop 4 bs)),
      bg_inode_table = from_le (take 4 (drop 8 bs)), bg_free_blocks_count = from_le (take 2 (drop 12 bs)),
      bg_free_inodes_count = from_le (take 2 (drop 14 bs)), bg_used_dirs_count = from_le (take 2 (drop 16 bs))\<rparr>"

definition read_inode :: "ahci \<Rightarrow> nat \<Rightarrow> superblock \<Rightarrow> u32 \<Rightarrow> hw \<Rightarrow> (u64 \<times> hw) option" where
  "read_inode d port sb ino s =
     (if ino = 0 then Some (0, s)
      else if s_inodes_per_group sb = 0 then None
      else let bsz = block_size sb;
               group = (ino - 1) div s_inodes_per_group sb; index = (ino - 1) mod s_inodes_per_group sb;
               isz = inode_size sb;
               bgdt_block = (if bsz = 1024 then 2 else 1);
               bgd_offset = bgdt_block * ucast bsz + ucast group * 32
           in do {
             (bgd, s) \<leftarrow> read_bytes d port bgd_offset 32 s;
             case bgd of
               None \<Rightarrow> do { s \<leftarrow> say [Str ''ext3: failed to read BGD\<newline>''] s; Some (0, s) }
             | Some bgd \<Rightarrow>
                 let inode_table_byte = ucast (bg_inode_table (block_group_desc_of bgd)) * ucast bsz;
                     inode_byte_off = inode_table_byte + ucast index * ucast isz;
                     alloc = inode_alloc_size isz
                 in do {
                   (buf, s) \<leftarrow> on_heap (\<lambda>h. kmalloc h alloc) s;
                   if buf = 0 then Some (0, s)
                   else do {
                     let s = s\<lparr>hw_ram := fill_ram (of_nat buf) alloc 0 (hw_ram s)\<rparr>;
                     (ok, s) \<leftarrow> read_bytes_to d port inode_byte_off (of_nat buf) (unat isz) s;
                     if \<not> ok
                     then do { s \<leftarrow> say [Str ''ext3: failed to read inode '', Dec (ucast ino), Str ''\<newline>''] s;
                               s \<leftarrow> hw_kfree (of_nat buf) alloc s; Some (0, s) }
                     else Some (of_nat buf, s) } } })"

definition read_block_ptr :: "ahci \<Rightarrow> nat \<Rightarrow> u32 \<Rightarrow> u32 \<Rightarrow> u32 \<Rightarrow> hw \<Rightarrow> (u32 \<times> hw) option" where
  "read_block_ptr d port bsz block_num index s =
     do { (r, s) \<leftarrow> read_bytes d port (ucast block_num * ucast bsz + ucast index * 4) 4 s;
          case r of None \<Rightarrow> Some (0, s) | Some bs \<Rightarrow> Some (from_le bs, s) }"

definition resolve_block :: "ahci \<Rightarrow> nat \<Rightarrow> superblock \<Rightarrow> inode \<Rightarrow> u32 \<Rightarrow> hw \<Rightarrow> (u32 \<times> hw) option" where
  "resolve_block d port sb ino logical s =
     (let bsz = block_size sb; ptrs_per_block = bsz div 4
      in if logical < 12 then Some (i_block ino ! unat logical, s)
         else
      let logical = logical - 12
      in if logical < ptrs_per_block
         then let indirect_block = i_block ino ! 12
              in if indirect_block = 0 then Some (0, s)
                 else read_block_ptr d port bsz indirect_block logical s
         else
      let logical = logical - ptrs_per_block; double_range = ptrs_per_block * ptrs_per_block
      in if logical < double_range
         then let dbl_block = i_block ino ! 13
              in if dbl_block = 0 then Some (0, s)
                 else let idx1 = logical div ptrs_per_block; idx2 = logical mod ptrs_per_block
                      in do { (ind_block, s) \<leftarrow> read_block_ptr d port bsz dbl_block idx1 s;
                              if ind_block = 0 then Some (0, s)
                              else read_block_ptr d port bsz ind_block idx2 s }
         else
      let logical = logical - double_range;
          triple_range = ptrs_per_block * ptrs_per_block * ptrs_per_block
      in if logical < triple_range
         then let tri_block = i_block ino ! 14
              in if tri_block = 0 then Some (0, s)
                 else let idx1 = logical div (ptrs_per_block * ptrs_per_block);
                          rem = logical mod (ptrs_per_block * ptrs_per_block);
                          idx2 = rem div ptrs_per_block; idx3 = rem mod ptrs_per_block
                      in do { (dbl, s) \<leftarrow> read_block_ptr d port bsz tri_block idx1 s;
                              if dbl = 0 then Some (0, s)
                              else do { (ind, s) \<leftarrow> read_block_ptr d port bsz dbl idx2 s;
                                        if ind = 0 then Some (0, s)
                                        else read_block_ptr d port bsz ind idx3 s } }
         else Some (0, s))"

text \<open>
  The loop of \<open>read_inode_data\<close> over the logical blocks; the result says whether every block was read.
\<close>

fun data_loop ::
  "nat \<Rightarrow> nat \<Rightarrow> usize \<Rightarrow> usize \<Rightarrow> ahci \<Rightarrow> nat \<Rightarrow> superblock \<Rightarrow> inode \<Rightarrow> usize \<Rightarrow> hw \<Rightarrow> (bool \<times> hw) option" where
  "data_loop 0 logical bytes_left buf_off d port sb ino buf s = Some (True, s)"
| "data_loop (Suc n) logical bytes_left buf_off d port sb ino buf s =
     (let bsz = block_size sb; chunk = min bytes_left (unat bsz); dst = of_nat (buf + buf_off)
      in do { (phys_block, s) \<leftarrow> resolve_block d port sb ino (of_nat logical) s;
              if phys_block = 0
              then data_loop n (logical + 1) (bytes_left - chunk) (usz (buf_off + chunk)) d port sb ino buf
                     (s\<lparr>hw_ram := fill_ram dst chunk 0 (hw_ram s)\<rparr>)
              else do { (ok, s) \<leftarrow> read_block d port (ucast phys_block) bsz dst s;
                        if \<not> ok then Some (False, s)
                        else data_loop n (logical + 1) (bytes_left - chunk) (usz (buf_off + chunk)) d port sb ino buf s } })"

definition read_inode_data ::
  "ahci \<Rightarrow> nat \<Rightarrow> superblock \<Rightarrow> inode \<Rightarrow> hw \<Rightarrow> ((u64 \<times> usize) \<times> hw) option" where
  "read_inode_data d port sb ino s =
     (let sz = unat (inode_bytes ino)
      in if sz = 0 then Some ((0, 0), s)
         else do {
           (buf, s) \<leftarrow> on_heap (\<lambda>h. kmalloc h sz) s;
           if buf = 0 then Some ((0, 0), s)
           else if block_size sb = 0 then None
           else let bsz = unat (block_size sb);
                    blocks_needed = usz (sz + bsz - 1) div bsz
                in do {
                  (ok, s) \<leftarrow> data_loop blocks_needed 0 sz 0 d port sb ino buf s;
                  if \<not> ok then do { s \<leftarrow> hw_kfree (of_nat buf) sz s; Some ((0, 0), s) }
                  else Some ((of_nat buf, sz), s) } })"

section \<open>Directories\<close>

definition FT_REG_FILE :: u8 where "FT_REG_FILE = 1"
definition FT_DIR :: u8 where "FT_DIR = 2"
definition FT_SYMLINK :: u8 where "FT_SYMLINK = 7"

record dir_ent =
  de_inode :: u32
  de_rec_len :: u16
  de_name_len :: u8
  de_file_type :: u8

definition dir_ent_at :: "u64 \<Rightarrow> ram \<Rightarrow> dir_ent" where
  "dir_ent_at p m =
     \<lparr>de_inode = get_field 4 p m, de_rec_len = get_field 2 (p + 4) m,
      de_name_len = get_field 1 (p + 6) m, de_file_type = get_field 1 (p + 7) m\<rparr>"

definition ent_name :: "u64 \<Rightarrow> ram \<Rightarrow> u8 list" where
  "ent_name p m = load_ram (p + 8) (unat (de_name_len (dir_ent_at p m))) m"

partial_function (option) find_in_dir_data :: "u64 \<Rightarrow> usize \<Rightarrow> u8 list \<Rightarrow> usize \<Rightarrow> ram \<Rightarrow> u32 option" where
  "find_in_dir_data data sz name off m =
     (if usz (off + 8) \<le> sz
      then let p = data + of_nat off; entry = dir_ent_at p m
           in if de_rec_len entry = 0 then Some 0
              else if de_inode entry \<noteq> 0 \<and> unat (de_name_len entry) = length name \<and> ent_name p m = name
                   then Some (de_inode entry)
              else find_in_dir_data data sz name (usz (off + unat (de_rec_len entry))) m
      else Some 0)"

definition dir_lookup :: "ahci \<Rightarrow> nat \<Rightarrow> superblock \<Rightarrow> inode \<Rightarrow> u8 list \<Rightarrow> hw \<Rightarrow> (u32 \<times> hw) option" where
  "dir_lookup d port sb dir_inode name s =
     (if i_mode dir_inode AND S_IFMT \<noteq> S_IFDIR then Some (0, s)
      else do { ((data, sz), s) \<leftarrow> read_inode_data d port sb dir_inode s;
                if data = 0 \<or> sz = 0 then Some (0, s)
                else do { result \<leftarrow> find_in_dir_data data sz name 0 (hw_ram s);
                          s \<leftarrow> hw_kfree data sz s;
                          Some (result, s) } })"

text \<open>\<open>path.split('/')\<close>\<close>

fun split_path :: "u8 list \<Rightarrow> u8 list list" where
  "split_path [] = [[]]"
| "split_path (b # bs) =
     (if b = 0x2F then [] # split_path bs
      else case split_path bs of [] \<Rightarrow> [[b]] | c # cs \<Rightarrow> (b # c) # cs)"

definition trim_slashes :: "u8 list \<Rightarrow> u8 list" where
  "trim_slashes = dropWhile (\<lambda>b. b = 0x2F)"

fun resolve_components ::
  "u8 list list \<Rightarrow> u32 \<Rightarrow> ahci \<Rightarrow> nat \<Rightarrow> superblock \<Rightarrow> hw \<Rightarrow> (u32 \<times> hw) option" where
  "resolve_components [] current_ino d port sb s = Some (current_ino, s)"
| "resolve_components (c # cs) current_ino d port sb s =
     (if c = [] \<or> c = [0x2E] then resolve_components cs current_ino d port sb s
      else do { (ino_ptr, s) \<leftarrow> read_inode d port sb current_ino s;
                if ino_ptr = 0 then Some (0, s)
                else do {
                  (found, s) \<leftarrow> dir_lookup d port sb (inode_at ino_ptr (hw_ram s)) c s;
                  s \<leftarrow> hw_kfree ino_ptr (inode_alloc_size (inode_size sb)) s;
                  if found = 0 then Some (0, s)
                  else resolve_components cs found d port sb s } })"

definition resolve_path :: "ahci \<Rightarrow> nat \<Rightarrow> superblock \<Rightarrow> u32 \<Rightarrow> u8 list \<Rightarrow> hw \<Rightarrow> (u32 \<times> hw) option" where
  "resolve_path d port sb start_ino path s =
     (let path = trim_slashes path
      in if path = [] then Some (start_ino, s)
         else resolve_components (split_path path) start_ino d port sb s)"

text \<open>The callback \<open>FnMut(&[u8], u32, u8)\<close> may print and change the machine.\<close>

type_synonym entry_fun = "u8 list \<Rightarrow> u32 \<Rightarrow> u8 \<Rightarrow> hw \<Rightarrow> hw option"

partial_function (option) each_entry :: "u64 \<Rightarrow> usize \<Rightarrow> entry_fun \<Rightarrow> usize \<Rightarrow> hw \<Rightarrow> hw option" where
  "each_entry data sz f off s =
     (if usz (off + 8) \<le> sz
      then let p = data + of_nat off; entry = dir_ent_at p (hw_ram s)
           in if de_rec_len entry = 0 then Some s
              else Option.bind
                     (if de_inode entry \<noteq> 0 then f (ent_name p (hw_ram s)) (de_inode entry) (de_file_type entry) s
                      else Some s)
                     (\<lambda>s. each_entry data sz f (usz (off + unat (de_rec_len entry))) s)
      else Some s)"

definition for_each_entry :: "ahci \<Rightarrow> nat \<Rightarrow> superblock \<Rightarrow> inode \<Rightarrow> entry_fun \<Rightarrow> hw \<Rightarrow> hw option" where
  "for_each_entry d port sb dir_inode f s =
     (if i_mode dir_inode AND S_IFMT \<noteq> S_IFDIR then Some s
      else do { ((data, sz), s) \<leftarrow> read_inode_data d port sb dir_inode s;
                if data = 0 \<or> sz = 0 then Some s
                else do { s \<leftarrow> each_entry data sz f 0 s; hw_kfree data sz s } })"

section \<open>The mounted file system\<close>

record ext3 =
  e3_port :: nat
  e3_sb :: u64

definition e3_super :: "ext3 \<Rightarrow> hw \<Rightarrow> superblock" where
  "e3_super e s = superblock_at (e3_sb e) (hw_ram s)"

definition ext3_mount :: "ahci \<Rightarrow> nat \<Rightarrow> hw \<Rightarrow> (ext3 option \<times> hw) option" where
  "ext3_mount d port s =
     do { (sb, s) \<leftarrow> read_superblock d port s;
          if sb = 0 then Some (None, s)
          else let sb_ref = superblock_at sb (hw_ram s); label = takeWhile (\<lambda>b. b \<noteq> 0) (s_volume_name sb_ref)
               in do {
                 s \<leftarrow> say [Str ''ext3: mounted '', Raw [0xE2, 0x80, 0x94], Str '' '', Dec (ucast (s_blocks_count sb_ref)),
                           Str '' blocks, '', Dec (ucast (block_size sb_ref)), Str ''B/block, '',
                           Dec (ucast (s_inodes_count sb_ref)), Str '' inodes\<newline>''] s;
                 s \<leftarrow> (if length label > 0 then say [Str ''ext3: label \"'', Raw label, Str ''\"\<newline>''] s else Some s);
                 Some (Some \<lparr>e3_port = port, e3_sb = sb\<rparr>, s) } }"

definition ext3_read_file :: "ahci \<Rightarrow> ext3 \<Rightarrow> u8 list \<Rightarrow> hw \<Rightarrow> ((u64 \<times> usize) \<times> hw) option" where
  "ext3_read_file d e path s =
     do { (ino_num, s) \<leftarrow> resolve_path d (e3_port e) (e3_super e s) ROOT_INO path s;
          if ino_num = 0 then Some ((0, 0), s)
          else do {
            (ino_ptr, s) \<leftarrow> read_inode d (e3_port e) (e3_super e s) ino_num s;
            if ino_ptr = 0 then Some ((0, 0), s)
            else let ino_ref = inode_at ino_ptr (hw_ram s)
                 in if \<not> is_file ino_ref
                    then do { s \<leftarrow> hw_kfree ino_ptr (inode_alloc_size (inode_size (e3_super e s))) s; Some ((0, 0), s) }
                    else do {
                      (result, s) \<leftarrow> read_inode_data d (e3_port e) (e3_super e s) ino_ref s;
                      s \<leftarrow> hw_kfree ino_ptr (inode_alloc_size (inode_size (e3_super e s))) s;
                      Some (result, s) } } }"

definition ext3_exists :: "ahci \<Rightarrow> ext3 \<Rightarrow> u8 list \<Rightarrow> hw \<Rightarrow> (bool \<times> hw) option" where
  "ext3_exists d e path s =
     do { (ino, s) \<leftarrow> resolve_path d (e3_port e) (e3_super e s) ROOT_INO path s; Some (ino \<noteq> 0, s) }"

definition ext3_list_dir :: "ahci \<Rightarrow> ext3 \<Rightarrow> u8 list \<Rightarrow> entry_fun \<Rightarrow> hw \<Rightarrow> hw option" where
  "ext3_list_dir d e path f s =
     do { (ino_num, s) \<leftarrow> (if path = [] \<or> path = [0x2F] then Some (ROOT_INO, s)
                           else resolve_path d (e3_port e) (e3_super e s) ROOT_INO path s);
          if ino_num = 0 then Some s
          else do {
            (ino_ptr, s) \<leftarrow> read_inode d (e3_port e) (e3_super e s) ino_num s;
            if ino_ptr = 0 then Some s
            else do {
              s \<leftarrow> for_each_entry d (e3_port e) (e3_super e s) (inode_at ino_ptr (hw_ram s)) f s;
              hw_kfree ino_ptr (inode_alloc_size (inode_size (e3_super e s))) s } } }"

definition dump_entry :: entry_fun where
  "dump_entry name ino ft s =
     say [Str ''  '',
          if ft = FT_DIR then Str ''[DIR] '' else if ft = FT_REG_FILE then Str ''[FIL] ''
          else if ft = FT_SYMLINK then Str ''[LNK] '' else Str ''[???] '',
          Raw name, Str '' (ino='', Dec (ucast ino), Str '')\<newline>''] s"

definition ext3_dump_root :: "ahci \<Rightarrow> ext3 \<Rightarrow> hw \<Rightarrow> hw option" where
  "ext3_dump_root d e s =
     do { s \<leftarrow> say [Str ''ext3: / listing:\<newline>''] s; ext3_list_dir d e [0x2F] dump_entry s }"

definition ext3_drop :: "ext3 \<Rightarrow> hw \<Rightarrow> (ext3 \<times> hw) option" where
  "ext3_drop e s =
     (if e3_sb e \<noteq> 0 then do { s \<leftarrow> hw_kfree (e3_sb e) 4096 s; Some (e\<lparr>e3_sb := 0\<rparr>, s) } else Some (e, s))"

end
