(* ===== verification/Ext3_Safe.thy ===== *)
theory Ext3_Safe
  imports Ext3
begin

text \<open>
  The ext3 reader ends, whatever is on the disk: an interface for the disk (\<open>disk_reader\<close>), the
  operations of \<open>Ext3\<close> over it, and the walk of a directory's entries.
\<close>

section \<open>Total outcomes\<close>

text \<open>\<open>ends c P\<close>: the computation \<open>c\<close> returns, with a result in \<open>P\<close>.\<close>

definition ends :: "'a option \<Rightarrow> ('a \<Rightarrow> bool) \<Rightarrow> bool" where
  "ends c P \<longleftrightarrow> (\<exists>x. c = Some x \<and> P x)"

lemma ends_Some [simp]: "ends (Some x) P \<longleftrightarrow> P x"
  by (simp add: ends_def)

lemma ends_bind: "ends c P \<Longrightarrow> (\<And>x. P x \<Longrightarrow> ends (f x) Q) \<Longrightarrow> ends (Option.bind c f) Q"
  by (auto simp: ends_def)

lemma ends_bind_case:
  "ends c (\<lambda>(r, s). P r s) \<Longrightarrow> (\<And>r s. P r s \<Longrightarrow> ends (f r s) Q) \<Longrightarrow>
   ends (Option.bind c (\<lambda>(r, s). f r s)) Q"
  by (auto simp: ends_def)

lemma ends_mono: "ends c P \<Longrightarrow> (\<And>x. P x \<Longrightarrow> Q x) \<Longrightarrow> ends c Q"
  by (auto simp: ends_def)

section \<open>The disk as an interface\<close>

text \<open>
  \<open>dok\<close> is what is known of the machine outside the kernel's heap and memory: the console works,
  every read of sectors returns, and the kernel's own writes do not matter to it.
\<close>

locale disk_reader =
  fixes d :: ahci and port :: nat and dok :: "hw \<Rightarrow> bool"
  assumes dok_live: "dok s \<Longrightarrow> live s"
    and dok_read: "dok s \<Longrightarrow> \<exists>r s'. read_sectors d port lba n buf s = Some (r, s') \<and> dok s' \<and> hw_heap s' = hw_heap s"
    and dok_frame: "dok s \<Longrightarrow> m_hhdm h = m_hhdm (hw_heap s) \<Longrightarrow> dok (s\<lparr>hw_heap := h, hw_ram := m\<rparr>)"
    and dok_printed: "dok s \<Longrightarrow> printed s bs s' \<Longrightarrow> dok s'"

definition sound :: "(hw \<Rightarrow> bool) \<Rightarrow> hw \<Rightarrow> bool" where
  "sound dok s \<longleftrightarrow> dok s \<and> mem_inv (hw_heap s)"

context disk_reader
begin

lemma sound_ram: "sound dok s \<Longrightarrow> sound dok (s\<lparr>hw_ram := m\<rparr>)"
  using dok_frame [of s "hw_heap s" m] by (simp add: sound_def)

lemma sound_heap:
  "sound dok s \<Longrightarrow> mem_inv h \<Longrightarrow> m_hhdm h = m_hhdm (hw_heap s) \<Longrightarrow> sound dok (s\<lparr>hw_heap := h\<rparr>)"
  using dok_frame [of s h "hw_ram s"] by (simp add: sound_def)

lemma ends_say: "sound dok s \<Longrightarrow> ends (say cs s) (sound dok)"
proof -
  assume s: "sound dok s"
  then obtain s' where "say cs s = Some s'" "printed s (concat (map con_text cs)) s'"
    using say_prints [OF dok_live, of s cs] by (auto simp: sound_def)
  then show ?thesis using dok_printed [of s] s by (auto simp: ends_def sound_def printed_def)
qed

lemma ends_kmalloc: "sound dok s \<Longrightarrow> ends (on_heap (\<lambda>h. kmalloc h n) s) (\<lambda>(p, s'). sound dok s')"
  using kmalloc_spec [of "hw_heap s" n] by (auto simp: ends_def on_heap_def sound_def intro: sound_heap [unfolded sound_def, THEN conjunct1])

lemma ends_kmalloc_aligned:
  "sound dok s \<Longrightarrow> ends (on_heap (\<lambda>h. kmalloc_aligned h n al) s) (\<lambda>(p, s'). sound dok s')"
  using alloc_rounded_spec [of "hw_heap s" "if n < al then al else n"]
  by (auto simp: ends_def on_heap_def sound_def kmalloc_aligned_def intro: sound_heap [unfolded sound_def, THEN conjunct1])

lemma ends_kfree: "sound dok s \<Longrightarrow> ends (hw_kfree p n s) (sound dok)"
  using kfree_spec [of "hw_heap s" "unat p" n]
  by (auto simp: ends_def hw_kfree_def sound_def intro: sound_heap [unfolded sound_def, THEN conjunct1])

lemma ends_read_sectors: "sound dok s \<Longrightarrow> ends (read_sectors d port lba n buf s) (\<lambda>(r, s'). sound dok s')"
  using dok_read [of s lba n buf] by (auto simp: ends_def sound_def)

lemma ends_read_bytes: "sound dok s \<Longrightarrow> ends (read_bytes d port off n s) (\<lambda>(r, s'). sound dok s')"
  unfolding read_bytes_def Let_def
  by (auto intro!: ends_bind_case ends_kmalloc_aligned ends_read_sectors ends_bind ends_kfree)

lemma ends_read_bytes_to: "sound dok s \<Longrightarrow> ends (read_bytes_to d port off dst n s) (\<lambda>(r, s'). sound dok s')"
  unfolding read_bytes_to_def
  by (rule ends_bind_case [OF ends_read_bytes]) (auto simp: sound_ram split: option.splits)

lemma ends_read_block: "sound dok s \<Longrightarrow> ends (read_block d port b bsz dst s) (\<lambda>(r, s'). sound dok s')"
  unfolding read_block_def by (rule ends_read_bytes_to)

lemma ends_read_block_ptr: "sound dok s \<Longrightarrow> ends (read_block_ptr d port bsz b i s) (\<lambda>(r, s'). sound dok s')"
  unfolding read_block_ptr_def by (rule ends_bind_case [OF ends_read_bytes]) (auto split: option.splits)

lemma ends_resolve_block: "sound dok s \<Longrightarrow> ends (resolve_block d port sb ino l s) (\<lambda>(r, s'). sound dok s')"
  unfolding resolve_block_def Let_def by (auto intro!: ends_read_block_ptr ends_bind_case)

lemma ends_data_loop:
  "sound dok s \<Longrightarrow> ends (data_loop n l left off d port sb ino buf s) (\<lambda>(r, s'). sound dok s')"
proof (induction n arbitrary: l left off s)
  case (Suc n)
  show ?case
    unfolding data_loop.simps Let_def
    by (rule ends_bind_case [OF ends_resolve_block [OF Suc.prems]])
      (auto intro!: Suc.IH sound_ram ends_bind_case [OF ends_read_block])
qed simp

lemma ends_read_inode_data:
  assumes "sound dok s" "block_size sb \<noteq> 0"
  shows "ends (read_inode_data d port sb ino s)
    (\<lambda>((p, n), s'). sound dok s' \<and> (n = 0 \<or> n = unat (inode_bytes ino)))"
  unfolding read_inode_data_def Let_def using assms
  by (auto intro!: ends_bind_case [OF ends_kmalloc] ends_bind_case [OF ends_data_loop] ends_bind [OF ends_kfree])

lemma ends_read_inode:
  assumes "sound dok s" "s_inodes_per_group sb \<noteq> 0"
  shows "ends (read_inode d port sb ino s) (\<lambda>(p, s'). sound dok s')"
  unfolding read_inode_def Let_def using assms
  by (auto intro!: ends_bind_case [OF ends_read_bytes] ends_bind_case [OF ends_kmalloc] ends_bind [OF ends_say]
      ends_bind [OF ends_kfree] ends_bind_case [OF ends_read_bytes_to] sound_ram split: option.splits)

end

section \<open>Directory entries\<close>

text \<open>The entries of directory data from offset \<open>off\<close> on: name, inode and type, unused ones included.\<close>

function dir_entries :: "u64 \<Rightarrow> nat \<Rightarrow> nat \<Rightarrow> ram \<Rightarrow> (u8 list \<times> u32 \<times> u8) list" where
  "dir_entries data sz off m =
     (if off + 8 \<le> sz \<and> de_rec_len (dir_ent_at (data + of_nat off) m) \<noteq> 0
      then (let p = data + of_nat off; e = dir_ent_at p m in (ent_name p m, de_inode e, de_file_type e)) #
           dir_entries data sz (off + unat (de_rec_len (dir_ent_at (data + of_nat off) m))) m
      else [])"
  by pat_completeness auto
termination
  by (relation "measure (\<lambda>(data, sz, off, m). sz - off)") (auto intro!: diff_less_mono2 simp: unat_gt_0)

declare dir_entries.simps [simp del]

definition used_entries :: "u64 \<Rightarrow> nat \<Rightarrow> ram \<Rightarrow> (u8 list \<times> u32 \<times> u8) list" where
  "used_entries data sz m = filter (\<lambda>(name, ino, ft). ino \<noteq> 0) (dir_entries data sz 0 m)"

fun run_entries :: "entry_fun \<Rightarrow> (u8 list \<times> u32 \<times> u8) list \<Rightarrow> hw \<Rightarrow> hw option" where
  "run_entries f [] s = Some s"
| "run_entries f ((name, ino, ft) # es) s = do { s \<leftarrow> f name ino ft s; run_entries f es s }"

definition found_in :: "u8 list \<Rightarrow> (u8 list \<times> u32 \<times> u8) list \<Rightarrow> u32" where
  "found_in name es = (case find (\<lambda>(n, ino, ft). n = name) es of None \<Rightarrow> 0 | Some (n, ino, ft) \<Rightarrow> ino)"

lemma found_in_simps [simp]:
  "found_in name [] = 0"
  "found_in name ((n, ino, ft) # es) = (if n = name then ino else found_in name es)"
  by (simp_all add: found_in_def)

lemma rec_len_bound: "unat (de_rec_len e) < 65536"
  using unsigned_less [where 'a = nat, of "de_rec_len e"] by simp

lemma length_ent_name: "length (ent_name p m) = unat (de_name_len (dir_ent_at p m))"
  by (simp add: ent_name_def)

text \<open>The loops' own offsets do not wrap for data below \<open>2 ^ 63\<close> bytes.\<close>

lemma find_in_dir_data_eq:
  assumes "sz < 2 ^ 63" "off < sz + 65536"
  shows "find_in_dir_data data sz name off m =
    Some (found_in name (filter (\<lambda>(name, ino, ft). ino \<noteq> 0) (dir_entries data sz off m)))"
  using assms
proof (induction data sz off m rule: dir_entries.induct)
  case (1 data sz off m)
  let ?p = "data + of_nat off" and ?e = "dir_ent_at (data + of_nat off) m"
  let ?next = "off + unat (de_rec_len ?e)"
  have wrap: "usz (off + 8) = off + 8" "usz ?next = ?next"
    using "1.prems" rec_len_bound [of ?e] by simp_all
  have same: "unat (de_name_len ?e) = length name \<and> ent_name ?p m = name \<longleftrightarrow> ent_name ?p m = name"
    using length_ent_name [of ?p m] by auto
  show ?case
  proof (cases "off + 8 \<le> sz \<and> de_rec_len ?e \<noteq> 0")
    case True
    then have "find_in_dir_data data sz name ?next m =
        Some (found_in name (filter (\<lambda>(name, ino, ft). ino \<noteq> 0) (dir_entries data sz ?next m)))"
      using "1.IH" "1.prems" rec_len_bound [of ?e] by simp
    then show ?thesis
      using True by (subst find_in_dir_data.simps, subst dir_entries.simps) (simp add: wrap same Let_def)
  next
    case False
    then show ?thesis
      by (subst find_in_dir_data.simps, subst dir_entries.simps) (auto simp: wrap Let_def)
  qed
qed

lemma each_entry_eq:
  assumes keep: "\<And>name ino ft s s'. f name ino ft s = Some s' \<Longrightarrow> hw_ram s' = hw_ram s"
    and "sz < 2 ^ 63" "off < sz + 65536" "hw_ram s = m"
  shows "each_entry data sz f off s =
    run_entries f (filter (\<lambda>(name, ino, ft). ino \<noteq> 0) (dir_entries data sz off m)) s"
  using assms(2-4)
proof (induction data sz off m arbitrary: s rule: dir_entries.induct)
  case (1 data sz off m)
  let ?p = "data + of_nat off" and ?e = "dir_ent_at (data + of_nat off) m"
  let ?next = "off + unat (de_rec_len ?e)"
  have wrap: "usz (off + 8) = off + 8" "usz ?next = ?next"
    using "1.prems" rec_len_bound [of ?e] by simp_all
  show ?case
  proof (cases "off + 8 \<le> sz \<and> de_rec_len ?e \<noteq> 0")
    case True
    then have rest: "each_entry data sz f ?next t =
        run_entries f (filter (\<lambda>(name, ino, ft). ino \<noteq> 0) (dir_entries data sz ?next m)) t" if "hw_ram t = m" for t
      using "1.IH" "1.prems" rec_len_bound [of ?e] that by simp
    have "Option.bind (f n i ft s) (\<lambda>s. each_entry data sz f ?next s) =
        Option.bind (f n i ft s)
          (run_entries f (filter (\<lambda>(name, ino, ft). ino \<noteq> 0) (dir_entries data sz ?next m)))" for n i ft
      using rest keep "1.prems"(3) by (cases "f n i ft s") auto
    then show ?thesis
      using True rest [OF "1.prems"(3)] "1.prems"(3)
      by (subst each_entry.simps, subst dir_entries.simps) (simp add: wrap Let_def)
  next
    case False
    then show ?thesis
      using "1.prems"(3) by (subst each_entry.simps, subst dir_entries.simps) (auto simp: wrap Let_def)
  qed
qed

section \<open>Looking up and resolving\<close>

lemma dir_inode_bytes: "i_mode ino AND S_IFMT = S_IFDIR \<Longrightarrow> unat (inode_bytes ino) < 2 ^ 32"
  using unsigned_less [where 'a = nat, of "i_size ino"]
  by (simp add: inode_bytes_def S_IFDIR_def S_IFREG_def Let_def unat_trunc)

context disk_reader
begin

lemma ends_dir_lookup:
  assumes "sound dok s" "block_size sb \<noteq> 0"
  shows "ends (dir_lookup d port sb ino name s) (\<lambda>(r, s'). sound dok s')"
proof (cases "i_mode ino AND S_IFMT = S_IFDIR")
  case True
  have found: "ends (find_in_dir_data data n name 0 m) (\<lambda>_. True)" if "n = unat (inode_bytes ino)" for data n m
    using find_in_dir_data_eq [of n 0] dir_inode_bytes [OF True] that by simp
  let ?post = "\<lambda>((p, n), s'). sound dok s' \<and> (n = 0 \<or> n = unat (inode_bytes ino))"
  have "ends (Option.bind (read_inode_data d port sb ino s) (\<lambda>((data, n), s). if data = 0 \<or> n = 0 then Some (0, s)
      else do { result \<leftarrow> find_in_dir_data data n name 0 (hw_ram s); s \<leftarrow> hw_kfree data n s; Some (result, s) }))
      (\<lambda>(r, s'). sound dok s')"
    by (rule ends_bind [OF ends_read_inode_data [OF assms, of ino]])
      (auto intro!: ends_bind [OF found] ends_bind [OF ends_kfree])
  then show ?thesis using True by (simp add: dir_lookup_def)
qed (use assms in \<open>simp add: dir_lookup_def\<close>)

lemma ends_resolve_components:
  assumes "block_size sb \<noteq> 0" "s_inodes_per_group sb \<noteq> 0"
  shows "sound dok s \<Longrightarrow> ends (resolve_components cs ino d port sb s) (\<lambda>(r, s'). sound dok s')"
proof (induction cs arbitrary: ino s)
  case (Cons c cs)
  then show ?case using assms
    by (auto intro!: Cons.IH ends_bind_case [OF ends_read_inode] ends_bind_case [OF ends_dir_lookup] ends_bind [OF ends_kfree])
qed simp

lemma ends_resolve_path:
  assumes "block_size sb \<noteq> 0" "s_inodes_per_group sb \<noteq> 0" "sound dok s"
  shows "ends (resolve_path d port sb ino path s) (\<lambda>(r, s'). sound dok s')"
  using ends_resolve_components [OF assms(1,2)] assms(3) by (simp add: resolve_path_def Let_def)

end

section \<open>Any disk\<close>

interpretation any_disk: disk_reader d port live for d port
proof unfold_locales
  fix s :: hw and lba :: u64 and n :: u16 and buf :: u64
  assume "live s"
  then show "\<exists>r s'. read_sectors d port lba n buf s = Some (r, s') \<and> live s' \<and> hw_heap s' = hw_heap s"
    using read_sectors_runs [of s d port lba n buf] by blast
qed (auto simp: live_def printed_def sent_def)

section \<open>Properties\<close>

text \<open>
  C27: path resolution ends. Whatever the disk holds and whatever it answers, resolving a path from any
  inode returns, and leaves the console working and the heap well formed, provided the superblock's
  block size and inodes per group are not zero.
\<close>

theorem resolve_path_returns:
  assumes "live s" "mem_inv (hw_heap s)" "block_size sb \<noteq> 0" "s_inodes_per_group sb \<noteq> 0"
  shows "\<exists>r s'. resolve_path d port sb ino path s = Some (r, s') \<and> live s' \<and> mem_inv (hw_heap s')"
  using any_disk.ends_resolve_path [OF assms(3,4), of s d port ino path] assms(1,2)
  by (auto simp: ends_def sound_def)

definition small_heap :: mem where
  "small_heap = mem_init mem_boot 0x1000 [\<lparr>me_usable = True, me_base = 0x100000, me_length = 0x10000\<rparr>]"

definition ext3_hw :: hw where
  "ext3_hw = pci_hw\<lparr>hw_heap := small_heap\<rparr>"

definition sample_super :: superblock where
  "sample_super = (superblock_at 0 (\<lambda>_. 0))
     \<lparr>s_inodes_count := 16, s_log_block_size := 0, s_blocks_count := 64, s_blocks_per_group := 8192, s_inodes_per_group := 16,
      s_magic := EXT_MAGIC, s_rev_level := 1, s_inode_size := 128\<rparr>"

lemma ext3_hw_sound: "live ext3_hw" "mem_inv (hw_heap ext3_hw)"
proof -
  show "live ext3_hw" by (simp add: live_def ext3_hw_def pci_hw_def tx_live_def)
  show "mem_inv (hw_heap ext3_hw)"
    unfolding ext3_hw_def small_heap_def
    by simp (rule mem_inv_init [of _ "0x100000" "0x10000"]; simp)
qed

lemma sample_super_sizes: "block_size sample_super = 1024" "s_inodes_per_group sample_super = 16"
  by (simp_all add: block_size_def sample_super_def)

theorem resolve_path_returns_witness:
  "\<exists>r s'. resolve_path ahci_boot 0 sample_super ROOT_INO [0x2F, 0x61, 0x2F, 0x62] ext3_hw = Some (r, s')"
  using resolve_path_returns [OF ext3_hw_sound, of sample_super ahci_boot 0 ROOT_INO "[0x2F, 0x61, 0x2F, 0x62]"]
  by (auto simp: sample_super_sizes)

text \<open>
  C29: a hostile superblock stops the kernel. Reading an inode fails to return exactly when the superblock
  has no inodes per group and the inode number is not 0: the division by zero panics.
\<close>

theorem read_inode_panics_iff:
  assumes "live s" "mem_inv (hw_heap s)"
  shows "read_inode d port sb ino s = None \<longleftrightarrow> ino \<noteq> 0 \<and> s_inodes_per_group sb = 0"
proof (cases "s_inodes_per_group sb = 0")
  case True
  then show ?thesis by (simp add: read_inode_def)
next
  case False
  then show ?thesis
    using any_disk.ends_read_inode [of s sb d port ino] assms by (auto simp: ends_def sound_def)
qed

theorem read_inode_panics_iff_witness:
  "read_inode ahci_boot 0 (sample_super\<lparr>s_inodes_per_group := 0\<rparr>) ROOT_INO ext3_hw = None"
  using read_inode_panics_iff [OF ext3_hw_sound, of ahci_boot 0 "sample_super\<lparr>s_inodes_per_group := 0\<rparr>" ROOT_INO]
  by (simp add: ROOT_INO_def)

text \<open>
  C28: a name is found exactly where the listing shows it. For directory data below \<open>2 ^ 63\<close> bytes in
  memory \<open>m\<close>, the walk of a listing hands its callback exactly the entries in use, in order and once each,
  and the search for a name returns the inode of the first of them with that name, 0 when there is none;
  both end, however the record lengths are set.
\<close>

theorem lookup_agrees_with_listing:
  assumes "sz < 2 ^ 63"
  shows "find_in_dir_data data sz name 0 m = Some (found_in name (used_entries data sz m)) \<and>
    ((\<forall>n i t s s'. f n i t s = Some s' \<longrightarrow> hw_ram s' = hw_ram s) \<longrightarrow> hw_ram s0 = m \<longrightarrow>
      each_entry data sz f 0 s0 = run_entries f (used_entries data sz m) s0) \<and>
    (\<forall>(n, i, t)\<in>set (used_entries data sz m). i \<noteq> 0)"
  using find_in_dir_data_eq [OF assms, of 0 data name m] each_entry_eq [of f sz 0 s0 m data] assms
  by (auto simp: used_entries_def)

text \<open>A directory of two entries, \<open>a\<close> deleted and then used again: inode 0, then inode 5.\<close>

definition sample_dir :: "u8 list" where
  "sample_dir = [0, 0, 0, 0, 12, 0, 1, 1, 0x61, 0, 0, 0, 5, 0, 0, 0, 12, 0, 1, 1, 0x61, 0, 0, 0]"

theorem lookup_agrees_with_listing_witness:
  "find_in_dir_data 0x1000 24 [0x61] 0 (store_ram 0x1000 sample_dir (\<lambda>_. 0)) = Some 5"
proof -
  let ?m = "store_ram 0x1000 sample_dir (\<lambda>_. 0)"
  have "used_entries 0x1000 24 ?m = [([0x61], 5, 1)]"
    by code_simp
  then show ?thesis
    using lookup_agrees_with_listing [of 24 "0x1000" "[0x61]" ?m] by simp
qed

end
