(* ===== verification/Ext3_Tree.thy ===== *)
theory Ext3_Tree
  imports Ext3_Safe
begin

text \<open>
  The block tree of \<open>src/kern/fs/ext3/inode.rs\<close> against a reference: which disk block holds a file's
  logical block. The disk is an AHCI device that serves its reads (\<open>serving\<close>), the heap one that never
  runs dry of single pages (\<open>ample\<close>); both are the greatest predicates with the laws of \<open>good_disk\<close>.
\<close>

section \<open>A disk that answers\<close>

locale good_disk = disk_reader +
  fixes disk :: "nat \<Rightarrow> u8" and stocked :: "mem \<Rightarrow> bool"
  assumes dok_data: "dok s \<Longrightarrow> 0 < n \<Longrightarrow> n \<le> 8192 \<Longrightarrow> unat lba < 2 ^ 48 \<Longrightarrow>
      read_sectors d port lba n buf s = Some (r, s') \<Longrightarrow>
      r \<and> (\<forall>i<512 * unat n. hw_ram s' (buf + of_nat i) = disk (512 * unat lba + i))"
    and stocked_inv: "stocked h \<Longrightarrow> mem_inv h"
    and stocked_cycle: "stocked h \<Longrightarrow> 0 < sz \<Longrightarrow> sz \<le> 4096 \<Longrightarrow> kmalloc_aligned h sz 4096 = Some (h1, p) \<Longrightarrow>
      kfree h1 p sz = Some h2 \<Longrightarrow> p \<noteq> 0 \<and> stocked h2"

definition bytes_at :: "(nat \<Rightarrow> u8) \<Rightarrow> nat \<Rightarrow> nat \<Rightarrow> u8 list" where
  "bytes_at disk off n = map (\<lambda>i. disk (off + i)) [0..<n]"

section \<open>The reference tree\<close>

text \<open>
  An ext2/3 inode names its blocks through 15 roots: 12 blocks, then the roots of trees of depth 1, 2
  and 3 whose nodes are blocks of \<open>p\<close> little-endian 32-bit pointers. \<open>block_path\<close> is the root and the
  index at each level for a logical block; a pointer 0 anywhere on the way is a hole.
\<close>

definition tree_span :: "nat \<Rightarrow> nat" where
  "tree_span p = 12 + p + p\<^sup>2 + p ^ 3"

definition block_path :: "nat \<Rightarrow> nat \<Rightarrow> nat \<times> nat list" where
  "block_path p l =
     (if l < 12 then (l, [])
      else if l < 12 + p then (12, [l - 12])
      else if l < 12 + p + p\<^sup>2 then (let k = l - 12 - p in (13, [k div p, k mod p]))
      else (let k = l - 12 - p - p\<^sup>2 in (14, [k div p\<^sup>2, k mod p\<^sup>2 div p, k mod p\<^sup>2 mod p])))"

definition pointer_at :: "(nat \<Rightarrow> u8) \<Rightarrow> nat \<Rightarrow> u32 \<Rightarrow> nat \<Rightarrow> u32" where
  "pointer_at disk bsz blk i = from_le (bytes_at disk (unat blk * bsz + 4 * i) 4)"

fun tree_walk :: "(nat \<Rightarrow> u8) \<Rightarrow> nat \<Rightarrow> u32 \<Rightarrow> nat list \<Rightarrow> u32" where
  "tree_walk disk bsz blk [] = blk"
| "tree_walk disk bsz blk (i # is) = (if blk = 0 then 0 else tree_walk disk bsz (pointer_at disk bsz blk i) is)"

definition block_ref :: "(nat \<Rightarrow> u8) \<Rightarrow> nat \<Rightarrow> inode \<Rightarrow> nat \<Rightarrow> u32" where
  "block_ref disk bsz ino l =
     (if l < tree_span (bsz div 4)
      then (case block_path (bsz div 4) l of (r, is) \<Rightarrow> tree_walk disk bsz (i_block ino ! r) is)
      else 0)"

text \<open>The reference is sound as a naming: different logical blocks have different paths, inside the nodes.\<close>

lemma block_path_cases:
  obtains (direct) "l < 12" "block_path p l = (l, [])"
  | (single) "12 \<le> l" "l < 12 + p" "block_path p l = (12, [l - 12])"
  | (double) k where "l = 12 + p + k" "k < p\<^sup>2" "block_path p l = (13, [k div p, k mod p])"
  | (triple) k where "l = 12 + p + p\<^sup>2 + k" "block_path p l = (14, [k div p\<^sup>2, k mod p\<^sup>2 div p, k mod p\<^sup>2 mod p])"
proof -
  consider "l < 12" | "12 \<le> l" "l < 12 + p" | "12 + p \<le> l" "l < 12 + p + p\<^sup>2" | "12 + p + p\<^sup>2 \<le> l" by linarith
  then show thesis
  proof cases
    case 1
    then show ?thesis by (intro direct) (simp_all add: block_path_def)
  next
    case 2
    then show ?thesis by (intro single) (simp_all add: block_path_def)
  next
    case 3
    then show ?thesis by (intro double [of "l - 12 - p"]) (simp_all add: block_path_def Let_def)
  next
    case 4
    then show ?thesis by (intro triple [of "l - 12 - p - p\<^sup>2"]) (simp_all add: block_path_def Let_def)
  qed
qed

lemma block_path_in_nodes:
  assumes "l < tree_span p" "block_path p l = (r, is)"
  shows "r < 15 \<and> (\<forall>i\<in>set is. i < p)"
proof (cases rule: block_path_cases [of l p])
  case (double k)
  then have "k div p < p" "k mod p < p" by (auto simp: power2_eq_square less_mult_imp_div_less intro!: mod_less_divisor gr0I)
  then show ?thesis using double(3) assms(2) by auto
next
  case (triple k)
  then have k: "k < p * p\<^sup>2" "0 < p" using assms(1)
    by (auto simp: tree_span_def power2_eq_square power3_eq_cube intro!: gr0I)
  then have "k div p\<^sup>2 < p" "k mod p\<^sup>2 div p < p" "k mod p\<^sup>2 mod p < p"
    by (simp_all add: less_mult_imp_div_less power2_eq_square)
  then show ?thesis using triple(2) assms(2) by auto
qed (use assms in auto)

lemma div_mod_inj: "k div q = k' div q \<Longrightarrow> k mod q = k' mod q \<Longrightarrow> k = (k' :: nat)"
  by (metis div_mult_mod_eq)

lemma block_path_inj:
  assumes "block_path p l = block_path p l'"
  shows "l = l'"
proof (cases rule: block_path_cases [of l p])
  case direct
  then show ?thesis using assms by (cases rule: block_path_cases [of l' p]) auto
next
  case single
  then show ?thesis using assms by (cases rule: block_path_cases [of l' p]) auto
next
  case (double k)
  then show ?thesis using assms by (cases rule: block_path_cases [of l' p]) (auto dest: div_mod_inj)
next
  case (triple k)
  show ?thesis
  proof (cases rule: block_path_cases [of l' p])
    case t: (triple k')
    have e: "k div p\<^sup>2 = k' div p\<^sup>2" "k mod p\<^sup>2 div p = k' mod p\<^sup>2 div p" "k mod p\<^sup>2 mod p = k' mod p\<^sup>2 mod p"
      using triple(2) t(2) assms by simp_all
    have "k = k'" by (rule div_mod_inj [OF e(1) div_mod_inj [OF e(2,3)]])
    then show ?thesis using t(1) triple(1) by simp
  qed (use triple(2) assms in auto)
qed

text \<open>
  The same walk over the device: \<open>resolve_block\<close> is it, along \<open>block_path\<close>, for every block size of
  at most 4096 bytes; the 32-bit arithmetic on the index does not wrap.
\<close>

fun walk_blocks :: "ahci \<Rightarrow> nat \<Rightarrow> u32 \<Rightarrow> u32 \<Rightarrow> nat list \<Rightarrow> hw \<Rightarrow> (u32 \<times> hw) option" where
  "walk_blocks d port bsz blk [] s = Some (blk, s)"
| "walk_blocks d port bsz blk (i # is) s =
     (if blk = 0 then Some (0, s)
      else do { (b, s) \<leftarrow> read_block_ptr d port bsz blk (of_nat i) s; walk_blocks d port bsz b is s })"

lemma bind_walk [simp]:
  "Option.bind c (\<lambda>(b, s). walk_blocks d port bsz b [] s) = c"
  "Option.bind c (\<lambda>(b, s). walk_blocks d port bsz b (i # is) s) =
     Option.bind c (\<lambda>(b, s). if b = 0 then Some (0, s)
       else Option.bind (read_block_ptr d port bsz b (of_nat i) s) (\<lambda>(b, s). walk_blocks d port bsz b is s))"
  by (cases c; auto)+

lemma resolve_block_walk:
  assumes "block_size sb = bsz" "unat bsz = 4 * p" "0 < p" "p \<le> 1024"
  shows "resolve_block d port sb ino l s =
    (if unat l < tree_span p
     then (case block_path p (unat l) of (r, is) \<Rightarrow> walk_blocks d port bsz (i_block ino ! r) is s)
     else Some (0, s))"
proof -
  let ?pw = "bsz div 4"
  have pw: "unat ?pw = p" using assms(2) by (simp add: unat_div)
  have pp: "p * p \<le> 1024 * 1024" using assms(4) by (intro mult_le_mono) simp_all
  have ppp: "p * p * p \<le> 1024 * 1024 * 1024" using pp assms(4) by (intro mult_le_mono) simp_all
  have sq: "unat (?pw * ?pw) = p\<^sup>2" using pp pw by (simp add: unat_word_ariths power2_eq_square)
  have cube: "unat (?pw * ?pw * ?pw) = p ^ 3"
    using ppp sq pw unat_word_ariths(2) [of "?pw * ?pw" ?pw] by (simp add: power2_eq_square power3_eq_cube)
  have nat_of: "(of_nat n :: u32) = w" if "n = unat w" for n w using that by simp
  let ?l1 = "l - 12" and ?l2 = "l - 12 - ?pw" and ?l3 = "l - 12 - ?pw - ?pw * ?pw"
  have l1: "unat ?l1 = unat l - 12" if "12 \<le> unat l"
    using that by (subst unat_sub) (simp_all add: word_le_nat_alt)
  have l2: "unat ?l2 = unat l - 12 - p" if "12 + p \<le> unat l"
    using that l1 pw by (subst unat_sub) (simp_all add: word_le_nat_alt)
  have l3: "unat ?l3 = unat l - 12 - p - p\<^sup>2" if "12 + p + p\<^sup>2 \<le> unat l"
    using that l2 sq by (subst unat_sub) (simp_all add: word_le_nat_alt)
  show ?thesis
  proof (cases rule: block_path_cases [of "unat l" p])
    case direct
    moreover have "l < 12" using direct by (simp add: word_less_nat_alt)
    ultimately show ?thesis by (simp add: resolve_block_def tree_span_def)
  next
    case single
    then have "\<not> l < 12" "?l1 < ?pw" using l1 pw by (simp_all add: word_less_nat_alt)
    moreover have "of_nat (unat l - 12) = ?l1" using single l1 by (intro nat_of) simp
    ultimately show ?thesis using single assms(1)
      by (simp add: resolve_block_def Let_def tree_span_def cong: if_cong)
  next
    case (double k)
    have k: "unat ?l2 = k" using double(1) l2 by simp
    have "\<not> l < 12" "\<not> ?l1 < ?pw" "?l2 < ?pw * ?pw"
      using double l1 pw sq k by (simp_all add: word_less_nat_alt)
    moreover have "of_nat (k div p) = ?l2 div ?pw" "of_nat (k mod p) = ?l2 mod ?pw"
      using k pw by (auto intro!: nat_of simp: unat_div unat_mod)
    ultimately show ?thesis using double assms(1)
      by (simp add: resolve_block_def Let_def tree_span_def cong: if_cong)
  next
    case (triple k)
    have k: "unat ?l3 = k" using triple(1) l3 by simp
    have "\<not> l < 12" "\<not> ?l1 < ?pw" "\<not> ?l2 < ?pw * ?pw" "?l3 < ?pw * ?pw * ?pw \<longleftrightarrow> unat l < tree_span p"
      using triple l1 l2 pw sq cube k by (simp_all add: word_less_nat_alt tree_span_def)
    moreover have "of_nat (k div p\<^sup>2) = ?l3 div (?pw * ?pw)" "of_nat (k mod p\<^sup>2 div p) = ?l3 mod (?pw * ?pw) div ?pw"
      "of_nat (k mod p\<^sup>2 mod p) = ?l3 mod (?pw * ?pw) mod ?pw"
      using k pw sq by (auto intro!: nat_of simp: unat_div unat_mod)
    ultimately show ?thesis using triple assms(1)
      by (simp add: resolve_block_def Let_def cong: if_cong)
  qed
qed

context good_disk
begin

lemma read_bytes_data:
  assumes "dok s" "stocked (hw_heap s)" "0 < n" "n \<le> 3584" "unat off + n \<le> 2 ^ 57"
  shows "\<exists>s'. read_bytes d port off n s = Some (Some (bytes_at disk (unat off) n), s') \<and> dok s' \<and> stocked (hw_heap s')"
proof -
  define ofs where "ofs = unat (off mod 512)"
  define sc where "sc = (ofs + n + 511) div 512"
  have ofs: "ofs < 512" "unat off = 512 * unat (off div 512) + ofs"
    by (simp_all add: ofs_def unat_mod unat_div)
  have sc: "0 < sc" "sc \<le> 8" "ofs + n \<le> 512 * sc" using assms(3,4) ofs(1) by (simp_all add: sc_def)
  have sizes: "usz (ofs + n) = ofs + n" "usz (ofs + n + 511) = ofs + n + 511" "usz (sc * 512) = sc * 512"
    using assms(4) ofs(1) sc(2) by simp_all
  have inv: "mem_inv (hw_heap s)" by (rule stocked_inv [OF assms(2)])
  have al: "kmalloc_aligned (hw_heap s) (sc * 512) 4096 = alloc_rounded (hw_heap s) 4096"
    using sc by (auto simp: kmalloc_aligned_def)
  obtain h1 p where h1: "kmalloc_aligned (hw_heap s) (sc * 512) 4096 = Some (h1, p)" "mem_inv h1"
    "m_hhdm h1 = m_hhdm (hw_heap s)"
    "p = 0 \<or> p + 4096 \<le> bd_base (m_buddy (hw_heap s)) + bd_total_pages (m_buddy (hw_heap s)) * PAGE_SIZE"
    using alloc_rounded_spec [OF inv, of 4096] unfolding al by (auto simp: PAGE_SIZE_def)
  have p64: "p < 2 ^ 64" using h1(4) inv by (auto simp: mem_inv_def region_ok_def)
  obtain h2 where h2: "kfree h1 p (sc * 512) = Some h2" "m_hhdm h2 = m_hhdm h1"
    using kfree_spec [OF h1(2)] by blast
  have nz: "p \<noteq> 0" "stocked h2" using stocked_cycle [OF assms(2) _ _ h1(1) h2(1)] sc by auto
  let ?s = "s\<lparr>hw_heap := h1\<rparr>"
  have dok: "dok ?s" using dok_frame [OF assms(1) h1(3), of "hw_ram s"] by simp
  obtain r s' where rd: "read_sectors d port (off div 512) (of_nat sc) (of_nat p) ?s = Some (r, s')" "dok s'"
    "hw_heap s' = h1" using dok_read [OF dok, of "off div 512" "of_nat sc" "of_nat p"] by auto
  have un: "unat (of_nat sc :: u16) = sc" using sc(2) by (simp add: unsigned_of_nat take_bit_eq_mod)
  have small: "0 < (of_nat sc :: u16)" "(of_nat sc :: u16) \<le> 8192"
    using sc un by (simp_all add: word_less_nat_alt word_le_nat_alt)
  have "unat (off div 512) < 2 ^ 48" using assms(3,5) by (simp add: unat_div)
  from dok_data [OF dok small this rd(1)] un
  have data: "r" "\<And>i. i < 512 * sc \<Longrightarrow> hw_ram s' (of_nat p + of_nat i) = disk (512 * unat (off div 512) + i)" by auto
  have bytes: "load_ram (of_nat (p + ofs)) n (hw_ram s') = bytes_at disk (unat off) n"
  proof (rule nth_equalityI)
    fix i assume "i < length (load_ram (of_nat (p + ofs)) n (hw_ram s'))"
    then have "i < n" by simp
    with data(2) [of "ofs + i"] sc(3) ofs(2) show "load_ram (of_nat (p + ofs)) n (hw_ram s') ! i = bytes_at disk (unat off) n ! i"
      by (simp add: load_ram_nth bytes_at_def add.assoc)
  qed (simp add: bytes_at_def)
  have "read_bytes d port off n s = Some (Some (bytes_at disk (unat off) n), s'\<lparr>hw_heap := h2\<rparr>)"
    using assms(3) h1(1) nz(1) rd data(1) h2(1) p64 bytes
    by (simp add: read_bytes_def Let_def on_heap_def hw_kfree_def sizes unat_of_usz flip: ofs_def sc_def)
  moreover have "dok (s'\<lparr>hw_heap := h2\<rparr>)" using dok_frame [OF rd(2), of h2 "hw_ram s'"] h2(2) rd(3) by simp
  ultimately show ?thesis using nz(2) by auto
qed

lemma read_block_ptr_data:
  assumes "dok s" "stocked (hw_heap s)" "bsz \<le> 4096" "unat i * 4 < unat bsz"
  shows "\<exists>s'. read_block_ptr d port bsz b i s = Some (pointer_at disk (unat bsz) b (unat i), s') \<and>
    dok s' \<and> stocked (hw_heap s')"
proof -
  have bsz: "unat bsz \<le> 4096" using assms(3) by (simp add: word_le_nat_alt)
  have b: "unat b * unat bsz \<le> 2 ^ 32 * 4096"
    using bsz unsigned_less [where 'a = nat, of b] by (intro mult_le_mono) simp_all
  have "unat (ucast b * ucast bsz + ucast i * 4 :: u64) = unat b * unat bsz + 4 * unat i"
    using b assms(4) bsz unsigned_less [where 'a = nat, of b]
    by (simp add: unat_word_ariths unat_trunc)
  moreover have "unat b * unat bsz + 4 * unat i + 4 \<le> 2 ^ 57" using b assms(4) bsz by simp
  ultimately show ?thesis
    using read_bytes_data [OF assms(1,2), of 4 "ucast b * ucast bsz + ucast i * 4"]
    by (auto simp: read_block_ptr_def pointer_at_def)
qed

lemma walk_blocks_data:
  "dok s \<Longrightarrow> stocked (hw_heap s) \<Longrightarrow> bsz \<le> 4096 \<Longrightarrow> \<forall>i\<in>set is. i * 4 < unat bsz \<Longrightarrow>
   \<exists>s'. walk_blocks d port bsz blk is s = Some (tree_walk disk (unat bsz) blk is, s') \<and> dok s' \<and> stocked (hw_heap s')"
proof (induction "is" arbitrary: blk s)
  case (Cons i "is")
  have "unat bsz \<le> 4096" using Cons.prems(3) by (simp add: word_le_nat_alt)
  then have "i < 2 ^ 32" using Cons.prems(4) by simp
  then have i: "unat (of_nat i :: u32) = i" by (simp add: unsigned_of_nat take_bit_eq_mod)
  obtain s1 where 1: "read_block_ptr d port bsz blk (of_nat i) s = Some (pointer_at disk (unat bsz) blk i, s1)"
    "dok s1" "stocked (hw_heap s1)"
    using read_block_ptr_data [OF Cons.prems(1-3), of "of_nat i" blk] Cons.prems(4) i by auto
  then show ?case
    using Cons.IH [OF 1(2,3) Cons.prems(3)] Cons.prems by simp
qed simp

lemma resolve_block_data:
  assumes "dok s" "stocked (hw_heap s)" "block_size sb = bsz" "unat bsz = 4 * p" "0 < p" "p \<le> 1024"
  shows "\<exists>s'. resolve_block d port sb ino l s = Some (block_ref disk (unat bsz) ino (unat l), s') \<and>
    dok s' \<and> stocked (hw_heap s')"
proof (cases "unat l < tree_span p")
  case True
  obtain r "is" where path: "block_path p (unat l) = (r, is)" by fastforce
  have "bsz \<le> 4096" using assms(4,6) by (simp add: word_le_nat_alt)
  moreover have "\<forall>i\<in>set is. i * 4 < unat bsz" using block_path_in_nodes [OF True path] assms(4) by auto
  ultimately show ?thesis
    using walk_blocks_data [OF assms(1,2), of bsz "is" "i_block ino ! r"] True path assms(4)
      resolve_block_walk [OF assms(3-6)] by (simp add: block_ref_def)
next
  case False
  then show ?thesis using assms(1,2,4) resolve_block_walk [OF assms(3-6)] by (simp add: block_ref_def)
qed

end

section \<open>Devices that keep serving, heaps that keep a page\<close>

definition same_devices :: "hw \<Rightarrow> hw \<Rightarrow> bool" where
  "same_devices s t \<longleftrightarrow> hw_trace t = hw_trace s \<and> hw_reg t = hw_reg s \<and> hw_port t = hw_port s \<and> hw_dma t = hw_dma s \<and>
     m_hhdm (hw_heap t) = m_hhdm (hw_heap s)"

definition sectors_read :: "(nat \<Rightarrow> u8) \<Rightarrow> u64 \<Rightarrow> u16 \<Rightarrow> u64 \<Rightarrow> hw \<Rightarrow> bool" where
  "sectors_read disk lba n buf s \<longleftrightarrow> (\<forall>i<512 * unat n. hw_ram s (buf + of_nat i) = disk (512 * unat lba + i))"

text \<open>
  The AHCI device completes every read within the 22-bit byte count and the 48-bit sector numbers, with
  the disk's bytes in the buffer, now and after every further read.
\<close>

coinductive serving :: "ahci \<Rightarrow> nat \<Rightarrow> (nat \<Rightarrow> u8) \<Rightarrow> hw \<Rightarrow> bool" for d port disk where
  serving: "live s \<Longrightarrow>
    (\<And>t lba n buf r s'. same_devices s t \<Longrightarrow> live t \<Longrightarrow> read_sectors d port lba n buf t = Some (r, s') \<Longrightarrow>
       serving d port disk s' \<and>
       (0 < n \<longrightarrow> n \<le> 8192 \<longrightarrow> unat lba < 2 ^ 48 \<longrightarrow> r \<and> sectors_read disk lba n buf s')) \<Longrightarrow>
    serving d port disk s"

text \<open>A single page can be allocated, and after it has been freed again it still can.\<close>

coinductive ample :: "mem \<Rightarrow> bool" where
  ample: "mem_inv h \<Longrightarrow>
    (\<And>sz h1 p h2. 0 < sz \<Longrightarrow> sz \<le> 4096 \<Longrightarrow> kmalloc_aligned h sz 4096 = Some (h1, p) \<Longrightarrow> kfree h1 p sz = Some h2 \<Longrightarrow>
       p \<noteq> 0 \<and> ample h2) \<Longrightarrow> ample h"

lemma serving_live: "serving d port disk s \<Longrightarrow> live s"
  by (erule serving.cases) simp

lemma serving_read:
  assumes "serving d port disk s" "read_sectors d port lba n buf s = Some (r, s')"
  shows "serving d port disk s' \<and>
    (0 < n \<longrightarrow> n \<le> 8192 \<longrightarrow> unat lba < 2 ^ 48 \<longrightarrow> r \<and> sectors_read disk lba n buf s')"
  using assms(1)
proof (cases rule: serving.cases)
  case serving
  show ?thesis by (rule serving(2) [OF _ serving(1) assms(2)]) (simp add: same_devices_def)
qed

lemma serving_same:
  assumes "serving d port disk s" "same_devices s s'" "live s'"
  shows "serving d port disk s'"
  using assms(1)
proof (cases rule: serving.cases)
  case serving
  have "same_devices s t" if "same_devices s' t" for t using assms(2) that by (simp add: same_devices_def)
  then show ?thesis by (intro serving.intros assms(3)) (use serving(2) in blast)
qed

interpretation served: good_disk d port "serving d port disk" disk ample for d port disk
proof unfold_locales
  fix s s' :: hw and h :: mem and m :: ram and lba :: u64 and n :: u16 and buf :: u64 and r :: bool and bs :: "u8 list"
  show "serving d port disk s \<Longrightarrow> live s" by (rule serving_live)
  show "\<exists>r s'. read_sectors d port lba n buf s = Some (r, s') \<and> serving d port disk s' \<and> hw_heap s' = hw_heap s"
    if "serving d port disk s"
    using read_sectors_runs [OF serving_live [OF that], of d port lba n buf] serving_read [OF that] by blast
  show "serving d port disk (s\<lparr>hw_heap := h, hw_ram := m\<rparr>)"
    if "serving d port disk s" "m_hhdm h = m_hhdm (hw_heap s)"
    by (rule serving_same [OF that(1)]) (use that serving_live in \<open>auto simp: same_devices_def live_def\<close>)
  show "serving d port disk s'" if "serving d port disk s" "printed s bs s'"
    by (rule serving_same [OF that(1)])
      (use that printed_live [OF that(2)] serving_live in \<open>auto simp: same_devices_def printed_def\<close>)
  show "r \<and> (\<forall>i<512 * unat n. hw_ram s' (buf + of_nat i) = disk (512 * unat lba + i))"
    if "serving d port disk s" "0 < n" "n \<le> 8192" "unat lba < 2 ^ 48" "read_sectors d port lba n buf s = Some (r, s')"
    using serving_read [OF that(1,5)] that(2-4) by (simp add: sectors_read_def)
next
  fix h h1 h2 :: mem and sz p :: usize
  show "ample h \<Longrightarrow> mem_inv h" by (erule ample.cases) simp
  show "p \<noteq> 0 \<and> ample h2"
    if "ample h" "0 < sz" "sz \<le> 4096" "kmalloc_aligned h sz 4096 = Some (h1, p)" "kfree h1 p sz = Some h2"
    using that by (auto elim: ample.cases)
qed

section \<open>A device and a heap of this kind\<close>

text \<open>
  A device that is always ready and executes the command in the command table when bit 0 of the port's
  issue register is set: it stores the sectors the FIS names where the region descriptor points.
\<close>

definition ideal_dma :: "(nat \<Rightarrow> u8) \<Rightarrow> u64 \<Rightarrow> u64 \<Rightarrow> dev_op list \<Rightarrow> ram \<Rightarrow> ram" where
  "ideal_dma disk ci table tr m =
     (case tr of
        Store a v # _ \<Rightarrow>
          if a = ci \<and> bit v 0
          then store_ram (prdt_base (load_ram (table + 128) 16 m))
                 (bytes_at disk (512 * unat (fis_lba (load_ram table 16 m))) (unat (prdt_count (load_ram (table + 128) 16 m)) + 1)) m
          else m
      | _ \<Rightarrow> m)"

definition ideal_disk :: "ahci \<Rightarrow> nat \<Rightarrow> (nat \<Rightarrow> u8) \<Rightarrow> hw \<Rightarrow> bool" where
  "ideal_disk d port disk s \<longleftrightarrow> live s \<and> hw_reg s = (\<lambda>_ _. 0) \<and> m_hhdm (hw_heap s) = 0 \<and>
     hw_dma s = ideal_dma disk (port_ptr d port + port_off Ci) (ah_ctba d port) \<and>
     (\<forall>a v tr. hw_trace s \<noteq> Store a v # tr)"

lemma unat_byte_count: "0 < n \<Longrightarrow> unat (byte_count n - 1) + 1 = 512 * unat n"
proof -
  assume "0 < n"
  then have n: "0 < unat n" "unat n < 65536"
    using unsigned_less [where 'a = nat, of n] by (simp_all add: word_less_nat_alt)
  then have "unat (byte_count n) = 512 * unat n"
    using \<open>0 < n\<close> by (simp add: byte_count_def unat_word_ariths unat_trunc)
  then show ?thesis using n by (subst unat_sub) (simp_all add: word_le_nat_alt)
qed

lemma ideal_disk_reads:
  assumes "port < MAX_PORTS" "bit (ah_active d) port" "ideal_disk d port disk s"
  shows "\<exists>s'. read_sectors d port lba n buf s = Some (True, s') \<and> ideal_disk d port disk s' \<and>
    (0 < n \<longrightarrow> unat lba < 2 ^ 48 \<longrightarrow> sectors_read disk lba n buf s')"
proof -
  have act: "ah_active d AND 2 ^ port \<noteq> 0" using assms(2) by (simp add: and_exp_eq_0_iff_not_bit)
  have same: "ideal_dma disk ci tab (hw_trace s) m = m" for ci tab m
    using assms(3) by (auto simp: ideal_dma_def ideal_disk_def split: list.splits dev_op.splits)
  let ?rd = "\<lambda>f t. t\<lparr>hw_trace := Load (port_ptr d port + port_off f) 0 # hw_trace t\<rparr>"
  let ?ready = "?rd Tfd s"
  have ready: "wait_port_ready d port s = (True, ?ready)"
  proof -
    have n: "PORT_POLLS = Suc 999999" by (simp add: PORT_POLLS_def)
    show ?thesis
      unfolding wait_port_ready_def n poll_port.simps
      using assms(3) same by (simp add: port_read_def mmio_read_def ideal_disk_def)
  qed
  let ?set = "setup_command d port ATA_CMD_READ_DMA_EXT lba n buf (byte_count n) False ?ready"
  let ?go = "port_write d port Ci 1 (port_write d port Isr 0xFFFFFFFF ?set)"
  let ?ram = "hw_dma s (hw_trace ?go) (hw_ram ?set)"
  let ?fin = "?rd Tfd (?rd Ci (?go\<lparr>hw_ram := ?ram\<rparr>))"
  have frame: "hw_dma ?go = hw_dma s" "hw_reg ?go = hw_reg s" "hw_ram ?go = hw_ram ?set" "hw_heap ?go = hw_heap s"
    "hw_io ?go = hw_io s"
    by (simp_all add: port_write_def mmio_write_def setup_command_def Let_def)
  have issue: "issue_command d port ?set = Some (True, ?fin)"
  proof -
    have n: "ISSUE_POLLS = Suc 9999999" by (simp add: ISSUE_POLLS_def)
    show ?thesis
      unfolding issue_command_def n issue_loop.simps
      using assms(3) frame by (simp add: port_read_def mmio_read_def ideal_disk_def Let_def) (simp add: ideal_dma_def)
  qed
  have "read_sectors d port lba n buf s = Some (True, ?fin)"
    using assms(1,3) act ready issue by (simp add: read_sectors_def virt_to_phys_def ideal_disk_def)
  moreover have "ideal_disk d port disk ?fin"
    using assms(3) frame by (simp add: ideal_disk_def live_def)
  moreover have "sectors_read disk lba n buf ?fin" if "0 < n" "unat lba < 2 ^ 48"
  proof -
    have "take_bit 48 lba = lba"
      by (rule unsigned_word_eqI [where 'a = nat]) (use that(2) in \<open>simp add: unsigned_take_bit_eq take_bit_nat_eq_self\<close>)
    then have "?ram = store_ram buf (bytes_at disk (512 * unat lba) (512 * unat n)) (hw_ram ?set)"
      using assms(3) unat_byte_count [OF that(1)]
      by (simp add: ideal_disk_def ideal_dma_def port_write_def mmio_write_def setup_command_table fis_fields prdt_fields)
    moreover have "512 * unat n < 2 ^ 64" using unsigned_less [where 'a = nat, of n] by simp
    ultimately show ?thesis by (simp add: sectors_read_def store_ram_def bytes_at_def unat_of_usz)
  qed
  ultimately show ?thesis by blast
qed

lemma ideal_disk_serves:
  assumes "port < MAX_PORTS" "bit (ah_active d) port" "ideal_disk d port disk s"
  shows "serving d port disk s"
  using assms(3)
proof (coinduction arbitrary: s)
  case (serving s)
  have step: "ideal_disk d port disk s' \<and> (0 < n \<longrightarrow> n \<le> 8192 \<longrightarrow> unat lba < 2 ^ 48 \<longrightarrow> r \<and> sectors_read disk lba n buf s')"
    if "same_devices s t" "live t" "read_sectors d port lba n buf t = Some (r, s')" for t lba n buf r s'
  proof -
    have "ideal_disk d port disk t" using that(1,2) serving by (simp add: ideal_disk_def same_devices_def)
    from ideal_disk_reads [OF assms(1,2) this, of lba n buf] that(3) show ?thesis by auto
  qed
  have "live s" using serving by (simp add: ideal_disk_def)
  with step show ?case by blast
qed

definition one_page_heap :: mem where
  "one_page_heap = mem_init mem_boot 0 [\<lparr>me_usable = True, me_base = 0x100000, me_length = 0x1000\<rparr>]"

lemma slab_free_new: "slab_free (map slab_cache_new ns) p b = (map slab_cache_new ns, b, False)"
  by (induction ns) (simp_all add: slab_cache_free_def slab_cache_new_def)

lemma one_page_heap_ample: "ample one_page_heap"
proof -
  let ?h = one_page_heap
  let ?b = "buddy_init buddy_new 0x100000 0x1000"
  have h: "?h = \<lparr>m_buddy = ?b, m_slab = slab_new, m_hhdm = 0\<rparr>"
    by (simp add: one_page_heap_def mem_init_def mem_boot_def)
  have inv: "mem_inv ?h"
    unfolding one_page_heap_def by (rule mem_inv_init [of _ "0x100000" "0x1000"]; simp)
  have b: "bd_max_order ?b = 0" "bd_total_pages ?b = 1" "bd_base ?b = 0x100000" "bd_bitmap ?b = (\<lambda>_. 0)"
    by (simp_all add: buddy_init_def PAGE_SIZE_def) (subst init_order.simps, simp)
  let ?b1 = "?b\<lparr>bd_bitmap := (\<lambda>_. 0)(0 := 1)\<rparr>"
  have bi: "bit_index ?b 0 0 = 0" "bit_index ?b1 0 0 = 0" by (simp_all add: bit_index_def)
  have alloc: "buddy_alloc_pages ?b 0 = (?b1, Some 0x100000)"
    using b bi by (simp add: buddy_alloc_pages_def find_free_def is_free_def buddy_get_bit_def BITMAP_SIZE_val
        mark_allocated_def buddy_set_bit_def page_addr_def)
  have free: "buddy_free_pages ?b1 0x100000 0 = ?b"
    using b bi by (simp add: buddy_free_pages_def mark_free_def buddy_clear_bit_def BITMAP_SIZE_val
        buddy_init_def PAGE_SIZE_def fun_upd_idem) (subst merge_up.simps, simp)
  have pages: "order_for (pages_for sz) 0 = Some 0" if "0 < sz" "sz \<le> 4096" for sz
  proof -
    have "pages_for sz = 1" using that by (simp add: pages_for_def PAGE_SIZE_def div_nat_eqI)
    then show ?thesis by (subst order_for.simps) simp
  qed
  have al: "kmalloc_aligned ?h sz 4096 = Some (?h\<lparr>m_buddy := ?b1\<rparr>, 0x100000)" if "0 < sz" "sz \<le> 4096" for sz
    using that alloc pages [of 4096] by (auto simp: kmalloc_aligned_def alloc_rounded_def h)
  have fr: "kfree (?h\<lparr>m_buddy := ?b1\<rparr>) 0x100000 sz = Some ?h" if "0 < sz" "sz \<le> 4096" for sz
    using that pages [OF that] free by (simp add: kfree_def free_rounded_def h slab_new_def slab_free_new)
  show ?thesis
    by (coinduction) (use inv al fr in auto)
qed

section \<open>Properties\<close>

text \<open>
  C30: the block of a file. On a disk that serves its reads, with a heap that keeps a page, and for block
  sizes up to 4096, \<open>resolve_block\<close> returns the block the reference tree names, for every 32-bit logical
  block number: direct, through one, two or three levels of pointer blocks, or 0 for a hole and for
  everything past the tree.
\<close>

theorem resolve_block_follows_tree:
  assumes "serving d port disk s" "ample (hw_heap s)" "block_size sb = bsz" "bsz \<in> {1024, 2048, 4096}"
  shows "\<exists>s'. resolve_block d port sb ino l s = Some (block_ref disk (unat bsz) ino (unat l), s') \<and>
    serving d port disk s' \<and> ample (hw_heap s')"
proof -
  have "unat bsz = 4 * (unat bsz div 4)" "0 < unat bsz div 4" "unat bsz div 4 \<le> 1024" using assms(4) by auto
  from served.resolve_block_data [OF assms(1-3) this] show ?thesis .
qed

text \<open>One pointer block, number 5, whose first pointer is 7.\<close>

definition pointer_disk :: "nat \<Rightarrow> u8" where
  "pointer_disk a = (if a = 5120 then 7 else 0)"

definition disk_port :: ahci where
  "disk_port = ahci_boot\<lparr>ah_active := 1, ah_clb := (\<lambda>_. 0x1000), ah_ctba := (\<lambda>_. 0x2000)\<rparr>"

definition disk_hw :: "(nat \<Rightarrow> u8) \<Rightarrow> hw" where
  "disk_hw disk = pci_hw\<lparr>hw_heap := one_page_heap, hw_trace := [], hw_reg := (\<lambda>_ _. 0),
     hw_dma := ideal_dma disk (port_ptr disk_port 0 + port_off Ci) (ah_ctba disk_port 0)\<rparr>"

definition sample_inode :: inode where
  "sample_inode = (inode_at 0 (\<lambda>_. 0))\<lparr>i_mode := S_IFREG, i_size := 100, i_block := [3, 0, 0, 0, 0, 0, 0, 0, 0, 0, 0, 0, 5, 0, 0]\<rparr>"

lemma disk_hw_serves: "serving disk_port 0 disk (disk_hw disk)" "ample (hw_heap (disk_hw disk))"
proof -
  have "m_hhdm one_page_heap = 0" by (simp add: one_page_heap_def mem_init_def mem_boot_def)
  then have "ideal_disk disk_port 0 disk (disk_hw disk)"
    by (simp add: ideal_disk_def disk_hw_def live_def pci_hw_def tx_live_def)
  then show "serving disk_port 0 disk (disk_hw disk)"
    by (rule ideal_disk_serves [rotated 2]) (simp_all add: MAX_PORTS_def disk_port_def)
  show "ample (hw_heap (disk_hw disk))" using one_page_heap_ample by (simp add: disk_hw_def)
qed

theorem resolve_block_follows_tree_witness:
  "\<exists>s'. resolve_block disk_port 0 sample_super sample_inode 12 (disk_hw pointer_disk) = Some (7, s')"
proof -
  have "block_ref pointer_disk 1024 sample_inode 12 = 7"
    by (simp add: block_ref_def block_path_def tree_span_def sample_inode_def pointer_at_def bytes_at_def pointer_disk_def
        upt_rec from_le_def)
  then show ?thesis
    using resolve_block_follows_tree [OF disk_hw_serves, of sample_super 1024 sample_inode 12 pointer_disk]
    by (auto simp: sample_super_sizes)
qed



text \<open>
  With 8192-byte blocks the number of blocks under the triple-indirect root, \<open>2 ^ 33\<close>, wraps to 0: all of
  them are taken for holes, without a read.
\<close>

theorem large_blocks_lose_the_triple_tree:
  assumes "block_size sb = 8192" "12 + 2048 + 2048\<^sup>2 \<le> unat l"
  shows "resolve_block d port sb ino l s = Some (0, s)"
proof -
  let ?pw = "8192 div 4 :: u32"
  have pw: "?pw = 2048" "?pw * ?pw = 0x400000" "?pw * ?pw * ?pw = 0" by simp_all
  have l1: "unat (l - 12) = unat l - 12" using assms(2) by (subst unat_sub) (simp_all add: word_le_nat_alt)
  have l2: "unat (l - 12 - 2048) = unat l - 12 - 2048" using assms(2) l1 by (subst unat_sub) (simp_all add: word_le_nat_alt)
  have "\<not> l < 12" "\<not> l - 12 < 2048" "\<not> l - 12 - 2048 < 0x400000"
    using assms(2) l1 l2 by (simp_all add: word_less_nat_alt)
  then show ?thesis unfolding resolve_block_def Let_def assms(1) pw(3) by simp
qed

text \<open>
  A pointer block that cannot be read counts as a hole: the block of the file is filled with zeros, and
  the file is delivered as if it had been read.
\<close>

theorem unreadable_pointer_becomes_zeros:
  assumes "block_size sb = 1024" "i_block ino ! 12 = b" "b \<noteq> 0" "buf + off < 2 ^ 64"
    and "read_bytes d port (ucast b * 1024) 4 s = Some (None, s')"
  shows "data_loop 1 12 left off d port sb ino buf s =
    Some (True, s'\<lparr>hw_ram := fill_ram (of_nat (buf + off)) (min left 1024) 0 (hw_ram s')\<rparr>)"
proof -
  have "resolve_block d port sb ino 12 s = Some (0, s')"
    using assms by (simp add: resolve_block_def read_block_ptr_def Let_def)
  then show ?thesis using assms(1) by (simp add: Let_def)
qed

end
