(* ===== verification/Cpu.thy ===== *)
theory Cpu
  imports Ports
begin

text \<open>
  Processor features and clocks: the rest of \<open>src/kern/arch/x86_64/cpu.rs\<close> (model-specific registers,
  the interrupt flag, \<open>cpuid\<close>), the set-up of SSE and AVX in \<open>sse.rs\<close> and the time stamp counter in
  \<open>tsc.rs\<close>. What \<open>cpuid\<close> answers and what the counter reads are parameters.
\<close>

section \<open>Registers\<close>

record cpu =
  cpu_id :: "u32 \<Rightarrow> u32 \<times> u32 \<times> u32 \<times> u32"
  cpu_msr :: "u32 \<Rightarrow> u64"
  cpu_rflags :: u64
  cpu_cr0 :: u64
  cpu_cr4 :: u64
  cpu_xcr0 :: u64

text \<open>\<open>rdmsr\<close> and \<open>wrmsr\<close> move the register through \<open>edx:eax\<close>.\<close>

definition rdmsr :: "u32 \<Rightarrow> cpu \<Rightarrow> u64" where
  "rdmsr msr c =
     (let lo = ucast (cpu_msr c msr) :: u32; hi = ucast (drop_bit 32 (cpu_msr c msr)) :: u32
      in push_bit 32 (ucast hi) OR ucast lo)"

definition wrmsr :: "u32 \<Rightarrow> u64 \<Rightarrow> cpu \<Rightarrow> cpu" where
  "wrmsr msr val c =
     (let lo = ucast val :: u32; hi = ucast (drop_bit 32 val) :: u32
      in c\<lparr>cpu_msr := (cpu_msr c)(msr := push_bit 32 (ucast hi) OR ucast lo)\<rparr>)"

text \<open>The interrupt flag is bit 9 of \<open>rflags\<close>.\<close>

definition cli :: "cpu \<Rightarrow> cpu" where
  "cli c = c\<lparr>cpu_rflags := unset_bit 9 (cpu_rflags c)\<rparr>"

definition sti :: "cpu \<Rightarrow> cpu" where
  "sti c = c\<lparr>cpu_rflags := set_bit 9 (cpu_rflags c)\<rparr>"

definition save_irq :: "cpu \<Rightarrow> u64 \<times> cpu" where
  "save_irq c = (cpu_rflags c, cli c)"

definition restore_irq :: "u64 \<Rightarrow> cpu \<Rightarrow> cpu" where
  "restore_irq flags c = (if flags AND 0x200 \<noteq> 0 then sti c else c)"

section \<open>\<open>cpuid\<close>\<close>

definition cpuid :: "u32 \<Rightarrow> cpu \<Rightarrow> u32 \<times> u32 \<times> u32 \<times> u32" where
  "cpuid leaf c = cpu_id c leaf"

definition cpu_vendor :: "cpu \<Rightarrow> u8 list" where
  "cpu_vendor c = (let (_, ebx, ecx, edx) = cpuid 0 c in to_le 4 ebx @ to_le 4 edx @ to_le 4 ecx)"

definition has_feature_sse :: "cpu \<Rightarrow> bool" where
  "has_feature_sse c = (let (_, _, _, edx) = cpuid 1 c in edx AND push_bit 25 1 \<noteq> 0)"

definition has_feature_sse2 :: "cpu \<Rightarrow> bool" where
  "has_feature_sse2 c = (let (_, _, _, edx) = cpuid 1 c in edx AND push_bit 26 1 \<noteq> 0)"

definition has_feature_sse3 :: "cpu \<Rightarrow> bool" where
  "has_feature_sse3 c = (let (_, _, ecx, _) = cpuid 1 c in ecx AND push_bit 0 1 \<noteq> 0)"

definition has_feature_sse41 :: "cpu \<Rightarrow> bool" where
  "has_feature_sse41 c = (let (_, _, ecx, _) = cpuid 1 c in ecx AND push_bit 19 1 \<noteq> 0)"

definition has_feature_sse42 :: "cpu \<Rightarrow> bool" where
  "has_feature_sse42 c = (let (_, _, ecx, _) = cpuid 1 c in ecx AND push_bit 20 1 \<noteq> 0)"

definition has_feature_avx :: "cpu \<Rightarrow> bool" where
  "has_feature_avx c = (let (_, _, ecx, _) = cpuid 1 c in ecx AND push_bit 28 1 \<noteq> 0)"

definition has_tsc :: "cpu \<Rightarrow> bool" where
  "has_tsc c = (let (_, _, _, edx) = cpuid 1 c in edx AND push_bit 4 1 \<noteq> 0)"

definition has_invariant_tsc :: "cpu \<Rightarrow> bool" where
  "has_invariant_tsc c =
     (let (max_leaf, _, _, _) = cpuid 0x80000000 c
      in if max_leaf < 0x80000007 then False
         else let (_, _, _, edx) = cpuid 0x80000007 c in edx AND push_bit 8 1 \<noteq> 0)"

definition lapic_id :: "cpu \<Rightarrow> u32" where
  "lapic_id c = (let (_, ebx, _, _) = cpuid 1 c in drop_bit 24 ebx)"

section \<open>\<open>sse::init\<close>\<close>

definition sse_init :: "cpu \<Rightarrow> cpu" where
  "sse_init c =
     (if \<not> has_feature_sse c then c
      else let cr0 = cpu_cr0 c;
               cr0 = cr0 AND NOT (push_bit 2 1);
               cr0 = cr0 OR push_bit 1 1;
               c = c\<lparr>cpu_cr0 := cr0\<rparr>;
               cr4 = cpu_cr4 c;
               cr4 = cr4 OR push_bit 9 1;
               cr4 = cr4 OR push_bit 10 1;
               cr4 = (if has_feature_avx c then cr4 OR push_bit 18 1 else cr4);
               c = c\<lparr>cpu_cr4 := cr4\<rparr>
           in if has_feature_avx c then c\<lparr>cpu_xcr0 := 0x7\<rparr> else c)"

section \<open>The time stamp counter\<close>

text \<open>\<open>ts_stamps\<close> is what the successive reads of the counter return; \<open>ts_freq\<close> is \<open>TSC_FREQ_KHZ\<close>.\<close>

record tsc =
  ts_io :: io
  ts_stamps :: "nat \<Rightarrow> u64"
  ts_reads :: nat
  ts_freq :: u64

definition rdtsc :: "tsc \<Rightarrow> u64 \<times> tsc" where
  "rdtsc t =
     (let v = ts_stamps t (ts_reads t); lo = ucast v :: u32; hi = ucast (drop_bit 32 v) :: u32
      in (push_bit 32 (ucast hi) OR ucast lo, t\<lparr>ts_reads := ts_reads t + 1\<rparr>))"

partial_function (option) pit_wait :: "u16 \<Rightarrow> io \<Rightarrow> io option" where
  "pit_wait pit_count s =
     (let s = outb 0x43 0x00 s; (lo, s) = inb 0x40 s; (hi, s) = inb 0x40 s;
          current = push_bit 8 (ucast hi) OR ucast lo
      in if current = 0 \<or> current > pit_count then Some s else pit_wait pit_count s)"

definition pit_count_10ms :: u16 where
  "pit_count_10ms = ucast ((1193182 :: u64) * 10 div 1000)"

definition tsc_calibrate :: "tsc \<Rightarrow> tsc option" where
  "tsc_calibrate t =
     (let pit_count = pit_count_10ms;
          s = outb 0x43 0x30 (ts_io t);
          s = outb 0x40 (ucast (pit_count AND 0xFF)) s;
          s = outb 0x40 (ucast (drop_bit 8 pit_count)) s;
          (start, t) = rdtsc (t\<lparr>ts_io := s\<rparr>)
      in do { s \<leftarrow> pit_wait pit_count (ts_io t);
              let (stop, t) = rdtsc (t\<lparr>ts_io := s\<rparr>);
              let ticks = stop - start;
              Some (t\<lparr>ts_freq := ticks div 10\<rparr>) })"

definition freq_khz :: "tsc \<Rightarrow> u64" where "freq_khz t = ts_freq t"
definition freq_mhz :: "tsc \<Rightarrow> u64" where "freq_mhz t = freq_khz t div 1000"

definition ticks_to_ns :: "tsc \<Rightarrow> u64 \<Rightarrow> u64" where
  "ticks_to_ns t ticks = (let freq = freq_khz t in if freq = 0 then 0 else ticks * 1000000 div freq)"

definition ticks_to_us :: "tsc \<Rightarrow> u64 \<Rightarrow> u64" where
  "ticks_to_us t ticks = (let freq = freq_khz t in if freq = 0 then 0 else ticks * 1000 div freq)"

definition uptime_ms :: "tsc \<Rightarrow> u64 \<times> tsc" where
  "uptime_ms t =
     (let freq = freq_khz t in if freq = 0 then (0, t) else let (v, t) = rdtsc t in (v div freq, t))"

section \<open>Words through two halves\<close>

lemma halves: "push_bit 32 (ucast (ucast (drop_bit 32 v) :: u32)) OR ucast (ucast v :: u32) = (v :: u64)"
  by (rule bit_word_eqI) (auto simp: bit_simps)

theorem msr_roundtrip: "rdmsr msr (wrmsr msr v c) = v" "msr' \<noteq> msr \<Longrightarrow> rdmsr msr' (wrmsr msr v c) = rdmsr msr' c"
  by (simp_all add: rdmsr_def wrmsr_def Let_def halves)

lemma rdtsc_stamp: "rdtsc t = (ts_stamps t (ts_reads t), t\<lparr>ts_reads := ts_reads t + 1\<rparr>)"
  by (simp add: rdtsc_def Let_def halves)

section \<open>Critical sections\<close>

definition irqs_on :: "cpu \<Rightarrow> bool" where
  "irqs_on c \<longleftrightarrow> bit (cpu_rflags c) 9"

lemma irqs_on_ops [simp]: "irqs_on (sti c)" "\<not> irqs_on (cli c)"
  by (simp_all add: irqs_on_def sti_def cli_def bit_simps)

text \<open>
  \<open>save_irq\<close> and \<open>restore_irq\<close> bracket a critical section: interrupts are off inside, and whatever the
  section did, they are on afterwards if and only if they were before or the section left them on.
\<close>

theorem critical_section:
  assumes "save_irq c = (flags, c1)"
  shows "\<not> irqs_on c1 \<and> irqs_on (restore_irq flags c2) = (irqs_on c \<or> irqs_on c2)"
proof -
  have "flags AND 0x200 \<noteq> 0 \<longleftrightarrow> bit flags 9"
    using and_exp_eq_0_iff_not_bit [of flags 9] by simp
  then show ?thesis using assms by (auto simp: save_irq_def restore_irq_def irqs_on_def sti_def cli_def bit_simps)
qed

section \<open>SSE and AVX\<close>

text \<open>
  After \<open>sse::init\<close> on a processor with SSE the coprocessor is not emulated, SSE state saving and
  exceptions are on, and with AVX the extended state covers x87, SSE and AVX; nothing else changes, and
  without SSE nothing at all.
\<close>

theorem sse_init_bits:
  fixes c :: cpu
  defines "c' \<equiv> sse_init c"
  shows "\<not> has_feature_sse c \<Longrightarrow> c' = c"
    and "has_feature_sse c \<Longrightarrow> n < 64 \<Longrightarrow> bit (cpu_cr0 c') n = (if n = 2 then False else n = 1 \<or> bit (cpu_cr0 c) n)"
    and "has_feature_sse c \<Longrightarrow> n < 64 \<Longrightarrow>
      bit (cpu_cr4 c') n = (n = 9 \<or> n = 10 \<or> n = 18 \<and> has_feature_avx c \<or> bit (cpu_cr4 c) n)"
    and "has_feature_sse c \<Longrightarrow> cpu_xcr0 c' = (if has_feature_avx c then 7 else cpu_xcr0 c)"
proof -
  have one: "bit (push_bit k 1 :: u64) n \<longleftrightarrow> n = k" if "k < 64" for k n
    using that by (auto simp: bit_exp_iff)
  note b = one [of 1] one [of 2] one [of 9] one [of 10] one [of 18]
  have avx: "has_feature_avx (c\<lparr>cpu_cr0 := x\<rparr>) = has_feature_avx c"
    "has_feature_avx (c\<lparr>cpu_cr0 := x, cpu_cr4 := y\<rparr>) = has_feature_avx c" for x y
    by (simp_all add: has_feature_avx_def cpuid_def)
  define cr0 where "cr0 = (cpu_cr0 c AND NOT (push_bit 2 1)) OR push_bit 1 1"
  define cr4 where "cr4 = (let r = (cpu_cr4 c OR push_bit 9 1) OR push_bit 10 1 in if has_feature_avx c then r OR push_bit 18 1 else r)"
  have c': "c' = c\<lparr>cpu_cr0 := cr0, cpu_cr4 := cr4, cpu_xcr0 := (if has_feature_avx c then 7 else cpu_xcr0 c)\<rparr>"
    if "has_feature_sse c"
    using that unfolding c'_def sse_init_def cr0_def cr4_def Let_def by (simp add: avx)
  show "\<not> has_feature_sse c \<Longrightarrow> c' = c" by (simp add: c'_def sse_init_def)
  show "bit (cpu_cr0 c') n = (if n = 2 then False else n = 1 \<or> bit (cpu_cr0 c) n)" if "has_feature_sse c" "n < 64"
  proof -
    have "bit cr0 n = (bit (cpu_cr0 c) n \<and> n \<noteq> 2 \<or> n = 1)"
      unfolding cr0_def bit_or_iff bit_and_iff bit_not_iff using b that(2) by auto
    then show ?thesis using c' [OF that(1)] by auto
  qed
  show "bit (cpu_cr4 c') n = (n = 9 \<or> n = 10 \<or> n = 18 \<and> has_feature_avx c \<or> bit (cpu_cr4 c) n)"
    if "has_feature_sse c" "n < 64"
  proof -
    have "bit cr4 n = (n = 9 \<or> n = 10 \<or> n = 18 \<and> has_feature_avx c \<or> bit (cpu_cr4 c) n)"
      unfolding cr4_def Let_def if_distrib [of "\<lambda>w. bit w n"] bit_or_iff using b by auto
    then show ?thesis using c' [OF that(1)] by auto
  qed
  show "has_feature_sse c \<Longrightarrow> cpu_xcr0 c' = (if has_feature_avx c then 7 else cpu_xcr0 c)"
    using c' by simp
qed

section \<open>Calibration\<close>

text \<open>
  The timer counts down: polled often enough, after any history, the two bytes of its counter are 0 or
  above the start value.
\<close>

definition poll_pit :: "(port_op list \<Rightarrow> u16 \<Rightarrow> u8) \<Rightarrow> port_op list \<Rightarrow> port_op list" where
  "poll_pit e tr =
     (let tr = Out 0x43 0 # tr; lo = e tr 0x40; tr' = In 0x40 lo # tr in In 0x40 (e tr' 0x40) # tr')"

definition pit_value :: "(port_op list \<Rightarrow> u16 \<Rightarrow> u8) \<Rightarrow> port_op list \<Rightarrow> u16" where
  "pit_value e tr =
     (let tr = Out 0x43 0 # tr; lo = e tr 0x40; tr' = In 0x40 lo # tr in push_bit 8 (ucast (e tr' 0x40)) OR ucast lo)"

definition pit_live :: "(port_op list \<Rightarrow> u16 \<Rightarrow> u8) \<Rightarrow> u16 \<Rightarrow> bool" where
  "pit_live e count \<longleftrightarrow> (\<forall>tr. \<exists>n. pit_value e ((poll_pit e ^^ n) tr) = 0 \<or> pit_value e ((poll_pit e ^^ n) tr) > count)"

lemma pit_wait_step:
  "pit_wait count s =
     (let s' = s\<lparr>io_trace := poll_pit (io_env s) (io_trace s)\<rparr>
      in if pit_value (io_env s) (io_trace s) = 0 \<or> pit_value (io_env s) (io_trace s) > count then Some s' else pit_wait count s')"
  by (subst pit_wait.simps) (simp add: pit_value_def poll_pit_def inb_def outb_def Let_def)

lemma pit_wait_ends:
  "pit_value (io_env s) ((poll_pit (io_env s) ^^ n) (io_trace s)) = 0 \<or>
   pit_value (io_env s) ((poll_pit (io_env s) ^^ n) (io_trace s)) > count \<Longrightarrow>
   \<exists>s'. pit_wait count s = Some s' \<and> io_env s' = io_env s"
proof (induction n arbitrary: s)
  case 0
  then show ?case by (subst pit_wait_step) (simp add: Let_def)
next
  case (Suc n)
  let ?s = "s\<lparr>io_trace := poll_pit (io_env s) (io_trace s)\<rparr>"
  have "\<exists>s'. pit_wait count ?s = Some s' \<and> io_env s' = io_env ?s"
    using Suc.IH [of ?s] Suc.prems by (simp add: funpow_swap1)
  then show ?case by (subst pit_wait_step) (simp add: Let_def)
qed

lemma calibrate_returns:
  assumes "pit_live (io_env (ts_io t)) pit_count_10ms"
  obtains t' where "tsc_calibrate t = Some t'" "io_env (ts_io t') = io_env (ts_io t)" "ts_stamps t' = ts_stamps t"
    "ts_reads t' = ts_reads t + 2" "freq_khz t' = (ts_stamps t (ts_reads t + 1) - ts_stamps t (ts_reads t)) div 10"
proof -
  let ?s = "outb 0x40 (ucast (drop_bit 8 pit_count_10ms)) (outb 0x40 (ucast (pit_count_10ms AND 0xFF)) (outb 0x43 0x30 (ts_io t)))"
  obtain n where "pit_value (io_env ?s) ((poll_pit (io_env ?s) ^^ n) (io_trace ?s)) = 0 \<or>
      pit_value (io_env ?s) ((poll_pit (io_env ?s) ^^ n) (io_trace ?s)) > pit_count_10ms"
    using assms unfolding pit_live_def by force
  from pit_wait_ends [OF this] obtain s' where "pit_wait pit_count_10ms ?s = Some s'" "io_env s' = io_env ?s" by blast
  then show thesis
    using that by (simp add: tsc_calibrate_def rdtsc_stamp freq_khz_def Let_def)
qed

text \<open>
  With a timer that counts down, calibration returns, and the frequency in kHz is a tenth of the ticks
  between the reads of the counter around the 10 ms.
\<close>

theorem calibrate_measures:
  assumes "pit_live (io_env (ts_io t)) pit_count_10ms"
  shows "\<exists>t'. tsc_calibrate t = Some t' \<and> ts_stamps t' = ts_stamps t \<and> ts_reads t' = ts_reads t + 2 \<and>
    freq_khz t' = (ts_stamps t (ts_reads t + 1) - ts_stamps t (ts_reads t)) div 10"
  using calibrate_returns [OF assms] by metis

text \<open>
  The conversions are exact as long as the product fits 64 bits; \<open>ticks * 10^6\<close> wraps after
  \<open>2^64 / 10^6\<close> ticks, less than two hours at 3 GHz.
\<close>

theorem ticks_to_ns_exact:
  assumes "freq_khz t \<noteq> 0" "unat ticks * 1000000 < 2 ^ 64"
  shows "unat (ticks_to_ns t ticks) = unat ticks * 1000000 div unat (freq_khz t)"
  using assms by (simp add: ticks_to_ns_def Let_def unat_div unat_word_ariths)

theorem ticks_to_ns_wraps:
  assumes "freq_khz t = 3000000"
  shows "ticks_to_ns t 18446744073710 = 0"
  using assms by (simp add: ticks_to_ns_def)

end
