(* ===== verification/Gfx.thy ===== *)
theory Gfx
  imports Devices
begin

text \<open>
  Text on the screen: the framebuffer of \<open>src/kern/gfx/vesa.rs\<close> and the PSF1 fonts of
  \<open>src/kern/gfx/psf.rs\<close>. The framebuffer is memory at its base address; a font borrows the bytes of its
  file.
\<close>

section \<open>The framebuffer\<close>

record framebuffer =
  fb_ptr :: u64
  fb_width :: usize
  fb_height :: usize
  fb_pitch :: usize
  fb_bpp :: usize

definition framebuffer_new :: "u64 \<Rightarrow> usize \<Rightarrow> usize \<Rightarrow> usize \<Rightarrow> usize \<Rightarrow> framebuffer" where
  "framebuffer_new ptr width height pitch bpp =
     \<lparr>fb_ptr = ptr, fb_width = width, fb_height = height, fb_pitch = pitch, fb_bpp = bpp\<rparr>"

definition put_pixel :: "framebuffer \<Rightarrow> usize \<Rightarrow> usize \<Rightarrow> u8 \<Rightarrow> u8 \<Rightarrow> u8 \<Rightarrow> ram \<Rightarrow> ram" where
  "put_pixel fb x y r g b m =
     (if x \<ge> fb_width fb \<or> y \<ge> fb_height fb then m
      else let off = usz (y * fb_pitch fb + x * fb_bpp fb); p = fb_ptr fb;
               m = m(p + of_nat off := b);
               m = m(p + of_nat (off + 1) := g);
               m = m(p + of_nat (off + 2) := r)
           in if fb_bpp fb \<ge> 4 then m(p + of_nat (off + 3) := 0xFF) else m)"

definition fill_rect :: "framebuffer \<Rightarrow> usize \<Rightarrow> usize \<Rightarrow> usize \<Rightarrow> usize \<Rightarrow> u8 \<Rightarrow> u8 \<Rightarrow> u8 \<Rightarrow> ram \<Rightarrow> ram" where
  "fill_rect fb x0 y0 w h r g b m =
     fold (\<lambda>y m. fold (\<lambda>x m. put_pixel fb x y r g b m) [x0..<usz (x0 + w)] m) [y0..<usz (y0 + h)] m"

definition fb_clear :: "framebuffer \<Rightarrow> u8 \<Rightarrow> u8 \<Rightarrow> u8 \<Rightarrow> ram \<Rightarrow> ram" where
  "fb_clear fb r g b m = fill_rect fb 0 0 (fb_width fb) (fb_height fb) r g b m"

section \<open>The Unicode map of a font\<close>

definition MAX_UNICODE_MAPPINGS :: usize where "MAX_UNICODE_MAPPINGS = 512"

record unicode_map =
  um_entries :: "(u16 \<times> u16) list"
  um_len :: usize

definition unicode_map_new :: unicode_map where
  "unicode_map_new = \<lparr>um_entries = replicate MAX_UNICODE_MAPPINGS (0, 0), um_len = 0\<rparr>"

definition um_insert :: "u16 \<Rightarrow> u16 \<Rightarrow> unicode_map \<Rightarrow> unicode_map" where
  "um_insert codepoint glyph u =
     (if um_len u < MAX_UNICODE_MAPPINGS
      then u\<lparr>um_entries := (um_entries u)[um_len u := (codepoint, glyph)], um_len := um_len u + 1\<rparr> else u)"

definition um_lookup :: "u16 \<Rightarrow> unicode_map \<Rightarrow> u16 option" where
  "um_lookup codepoint u =
     map_option (\<lambda>i. snd (um_entries u ! i)) (first_from (\<lambda>i. fst (um_entries u ! i) = codepoint) 0 (um_len u))"

section \<open>Fonts\<close>

definition PSF1_MAGIC :: "u8 list" where "PSF1_MAGIC = [0x36, 0x04]"

record psf_font =
  pf_glyphs :: "u8 list"
  pf_charsize :: usize
  pf_width :: usize
  pf_height :: usize
  pf_num_glyphs :: usize
  pf_unicode_map :: unicode_map

text \<open>The loop over the Unicode table.\<close>

function unicode_loop :: "u8 list \<Rightarrow> usize \<Rightarrow> usize \<Rightarrow> u16 \<Rightarrow> unicode_map \<Rightarrow> unicode_map" where
  "unicode_loop table num_glyphs off glyph_idx u =
     (if off + 1 < length table \<and> unat glyph_idx < num_glyphs
      then let v = ucast (table ! off) OR push_bit 8 (ucast (table ! (off + 1))) :: u16; off = off + 2
           in if v = 0xFFFF then unicode_loop table num_glyphs off (glyph_idx + 1) u
              else if v = 0xFFFE then unicode_loop table num_glyphs off glyph_idx u
              else unicode_loop table num_glyphs off glyph_idx (um_insert v glyph_idx u)
      else u)"
  by pat_completeness auto
termination
  by (relation "measure (\<lambda>(table, num_glyphs, off, glyph_idx, u). length table - off)") auto

declare unicode_loop.simps [simp del]

definition psf_parse :: "u8 list \<Rightarrow> psf_font option" where
  "psf_parse data =
     (if length data < 4 \<or> data ! 0 \<noteq> PSF1_MAGIC ! 0 \<or> data ! 1 \<noteq> PSF1_MAGIC ! 1 then None
      else let mode = data ! 2; charsize = unat (data ! 3);
               num_glyphs = (if mode AND 0x01 \<noteq> 0 then 512 else 256);
               glyph_data_len = num_glyphs * charsize
           in if length data < 4 + glyph_data_len then None
              else let unicode_map =
                         (if mode AND 0x02 \<noteq> 0
                          then unicode_loop (drop (4 + glyph_data_len) data) num_glyphs 0 0 unicode_map_new
                          else unicode_map_new)
                   in Some \<lparr>pf_glyphs = take glyph_data_len (drop 4 data), pf_charsize = charsize, pf_width = 8,
                            pf_height = charsize, pf_num_glyphs = num_glyphs, pf_unicode_map = unicode_map\<rparr>)"

definition glyph_index :: "psf_font \<Rightarrow> u32 \<Rightarrow> usize" where
  "glyph_index f codepoint =
     (if codepoint < 0x80 \<and> unat codepoint < pf_num_glyphs f then unat codepoint
      else case um_lookup (ucast codepoint) (pf_unicode_map f) of Some idx \<Rightarrow> unat idx | None \<Rightarrow> 0x3F)"

definition colour_r :: "u32 \<Rightarrow> u8" where "colour_r c = ucast (drop_bit 16 c AND 0xFF)"
definition colour_g :: "u32 \<Rightarrow> u8" where "colour_g c = ucast (drop_bit 8 c AND 0xFF)"
definition colour_b :: "u32 \<Rightarrow> u8" where "colour_b c = ucast (c AND 0xFF)"

definition draw_row :: "psf_font \<Rightarrow> framebuffer \<Rightarrow> usize \<Rightarrow> usize \<Rightarrow> u8 \<Rightarrow> u32 \<Rightarrow> u32 \<Rightarrow> ram \<Rightarrow> ram" where
  "draw_row f fb x y bits fg bg m =
     fold (\<lambda>col m.
         let c = (if bits AND drop_bit (col mod 8) 0x80 \<noteq> 0 then fg else bg)
         in put_pixel fb (usz (x + col)) y (colour_r c) (colour_g c) (colour_b c) m)
       [0..<pf_width f] m"

fun draw_rows :: "psf_font \<Rightarrow> framebuffer \<Rightarrow> u8 list \<Rightarrow> usize \<Rightarrow> usize \<Rightarrow> u32 \<Rightarrow> u32 \<Rightarrow> nat list \<Rightarrow> ram \<Rightarrow> ram option" where
  "draw_rows f fb glyph x y fg bg [] m = Some m"
| "draw_rows f fb glyph x y fg bg (row # rows) m =
     (if row < length glyph
      then draw_rows f fb glyph x y fg bg rows (draw_row f fb x (usz (y + row)) (glyph ! row) fg bg m) else None)"

definition draw_char ::
  "psf_font \<Rightarrow> framebuffer \<Rightarrow> usize \<Rightarrow> usize \<Rightarrow> u32 \<Rightarrow> u32 \<Rightarrow> u32 \<Rightarrow> ram \<Rightarrow> ram option" where
  "draw_char f fb x y codepoint fg bg m =
     (let idx = glyph_index f codepoint
      in if idx \<ge> pf_num_glyphs f then Some m
         else do { glyph \<leftarrow> slice (pf_glyphs f) (idx * pf_charsize f) ((idx + 1) * pf_charsize f);
                   draw_rows f fb glyph x y fg bg [0..<pf_height f] m })"

text \<open>The string is the list of its characters' code points.\<close>

fun draw_chars ::
  "psf_font \<Rightarrow> framebuffer \<Rightarrow> usize \<Rightarrow> usize \<Rightarrow> usize \<Rightarrow> u32 list \<Rightarrow> u32 \<Rightarrow> u32 \<Rightarrow> ram \<Rightarrow> ram option" where
  "draw_chars f fb x cx cy [] fg bg m = Some m"
| "draw_chars f fb x cx cy (ch # chs) fg bg m =
     (if ch = 0x0A then draw_chars f fb x x (usz (cy + pf_height f)) chs fg bg m
      else let (cx, cy) = (if usz (cx + pf_width f) > fb_width fb then (x, usz (cy + pf_height f)) else (cx, cy))
           in if usz (cy + pf_height f) > fb_height fb then Some m
              else do { m \<leftarrow> draw_char f fb cx cy ch fg bg m;
                        draw_chars f fb x (usz (cx + pf_width f)) cy chs fg bg m })"

definition draw_str ::
  "psf_font \<Rightarrow> framebuffer \<Rightarrow> usize \<Rightarrow> usize \<Rightarrow> u32 list \<Rightarrow> u32 \<Rightarrow> u32 \<Rightarrow> ram \<Rightarrow> ram option" where
  "draw_str f fb x y s fg bg m = draw_chars f fb x x y s fg bg m"

section \<open>The Unicode map is an association list, oldest entry first\<close>

definition um_wf :: "unicode_map \<Rightarrow> bool" where
  "um_wf u \<longleftrightarrow> length (um_entries u) = MAX_UNICODE_MAPPINGS \<and> um_len u \<le> MAX_UNICODE_MAPPINGS"

definition um_assoc :: "unicode_map \<Rightarrow> (u16 \<times> u16) list" where
  "um_assoc u = take (um_len u) (um_entries u)"

lemma um_new [simp]: "um_wf unicode_map_new" "um_assoc unicode_map_new = []"
  by (simp_all add: um_wf_def um_assoc_def unicode_map_new_def)

lemma um_insert [simp]:
  assumes "um_wf u"
  shows "um_wf (um_insert c g u)"
    and "um_assoc (um_insert c g u) = (if um_len u < MAX_UNICODE_MAPPINGS then um_assoc u @ [(c, g)] else um_assoc u)"
  using assms by (auto simp: um_wf_def um_assoc_def um_insert_def take_Suc_conv_app_nth)

lemma map_of_absent: "\<forall>i<length xs. fst (xs ! i) \<noteq> k \<Longrightarrow> map_of xs k = None"
  unfolding map_of_eq_None_iff by (metis imageE in_set_conv_nth)

lemma map_of_first:
  "map_of xs k = map_option (\<lambda>i. snd (xs ! i)) (first_from (\<lambda>i. fst (xs ! i) = k) 0 (length xs))"
proof (cases "first_from (\<lambda>i. fst (xs ! i) = k) 0 (length xs)")
  case None
  then have "map_of xs k = None" by (intro map_of_absent) (simp add: first_from_None)
  then show ?thesis using None by simp
next
  case (Some i)
  note i = first_from_SomeD [OF Some]
  have "map_of (take i xs) k = None" using i(2,4) by (intro map_of_absent) simp
  then have "map_of (take i xs @ xs ! i # drop (Suc i) xs) k = Some (snd (xs ! i))"
    using i(3) by (cases "xs ! i") (auto simp: map_add_def)
  moreover have "xs = take i xs @ xs ! i # drop (Suc i) xs" using i(2) by (simp add: id_take_nth_drop)
  ultimately show ?thesis using Some by simp
qed

lemma first_from_cong: "(\<And>i. j \<le> i \<Longrightarrow> i < j + n \<Longrightarrow> p i = q i) \<Longrightarrow> first_from p j n = first_from q j n"
  by (induction p j n rule: first_from.induct) auto

lemma um_lookup_map_of:
  assumes "um_wf u" shows "um_lookup c u = map_of (um_assoc u) c"
proof -
  have len: "length (um_assoc u) = um_len u" using assms by (simp add: um_wf_def um_assoc_def)
  have nth: "um_assoc u ! i = um_entries u ! i" if "i < um_len u" for i using that by (simp add: um_assoc_def)
  have "first_from (\<lambda>i. fst (um_assoc u ! i) = c) 0 (um_len u) = first_from (\<lambda>i. fst (um_entries u ! i) = c) 0 (um_len u)"
    by (rule first_from_cong) (simp add: nth)
  then show ?thesis
    unfolding map_of_first len um_lookup_def using nth
    by (auto simp: first_from_Some dest: first_from_SomeD(2) split: option.splits intro!: option.map_cong0)
qed

section \<open>What is on the screen\<close>

text \<open>A framebuffer with rows that hold their pixels, all of it below the top of the address space.\<close>

definition fb_wf :: "framebuffer \<Rightarrow> bool" where
  "fb_wf fb \<longleftrightarrow> 3 \<le> fb_bpp fb \<and> fb_width fb * fb_bpp fb \<le> fb_pitch fb \<and> fb_height fb * fb_pitch fb \<le> 2 ^ 63"

definition in_fb :: "framebuffer \<Rightarrow> u64 \<Rightarrow> bool" where
  "in_fb fb a \<longleftrightarrow> unat (a - fb_ptr fb) < fb_height fb * fb_pitch fb"

definition pixel_off :: "framebuffer \<Rightarrow> nat \<Rightarrow> nat \<Rightarrow> nat" where
  "pixel_off fb x y = y * fb_pitch fb + x * fb_bpp fb"

definition pixel_of :: "framebuffer \<Rightarrow> nat \<Rightarrow> nat \<Rightarrow> ram \<Rightarrow> u8 \<times> u8 \<times> u8" where
  "pixel_of fb x y m =
     (let p = fb_ptr fb + of_nat (pixel_off fb x y) in (m (p + 2), m (p + 1), m p))"

lemma pixel_fits:
  assumes "fb_wf fb" "x < fb_width fb" "y < fb_height fb"
  shows "pixel_off fb x y + fb_bpp fb \<le> fb_height fb * fb_pitch fb"
proof -
  have "x * fb_bpp fb + fb_bpp fb \<le> fb_width fb * fb_bpp fb"
    using assms(2) mult_le_mono1 [of "Suc x" "fb_width fb" "fb_bpp fb"] by simp
  also have "\<dots> \<le> fb_pitch fb" using assms(1) by (simp add: fb_wf_def)
  finally have "pixel_off fb x y + fb_bpp fb \<le> Suc y * fb_pitch fb" by (simp add: pixel_off_def)
  also have "\<dots> \<le> fb_height fb * fb_pitch fb" using assms(3) by (intro mult_le_mono1) simp
  finally show ?thesis .
qed

lemma pixel_apart_row:
  assumes "fb_wf fb" "x < fb_width fb" "y < y'"
  shows "pixel_off fb x y + fb_bpp fb \<le> pixel_off fb x' y'"
proof -
  have "x * fb_bpp fb + fb_bpp fb \<le> fb_width fb * fb_bpp fb"
    using assms(2) mult_le_mono1 [of "Suc x" "fb_width fb" "fb_bpp fb"] by simp
  also have "\<dots> \<le> fb_pitch fb" using assms(1) by (simp add: fb_wf_def)
  finally have "pixel_off fb x y + fb_bpp fb \<le> Suc y * fb_pitch fb" by (simp add: pixel_off_def)
  also have "\<dots> \<le> y' * fb_pitch fb" using assms(3) by (intro mult_le_mono1) simp
  finally show ?thesis by (simp add: pixel_off_def)
qed

lemma pixel_apart:
  assumes "fb_wf fb" "x < fb_width fb" "x' < fb_width fb" "(x, y) \<noteq> (x', y')"
  shows "pixel_off fb x y + fb_bpp fb \<le> pixel_off fb x' y' \<or> pixel_off fb x' y' + fb_bpp fb \<le> pixel_off fb x y"
proof -
  consider "y < y'" | "y' < y" | "y = y'" "x < x'" | "y = y'" "x' < x" using assms(4) by fastforce
  then show ?thesis
  proof cases
    case 3
    then show ?thesis using mult_le_mono1 [of "Suc x" x' "fb_bpp fb"] by (simp add: pixel_off_def)
  next
    case 4
    then show ?thesis using mult_le_mono1 [of "Suc x'" x "fb_bpp fb"] by (simp add: pixel_off_def)
  qed (use pixel_apart_row assms in blast)+
qed

lemma at_offset:
  assumes "k < 2 ^ 64"
  shows "p + of_nat k = a \<longleftrightarrow> unat (a - p :: u64) = k"
proof -
  have "p + of_nat k = a \<longleftrightarrow> a - p = of_nat k" by (auto simp: algebra_simps)
  then show ?thesis using unat_of_usz [OF assms] by (simp add: word_unat_eq_iff)
qed

lemma put_pixel_at:
  assumes "fb_wf fb" "x < fb_width fb" "y < fb_height fb"
  shows "put_pixel fb x y r g b m a =
    (let k = unat (a - fb_ptr fb) in
       if k = pixel_off fb x y then b else if k = pixel_off fb x y + 1 then g
       else if k = pixel_off fb x y + 2 then r
       else if k = pixel_off fb x y + 3 \<and> 4 \<le> fb_bpp fb then 0xFF else m a)"
proof -
  have fit: "pixel_off fb x y + fb_bpp fb \<le> 2 ^ 63" "3 \<le> fb_bpp fb"
    using pixel_fits [OF assms] assms(1) by (simp_all add: fb_wf_def)
  have at: "a = fb_ptr fb + of_nat (pixel_off fb x y + i) \<longleftrightarrow> unat (a - fb_ptr fb) = pixel_off fb x y + i" if "i < 4" for i
    using at_offset [of "pixel_off fb x y + i" "fb_ptr fb" a] fit that by (auto simp: eq_commute [of a])
  have "usz (y * fb_pitch fb + x * fb_bpp fb) = pixel_off fb x y" using fit by (simp add: pixel_off_def)
  then show ?thesis
    using assms(2,3) at [of 0] at [of 1] at [of 2] at [of 3]
    by (simp add: put_pixel_def Let_def del: of_nat_add)
qed

lemma put_pixel_outside:
  assumes "fb_wf fb" "\<not> in_fb fb a"
  shows "put_pixel fb x y r g b m a = m a"
proof (cases "x < fb_width fb \<and> y < fb_height fb")
  case True
  then have "pixel_off fb x y + fb_bpp fb \<le> fb_height fb * fb_pitch fb" using pixel_fits [OF assms(1)] by simp
  then show ?thesis using True assms by (auto simp: put_pixel_at in_fb_def fb_wf_def Let_def)
qed (auto simp: put_pixel_def)

lemma pixel_put:
  assumes "fb_wf fb" "x' < fb_width fb" "y' < fb_height fb"
  shows "pixel_of fb x' y' (put_pixel fb x y r g b m) = (if x = x' \<and> y = y' then (r, g, b) else pixel_of fb x' y' m)"
proof (cases "x < fb_width fb \<and> y < fb_height fb")
  case True
  let ?o = "pixel_off fb x y" and ?o' = "pixel_off fb x' y'"
  have fit: "?o' + 3 \<le> 2 ^ 63" "3 \<le> fb_bpp fb" using pixel_fits [OF assms] assms(1) by (simp_all add: fb_wf_def)
  have un: "unat (fb_ptr fb + of_nat ?o' + of_nat i - fb_ptr fb) = ?o' + i" if "i < 3" for i
  proof -
    have "fb_ptr fb + of_nat ?o' + of_nat i - fb_ptr fb = of_nat (?o' + i)" by simp
    then show ?thesis using unat_of_usz [of "?o' + i"] fit(1) that by simp
  qed
  have val: "put_pixel fb x y r g b m (fb_ptr fb + of_nat ?o' + of_nat i) =
      (if x = x' \<and> y = y' then [b, g, r] ! i else m (fb_ptr fb + of_nat ?o' + of_nat i))" if "i < 3" for i
  proof (cases "x = x' \<and> y = y'")
    case same: True
    have "i = 0 \<or> i = 1 \<or> i = 2" using that by linarith
    then show ?thesis using same True un [OF that] assms(1) by (auto simp: put_pixel_at Let_def)
  next
    case False
    then have "(x, y) \<noteq> (x', y')" by simp
    from pixel_apart [OF assms(1) _ assms(2) this] True have ap: "?o + fb_bpp fb \<le> ?o' \<or> ?o' + fb_bpp fb \<le> ?o" by simp
    have "?o' + i \<noteq> ?o" "?o' + i \<noteq> ?o + 1" "?o' + i \<noteq> ?o + 2" "\<not> (?o' + i = ?o + 3 \<and> 4 \<le> fb_bpp fb)"
      using ap that fit(2) by linarith+
    then show ?thesis
      using False put_pixel_at [OF assms(1), of x y r g b m] True un [OF that] by (simp only: Let_def if_False if_cancel conj_commute)
  qed
  show ?thesis using val [of 0] val [of 1] val [of 2] by (simp add: pixel_of_def Let_def)
qed (use assms in \<open>auto simp: put_pixel_def\<close>)

lemma row_pixels:
  assumes "fb_wf fb" "x' < fb_width fb" "y' < fb_height fb"
  shows "x + n \<le> 2 ^ 64 \<Longrightarrow>
    pixel_of fb x' y' (fold (\<lambda>col. put_pixel fb (usz (x + col)) y (r col) (g col) (b col)) [0..<n] m) =
    (if y' = y \<and> x \<le> x' \<and> x' < x + n then (r (x' - x), g (x' - x), b (x' - x)) else pixel_of fb x' y' m)"
proof (induction n)
  case (Suc n)
  then have n: "usz (x + n) = x + n" by simp
  show ?case
  proof (cases "y' = y \<and> x' = x + n")
    case True
    then show ?thesis
      using n pixel_put [OF assms, of "x + n" y "r n" "g n" "b n"
          "fold (\<lambda>col. put_pixel fb (usz (x + col)) y (r col) (g col) (b col)) [0..<n] m"] by simp
  next
    case False
    then show ?thesis using n Suc by (auto simp: pixel_put [OF assms])
  qed
qed auto

lemma row_outside:
  assumes "fb_wf fb" "\<not> in_fb fb a"
  shows "fold (\<lambda>col. put_pixel fb (c col) y (r col) (g col) (b col)) cols m a = m a"
  by (induction cols arbitrary: m) (simp_all add: put_pixel_outside [OF assms])

definition rgb :: "u32 \<Rightarrow> u8 \<times> u8 \<times> u8" where
  "rgb c = (colour_r c, colour_g c, colour_b c)"

lemma column_bit: "col < 8 \<Longrightarrow> (bits :: u8) AND drop_bit (col mod 8) 0x80 \<noteq> 0 \<longleftrightarrow> bit bits (7 - col)"
proof -
  assume "col < 8"
  then have "col \<in> {0, 1, 2, 3, 4, 5, 6, 7}" by auto
  then have "drop_bit (col mod 8) (0x80 :: u8) = 2 ^ (7 - col)" by auto
  then show ?thesis by (simp add: and_exp_eq_0_iff_not_bit)
qed

lemma draw_row_pixel:
  assumes "fb_wf fb" "x' < fb_width fb" "y' < fb_height fb" "pf_width f = 8" "x + 8 \<le> 2 ^ 64"
  shows "pixel_of fb x' y' (draw_row f fb x y bits fg bg m) =
    (if y' = y \<and> x \<le> x' \<and> x' < x + 8 then rgb (if bit bits (7 - (x' - x)) then fg else bg) else pixel_of fb x' y' m)"
  unfolding draw_row_def Let_def assms(4) row_pixels [OF assms(1-3,5)]
  using column_bit [of "x' - x" bits] by (auto simp: rgb_def)

lemma draw_row_outside: "fb_wf fb \<Longrightarrow> \<not> in_fb fb a \<Longrightarrow> draw_row f fb x y bits fg bg m a = m a"
  unfolding draw_row_def Let_def by (rule row_outside)

lemma draw_rows_append:
  "draw_rows f fb gl x y fg bg (rs @ rs') m =
     Option.bind (draw_rows f fb gl x y fg bg rs m) (draw_rows f fb gl x y fg bg rs')"
  by (induction rs arbitrary: m) simp_all

lemma draw_rows_outside:
  assumes "fb_wf fb"
  shows "\<forall>r\<in>set rows. r < length gl \<Longrightarrow>
    \<exists>m'. draw_rows f fb gl x y fg bg rows m = Some m' \<and> (\<forall>a. \<not> in_fb fb a \<longrightarrow> m' a = m a)"
proof (induction rows arbitrary: m)
  case (Cons r rows)
  let ?m = "draw_row f fb x (usz (y + r)) (gl ! r) fg bg m"
  from Cons.IH [of ?m] Cons.prems obtain m' where "draw_rows f fb gl x y fg bg rows ?m = Some m'"
    "\<forall>a. \<not> in_fb fb a \<longrightarrow> m' a = ?m a" by auto
  then show ?case using Cons.prems draw_row_outside [OF assms] by auto
qed simp

lemma draw_rows_pixel:
  assumes "fb_wf fb" "x' < fb_width fb" "y' < fb_height fb" "pf_width f = 8" "x + 8 \<le> 2 ^ 64"
  shows "n \<le> length gl \<Longrightarrow> y + n \<le> 2 ^ 64 \<Longrightarrow> draw_rows f fb gl x y fg bg [0..<n] m = Some m' \<Longrightarrow>
    pixel_of fb x' y' m' =
    (if y \<le> y' \<and> y' < y + n \<and> x \<le> x' \<and> x' < x + 8 then rgb (if bit (gl ! (y' - y)) (7 - (x' - x)) then fg else bg)
     else pixel_of fb x' y' m)"
proof (induction n arbitrary: m')
  case (Suc n)
  then obtain m1 where m1: "draw_rows f fb gl x y fg bg [0..<n] m = Some m1"
    "m' = draw_row f fb x (usz (y + n)) (gl ! n) fg bg m1"
    by (cases "draw_rows f fb gl x y fg bg [0..<n] m") (auto simp: draw_rows_append)
  have "usz (y + n) = y + n" using Suc.prems(2) by simp
  then have px: "pixel_of fb x' y' m' =
      (if y' = y + n \<and> x \<le> x' \<and> x' < x + 8 then rgb (if bit (gl ! n) (7 - (x' - x)) then fg else bg) else pixel_of fb x' y' m1)"
    unfolding m1(2) by (simp add: draw_row_pixel [OF assms])
  have ih: "pixel_of fb x' y' m1 =
      (if y \<le> y' \<and> y' < y + n \<and> x \<le> x' \<and> x' < x + 8 then rgb (if bit (gl ! (y' - y)) (7 - (x' - x)) then fg else bg)
       else pixel_of fb x' y' m)"
    using Suc.IH [OF _ _ m1(1)] Suc.prems(1,2) by simp
  consider "y' = y + n" | "y' \<noteq> y + n" "y \<le> y' \<and> y' < y + Suc n \<longleftrightarrow> y \<le> y' \<and> y' < y + n" by linarith
  then show ?case unfolding px ih by cases auto
qed auto

section \<open>Fonts that were parsed\<close>

definition font_wf :: "psf_font \<Rightarrow> bool" where
  "font_wf f \<longleftrightarrow> pf_width f = 8 \<and> pf_height f = pf_charsize f \<and> pf_charsize f < 256 \<and> pf_num_glyphs f \<in> {256, 512} \<and>
     length (pf_glyphs f) = pf_num_glyphs f * pf_charsize f \<and> um_wf (pf_unicode_map f) \<and>
     (\<forall>(c, g)\<in>set (um_assoc (pf_unicode_map f)). unat g < pf_num_glyphs f)"

lemma unicode_loop_wf:
  assumes "um_wf u" "\<forall>(c, g)\<in>set (um_assoc u). unat g < n"
  shows "um_wf (unicode_loop table n off gi u) \<and>
    (\<forall>(c, g)\<in>set (um_assoc (unicode_loop table n off gi u)). unat g < n)"
  using assms
proof (induction table n off gi u rule: unicode_loop.induct)
  case (1 table n off gi u)
  show ?case
  proof (cases "off + 1 < length table \<and> unat gi < n")
    case True
    let ?v = "ucast (table ! off) OR push_bit 8 (ucast (table ! (off + 1))) :: u16"
    have "um_wf (um_insert ?v gi u)" "\<forall>(c, g)\<in>set (um_assoc (um_insert ?v gi u)). unat g < n"
      using True "1.prems" by auto
    then show ?thesis
      using True "1.IH" "1.prems" by (subst (1 2) unicode_loop.simps) (simp add: Let_def)
  next
    case False
    then show ?thesis using "1.prems" by (subst (1 2) unicode_loop.simps) auto
  qed
qed

lemma glyph_index_bound:
  assumes "font_wf f" shows "glyph_index f c < pf_num_glyphs f"
proof -
  have "unat g < pf_num_glyphs f" if "um_lookup w (pf_unicode_map f) = Some g" for w g
    using that assms by (auto simp: font_wf_def um_lookup_map_of dest!: map_of_SomeD)
  moreover have "0x3F < pf_num_glyphs f" using assms by (auto simp: font_wf_def)
  ultimately show ?thesis by (auto simp: glyph_index_def split: option.splits)
qed

lemma draw_char_rows:
  fixes c :: u32
  assumes "font_wf f"
  defines "i \<equiv> glyph_index f c * pf_charsize f"
  shows "draw_char f fb x y c fg bg m =
      draw_rows f fb (take (pf_charsize f) (drop i (pf_glyphs f))) x y fg bg [0..<pf_charsize f] m"
    and "length (take (pf_charsize f) (drop i (pf_glyphs f))) = pf_charsize f"
proof -
  have "Suc (glyph_index f c) * pf_charsize f \<le> pf_num_glyphs f * pf_charsize f"
    using glyph_index_bound [OF assms(1), of c] by (intro mult_le_mono1) simp
  then have fit: "i + pf_charsize f \<le> length (pf_glyphs f)" using assms(1) by (simp add: font_wf_def i_def)
  then show "length (take (pf_charsize f) (drop i (pf_glyphs f))) = pf_charsize f" by simp
  show "draw_char f fb x y c fg bg m =
      draw_rows f fb (take (pf_charsize f) (drop i (pf_glyphs f))) x y fg bg [0..<pf_charsize f] m"
    using fit glyph_index_bound [OF assms(1), of c] assms(1)
    by (simp add: draw_char_def slice_def i_def font_wf_def add.commute)
qed

lemma draw_char_returns:
  assumes "font_wf f" "fb_wf fb"
  shows "\<exists>m'. draw_char f fb x y c fg bg m = Some m' \<and> (\<forall>a. \<not> in_fb fb a \<longrightarrow> m' a = m a)"
  unfolding draw_char_rows(1) [OF assms(1)]
  by (rule draw_rows_outside [OF assms(2)]) (unfold draw_char_rows(2) [OF assms(1)], simp)

lemma draw_str_returns:
  assumes "font_wf f" "fb_wf fb"
  shows "\<exists>m'. draw_str f fb x y str fg bg m = Some m' \<and> (\<forall>a. \<not> in_fb fb a \<longrightarrow> m' a = m a)"
proof -
  note char = draw_char_returns [OF assms]
  have "\<exists>m'. draw_chars f fb x cx cy str fg bg m = Some m' \<and> (\<forall>a. \<not> in_fb fb a \<longrightarrow> m' a = m a)" for cx cy
  proof (induction str arbitrary: cx cy m)
    case (Cons c cs)
    define cx' where "cx' = (if usz (cx + pf_width f) > fb_width fb then x else cx)"
    define cy' where "cy' = (if usz (cx + pf_width f) > fb_width fb then usz (cy + pf_height f) else cy)"
    have step: "draw_chars f fb x cx cy (c # cs) fg bg m =
        (if c = 0x0A then draw_chars f fb x x (usz (cy + pf_height f)) cs fg bg m
         else if usz (cy' + pf_height f) > fb_height fb then Some m
         else Option.bind (draw_char f fb cx' cy' c fg bg m) (draw_chars f fb x (usz (cx' + pf_width f)) cy' cs fg bg))"
      by (simp add: cx'_def cy'_def)
    obtain m1 where 1: "draw_char f fb cx' cy' c fg bg m = Some m1" "\<forall>a. \<not> in_fb fb a \<longrightarrow> m1 a = m a"
      using char by blast
    obtain m2 where "draw_chars f fb x (usz (cx' + pf_width f)) cy' cs fg bg m1 = Some m2"
      "\<forall>a. \<not> in_fb fb a \<longrightarrow> m2 a = m1 a"
      using Cons.IH by blast
    then show ?case unfolding step using 1 Cons.IH [of x "usz (cy + pf_height f)" m] by simp
  qed simp
  then show ?thesis by (simp add: draw_str_def)
qed

lemma psf_parse_wf:
  assumes "psf_parse data = Some f"
  shows "font_wf f"
proof -
  have "unat (data ! 3) < 256" using unsigned_less [where 'a = nat, of "data ! 3"] by simp
  moreover have "um_wf (unicode_loop t n 0 0 unicode_map_new)" for t n
    using unicode_loop_wf [of unicode_map_new] by simp
  moreover have "unat g < n" if "(c, g) \<in> set (um_assoc (unicode_loop t n 0 0 unicode_map_new))" for c g t n
    using unicode_loop_wf [of unicode_map_new n t 0 0] that by auto
  ultimately show ?thesis
    using assms by (auto simp: psf_parse_def font_wf_def Let_def split: if_splits)
qed

section \<open>Properties\<close>

text \<open>
  C32: a parsed font is well formed. Whatever the file, a font that parses has 256 or 512 glyphs with all
  their rows in the glyph data, a Unicode map inside its array, and only existing glyphs in the map.
\<close>

theorem psf_parse_well_formed:
  assumes "psf_parse data = Some f"
  shows "font_wf f"
  using assms by (rule psf_parse_wf)

text \<open>Every glyph of one row, all white but for the question mark; no Unicode table.\<close>

definition sample_psf :: "u8 list" where
  "sample_psf = [0x36, 0x04, 0, 1] @ (replicate 256 0)[0x3F := 0x81]"

lemma sample_psf_parses:
  "psf_parse sample_psf = Some \<lparr>pf_glyphs = (replicate 256 0)[0x3F := 0x81], pf_charsize = 1, pf_width = 8, pf_height = 1,
     pf_num_glyphs = 256, pf_unicode_map = unicode_map_new\<rparr>"
  by (simp add: psf_parse_def sample_psf_def PSF1_MAGIC_def)

theorem psf_parse_well_formed_witness: "\<exists>f. psf_parse sample_psf = Some f \<and> font_wf f"
  using psf_parse_well_formed [OF sample_psf_parses] sample_psf_parses by blast

text \<open>
  C33: a character on the screen. Drawing a character with a parsed font returns; afterwards every visible
  pixel of its cell has the foreground colour where the glyph's bit is set and the background colour
  elsewhere, every other pixel is as before, and no byte outside the framebuffer has changed.
\<close>

theorem draw_char_paints_glyph:
  assumes "font_wf f" "fb_wf fb" "x + 8 \<le> 2 ^ 64" "y + pf_height f \<le> 2 ^ 64"
    and "px < fb_width fb" "py < fb_height fb"
  shows "\<exists>m'. draw_char f fb x y c fg bg m = Some m' \<and>
    pixel_of fb px py m' =
      (if x \<le> px \<and> px < x + 8 \<and> y \<le> py \<and> py < y + pf_height f
       then rgb (if bit (pf_glyphs f ! (glyph_index f c * pf_height f + (py - y))) (7 - (px - x)) then fg else bg)
       else pixel_of fb px py m) \<and>
    (\<forall>a. \<not> in_fb fb a \<longrightarrow> m' a = m a)"
proof -
  let ?gl = "take (pf_charsize f) (drop (glyph_index f c * pf_charsize f) (pf_glyphs f))"
  note dc = draw_char_rows [OF assms(1), where c = c]
  have f: "pf_width f = 8" "pf_height f = pf_charsize f" using assms(1) by (simp_all add: font_wf_def)
  obtain m' where m': "draw_rows f fb ?gl x y fg bg [0..<pf_charsize f] m = Some m'" "\<forall>a. \<not> in_fb fb a \<longrightarrow> m' a = m a"
    using draw_rows_outside [OF assms(2), of "[0..<pf_charsize f]" ?gl f x y fg bg m] unfolding dc(2) by auto
  have "?gl ! (py - y) = pf_glyphs f ! (glyph_index f c * pf_charsize f + (py - y))"
    if "py < y + pf_charsize f" "y \<le> py"
    using that dc(2) by (simp add: add.commute)
  then show ?thesis
    using draw_rows_pixel [OF assms(2,5,6) f(1) assms(3) _ _ m'(1)] dc assms(4) m' f(2) by auto
qed

definition sample_fb :: framebuffer where
  "sample_fb = framebuffer_new 0xFD000000 640 480 2560 4"

lemma sample_fb_wf: "fb_wf sample_fb" "fb_width sample_fb = 640" "fb_height sample_fb = 480"
  by (simp_all add: fb_wf_def sample_fb_def framebuffer_new_def)

theorem draw_char_paints_glyph_witness:
  "\<exists>f m'. psf_parse sample_psf = Some f \<and> draw_char f sample_fb 16 16 0x3F 0xFFFFFF 0x000080 (\<lambda>_. 0) = Some m' \<and>
    pixel_of sample_fb 16 16 m' = (0xFF, 0xFF, 0xFF) \<and> pixel_of sample_fb 17 16 m' = (0, 0, 0x80)"
proof -
  let ?f = "\<lparr>pf_glyphs = (replicate 256 0)[0x3F := 0x81], pf_charsize = 1, pf_width = 8, pf_height = 1,
     pf_num_glyphs = 256, pf_unicode_map = unicode_map_new\<rparr> :: psf_font"
  have wf: "font_wf ?f" by (simp add: font_wf_def)
  have gi: "glyph_index ?f 0x3F = 0x3F" by (simp add: glyph_index_def)
  have bits: "bit (0x81 :: u8) 7" "\<not> bit (0x81 :: u8) 6" by (simp_all add: bit_numeral_rec)
  note paint = draw_char_paints_glyph [OF wf sample_fb_wf(1), where x = 16 and y = 16 and c = "0x3F" and fg = "0xFFFFFF"
      and bg = "0x000080" and m = "\<lambda>_. 0" and py = 16]
  obtain m1 where 1: "draw_char ?f sample_fb 16 16 0x3F 0xFFFFFF 0x000080 (\<lambda>_. 0) = Some m1"
    "pixel_of sample_fb 16 16 m1 = (0xFF, 0xFF, 0xFF)"
    using paint [of 16] sample_fb_wf(2,3) gi bits by (auto simp: rgb_def colour_r_def colour_g_def colour_b_def)
  obtain m2 where "draw_char ?f sample_fb 16 16 0x3F 0xFFFFFF 0x000080 (\<lambda>_. 0) = Some m2"
    "pixel_of sample_fb 17 16 m2 = (0, 0, 0x80)"
    using paint [of 17] sample_fb_wf(2,3) gi bits by (auto simp: rgb_def colour_r_def colour_g_def colour_b_def)
  with 1 sample_psf_parses show ?thesis by auto
qed

text \<open>
  Text stays on the screen. Drawing any string at any position with a parsed font returns and
  changes no byte outside the framebuffer, with every wrap-around of the coordinates.
\<close>

theorem draw_str_stays_on_screen:
  assumes "font_wf f" "fb_wf fb"
  shows "\<exists>m'. draw_str f fb x y str fg bg m = Some m' \<and> (\<forall>a. \<not> in_fb fb a \<longrightarrow> m' a = m a)"
  by (rule draw_str_returns [OF assms])

theorem draw_str_stays_on_screen_witness:
  "\<exists>f m'. psf_parse sample_psf = Some f \<and>
    draw_str f sample_fb (2 ^ 64 - 3) 16 [0x3F, 0x0A, 0x416] 0xFFFFFF 0x000080 (\<lambda>_. 0) = Some m' \<and> m' 0x1000 = 0"
proof -
  let ?f = "\<lparr>pf_glyphs = (replicate 256 0)[0x3F := 0x81], pf_charsize = 1, pf_width = 8, pf_height = 1,
     pf_num_glyphs = 256, pf_unicode_map = unicode_map_new\<rparr> :: psf_font"
  have "font_wf ?f" by (simp add: font_wf_def)
  moreover have "\<not> in_fb sample_fb 0x1000" by (simp add: in_fb_def sample_fb_def framebuffer_new_def)
  ultimately show ?thesis
    using draw_str_stays_on_screen [OF _ sample_fb_wf(1), of ?f "2 ^ 64 - 3" 16 "[0x3F, 0x0A, 0x416]" "0xFFFFFF" "0x000080" "\<lambda>_. 0"]
      sample_psf_parses by blast
qed

text \<open>
  The Unicode map is searched with the low 16 bits of the code point: a character outside the basic
  plane is drawn with the glyph of another one.
\<close>

theorem high_code_points_are_truncated:
  assumes "0x80 \<le> c" "c < 0x10000"
  shows "glyph_index f (0x10000 + c) = glyph_index f c"
proof -
  have c: "0x80 \<le> unat c" "unat c < 0x10000" using assms by (simp_all add: word_le_nat_alt word_less_nat_alt)
  have sum: "unat (0x10000 + c) = 0x10000 + unat c" using c by (simp add: unat_word_ariths)
  have "(ucast (0x10000 + c) :: u16) = ucast c" by (simp add: word_unat_eq_iff unat_trunc sum)
  moreover have "\<not> 0x10000 + c < 0x80" "\<not> c < 0x80" using sum c by (simp_all add: word_less_nat_alt)
  ultimately show ?thesis by (simp add: glyph_index_def)
qed

end
