(* ===== verification/Shell.thy ===== *)
theory Shell
  imports Gfx Ps2
begin

text \<open>
  The shell task of \<open>src/main.rs\<close>: a one-line editor on the framebuffer, fed from the keyboard buffer.
  \<open>shell_key\<close> is what the loop does with one character; between characters the task halts. The statics
  \<open>KERNEL_FB\<close> and \<open>KERNEL_FONT\<close> are the fields of \<open>screen\<close>; \<open>None\<close> at the outside is a panic.
\<close>

section \<open>Constants and state\<close>

definition SHELL_FG :: u32 where "SHELL_FG = 0xFFFFFF"
definition SHELL_BG :: u32 where "SHELL_BG = 0x000080"
definition SHELL_PROMPT :: "u8 list" where "SHELL_PROMPT = str_bytes ''avaria> ''"
definition SHELL_CHAR_W :: usize where "SHELL_CHAR_W = 8"
definition SHELL_CHAR_H :: usize where "SHELL_CHAR_H = 16"
definition SHELL_PAD_X :: usize where "SHELL_PAD_X = 8"
definition SHELL_PAD_Y :: usize where "SHELL_PAD_Y = 8"
definition LINE_MAX :: usize where "LINE_MAX = 256"

record screen =
  kernel_fb :: "framebuffer option"
  kernel_font :: "psf_font option"

record shell =
  sh_line_buf :: "u8 list"
  sh_line_len :: usize
  sh_cols :: usize
  sh_rows :: usize
  sh_cur_row :: usize
  sh_cur_col :: usize

text \<open>\<open>a - b\<close> on \<open>usize\<close>, which wraps.\<close>

definition sub64 :: "usize \<Rightarrow> usize \<Rightarrow> usize" where
  "sub64 a b = usz (a + (2 ^ 64 - b))"

section \<open>Drawing\<close>

definition shell_draw_at :: "screen \<Rightarrow> usize \<Rightarrow> usize \<Rightarrow> u32 \<Rightarrow> ram \<Rightarrow> ram option" where
  "shell_draw_at sc col row ch m =
     (case kernel_font sc of
        None \<Rightarrow> Some m
      | Some f \<Rightarrow> do { fb \<leftarrow> kernel_fb sc;
                      draw_char f fb (usz (SHELL_PAD_X + usz (col * SHELL_CHAR_W)))
                        (usz (SHELL_PAD_Y + usz (row * SHELL_CHAR_H))) ch SHELL_FG SHELL_BG m })"

text \<open>\<open>for (i, b) in bytes.enumerate() { shell_draw_at(first + i, row, b) }\<close>\<close>

fun draw_bytes :: "screen \<Rightarrow> usize \<Rightarrow> usize \<Rightarrow> u8 list \<Rightarrow> ram \<Rightarrow> ram option" where
  "draw_bytes sc first row [] m = Some m"
| "draw_bytes sc first row (b # bs) m =
     do { m \<leftarrow> shell_draw_at sc first row (ucast b) m; draw_bytes sc (first + 1) row bs m }"

definition shell_draw_prompt :: "screen \<Rightarrow> usize \<Rightarrow> ram \<Rightarrow> ram option" where
  "shell_draw_prompt sc row m = draw_bytes sc 0 row SHELL_PROMPT m"

definition shell_clear :: "screen \<Rightarrow> ram \<Rightarrow> ram option" where
  "shell_clear sc m = do { fb \<leftarrow> kernel_fb sc; Some (fb_clear fb 0x00 0x00 0x80 m) }"

section \<open>The task\<close>

definition shell_start :: "screen \<Rightarrow> ram \<Rightarrow> io \<Rightarrow> (shell \<times> ram \<times> io) option" where
  "shell_start sc m io =
     do { fb \<leftarrow> kernel_fb sc;
          let cols = sub64 (fb_width fb) (SHELL_PAD_X * 2) div SHELL_CHAR_W;
          let rows = sub64 (fb_height fb) (SHELL_PAD_Y * 2) div SHELL_CHAR_H;
          let prompt_len = length SHELL_PROMPT;
          io \<leftarrow> puts ''shell: started as task\<newline>'' io;
          m \<leftarrow> shell_clear sc m;
          m \<leftarrow> shell_draw_prompt sc 0 m;
          m \<leftarrow> shell_draw_at sc prompt_len 0 0x5F m;
          Some (\<lparr>sh_line_buf = replicate LINE_MAX 0, sh_line_len = 0, sh_cols = cols, sh_rows = rows,
                 sh_cur_row = 0, sh_cur_col = prompt_len\<rparr>, m, io) }"

definition next_row :: "screen \<Rightarrow> shell \<Rightarrow> ram \<Rightarrow> (shell \<times> ram) option" where
  "next_row sc sh m =
     (let sh = sh\<lparr>sh_cur_row := sh_cur_row sh + 1\<rparr>
      in if sh_cur_row sh \<ge> sh_rows sh then do { m \<leftarrow> shell_clear sc m; Some (sh\<lparr>sh_cur_row := 0\<rparr>, m) }
         else Some (sh, m))"

definition shell_enter :: "screen \<Rightarrow> shell \<Rightarrow> ram \<Rightarrow> (shell \<times> ram) option" where
  "shell_enter sc sh m =
     do { m \<leftarrow> shell_draw_at sc (sh_cur_col sh) (sh_cur_row sh) 0x20 m;
          (sh, m) \<leftarrow> next_row sc sh m;
          (sh, m) \<leftarrow> (if sh_line_len sh > 0
                     then do { m \<leftarrow> draw_bytes sc 0 (sh_cur_row sh) [0x3E, 0x20] m;
                               line \<leftarrow> slice (sh_line_buf sh) 0 (sh_line_len sh);
                               m \<leftarrow> draw_bytes sc 2 (sh_cur_row sh) line m;
                               next_row sc sh m }
                     else Some (sh, m));
          let sh = sh\<lparr>sh_line_len := 0, sh_cur_col := length SHELL_PROMPT\<rparr>;
          m \<leftarrow> shell_draw_prompt sc (sh_cur_row sh) m;
          m \<leftarrow> shell_draw_at sc (sh_cur_col sh) (sh_cur_row sh) 0x5F m;
          Some (sh, m) }"

definition shell_backspace :: "screen \<Rightarrow> shell \<Rightarrow> ram \<Rightarrow> (shell \<times> ram) option" where
  "shell_backspace sc sh m =
     (if sh_line_len sh > 0
      then do { m \<leftarrow> shell_draw_at sc (sh_cur_col sh) (sh_cur_row sh) 0x20 m;
                let sh = sh\<lparr>sh_line_len := sh_line_len sh - 1, sh_cur_col := sub64 (sh_cur_col sh) 1\<rparr>;
                m \<leftarrow> shell_draw_at sc (sh_cur_col sh) (sh_cur_row sh) 0x5F m;
                Some (sh, m) }
      else Some (sh, m))"

definition shell_char :: "screen \<Rightarrow> u8 \<Rightarrow> shell \<Rightarrow> ram \<Rightarrow> (shell \<times> ram) option" where
  "shell_char sc ch sh m =
     (if sh_line_len sh < LINE_MAX - 1 \<and> sh_cur_col sh < sub64 (sh_cols sh) 1
      then do { m \<leftarrow> shell_draw_at sc (sh_cur_col sh) (sh_cur_row sh) (ucast ch) m;
                if sh_line_len sh < length (sh_line_buf sh)
                then do { let sh = sh\<lparr>sh_line_buf := (sh_line_buf sh)[sh_line_len sh := ch],
                                      sh_line_len := sh_line_len sh + 1, sh_cur_col := sh_cur_col sh + 1\<rparr>;
                          m \<leftarrow> shell_draw_at sc (sh_cur_col sh) (sh_cur_row sh) 0x5F m;
                          Some (sh, m) }
                else None }
      else Some (sh, m))"

definition shell_key :: "screen \<Rightarrow> u8 \<Rightarrow> shell \<Rightarrow> ram \<Rightarrow> (shell \<times> ram) option" where
  "shell_key sc ch sh m =
     (if ch = 0x0A then shell_enter sc sh m
      else if ch = 0x08 then shell_backspace sc sh m
      else shell_char sc ch sh m)"

text \<open>One turn of the loop: a character of the keyboard buffer, or \<open>hlt\<close> when there is none.\<close>

definition shell_turn :: "screen \<Rightarrow> shell \<Rightarrow> ram \<Rightarrow> kbd \<Rightarrow> (shell \<times> ram \<times> kbd) option" where
  "shell_turn sc sh m k =
     (case read_key k of
        (k, Some ch) \<Rightarrow> do { (sh, m) \<leftarrow> shell_key sc ch sh m; Some (sh, m, k) }
      | (k, None) \<Rightarrow> Some (sh, m, k))"

fun shell_keys :: "screen \<Rightarrow> u8 list \<Rightarrow> shell \<Rightarrow> ram \<Rightarrow> (shell \<times> ram) option" where
  "shell_keys sc [] sh m = Some (sh, m)"
| "shell_keys sc (ch # chs) sh m = do { (sh, m) \<leftarrow> shell_key sc ch sh m; shell_keys sc chs sh m }"

section \<open>Drawing ends and stays on the screen\<close>

text \<open>A framebuffer of the usual shape, and a font that was parsed, or none.\<close>

definition screen_ok :: "screen \<Rightarrow> framebuffer \<Rightarrow> bool" where
  "screen_ok sc fb \<longleftrightarrow> kernel_fb sc = Some fb \<and> fb_wf fb \<and> (\<forall>f. kernel_font sc = Some f \<longrightarrow> font_wf f)"

definition painted :: "framebuffer \<Rightarrow> ram \<Rightarrow> ram \<Rightarrow> bool" where
  "painted fb m m' \<longleftrightarrow> (\<forall>a. \<not> in_fb fb a \<longrightarrow> m' a = m a)"

lemma painted_refl [simp]: "painted fb m m"
  by (simp add: painted_def)

lemma painted_trans: "painted fb m m' \<Longrightarrow> painted fb m' m'' \<Longrightarrow> painted fb m m''"
  by (simp add: painted_def)

lemma draw_at_paints:
  assumes "screen_ok sc fb"
  obtains m' where "shell_draw_at sc col row ch m = Some m'" "painted fb m m'"
proof (cases "kernel_font sc")
  case None
  then show ?thesis by (intro that [of m]) (simp_all add: shell_draw_at_def)
next
  case (Some f)
  then have "font_wf f" "fb_wf fb" "kernel_fb sc = Some fb" using assms by (simp_all add: screen_ok_def)
  then obtain m' where "draw_char f fb (usz (SHELL_PAD_X + usz (col * SHELL_CHAR_W)))
      (usz (SHELL_PAD_Y + usz (row * SHELL_CHAR_H))) ch SHELL_FG SHELL_BG m = Some m'" "painted fb m m'"
    using draw_char_returns [of f fb] unfolding painted_def by blast
  then show ?thesis using Some \<open>kernel_fb sc = Some fb\<close> by (intro that [of m']) (simp_all add: shell_draw_at_def)
qed

lemma draw_bytes_paints:
  assumes "screen_ok sc fb"
  shows "\<exists>m'. draw_bytes sc first row bs m = Some m' \<and> painted fb m m'"
proof (induction bs arbitrary: first m)
  case (Cons b bs)
  obtain m1 where "shell_draw_at sc first row (ucast b) m = Some m1" "painted fb m m1" using draw_at_paints [OF assms] .
  moreover obtain m2 where "draw_bytes sc (first + 1) row bs m1 = Some m2" "painted fb m1 m2" using Cons by blast
  ultimately show ?case using painted_trans by auto
qed simp

lemma fill_rect_outside: "fb_wf fb \<Longrightarrow> \<not> in_fb fb a \<Longrightarrow> fill_rect fb x0 y0 w h r g b m a = m a"
proof -
  assume *: "fb_wf fb" "\<not> in_fb fb a"
  have row: "fold (\<lambda>x m. put_pixel fb x y r g b m) xs m a = m a" for y xs m
    by (induction xs arbitrary: m) (simp_all add: put_pixel_outside [OF *])
  have "fold (\<lambda>y m. fold (\<lambda>x m. put_pixel fb x y r g b m) [x0..<usz (x0 + w)] m) ys m a = m a" for ys m
    by (induction ys arbitrary: m) (simp_all add: row)
  then show ?thesis by (simp add: fill_rect_def)
qed

lemma clear_paints:
  assumes "screen_ok sc fb"
  obtains m' where "shell_clear sc m = Some m'" "painted fb m m'"
  using assms by (intro that [of "fb_clear fb 0x00 0x00 0x80 m"])
    (auto simp: screen_ok_def shell_clear_def painted_def fb_clear_def fill_rect_outside)

section \<open>The editor\<close>

text \<open>The line being typed, and what a key does to a line of at most \<open>cap\<close> characters.\<close>

definition line_of :: "shell \<Rightarrow> u8 list" where
  "line_of sh = take (sh_line_len sh) (sh_line_buf sh)"

definition edit_key :: "nat \<Rightarrow> u8 \<Rightarrow> u8 list \<Rightarrow> u8 list" where
  "edit_key cap ch line =
     (if ch = 0x0A then [] else if ch = 0x08 then butlast line
      else if length line < cap then line @ [ch] else line)"

definition line_cap :: "shell \<Rightarrow> nat" where
  "line_cap sh = min 255 (sh_cols sh - 9)"

definition shell_inv :: "shell \<Rightarrow> bool" where
  "shell_inv sh \<longleftrightarrow> length (sh_line_buf sh) = LINE_MAX \<and> sh_line_len sh < LINE_MAX \<and> sh_cur_col sh = 8 + sh_line_len sh \<and>
     sh_cur_row sh < sh_rows sh \<and> 0 < sh_cols sh \<and> sh_cols sh < 2 ^ 64"

lemma length_prompt [simp]: "length SHELL_PROMPT = 8"
  by (simp add: SHELL_PROMPT_def str_bytes_def)

lemma sub64_le: "b \<le> a \<Longrightarrow> a < 2 ^ 64 \<Longrightarrow> sub64 a b = a - b"
proof -
  assume *: "b \<le> a" "a < 2 ^ 64"
  then have "a + (2 ^ 64 - b) = (a - b) + 2 ^ 64" by linarith
  then have "sub64 a b = (a - b) mod 2 ^ 64" unfolding sub64_def usz_def by (simp only: mod_add_self2)
  then show ?thesis using * by simp
qed

lemma next_row_step:
  assumes "screen_ok sc fb" "sh_cur_row sh < sh_rows sh"
  obtains r m' where "next_row sc sh m = Some (sh\<lparr>sh_cur_row := r\<rparr>, m')" "r < sh_rows sh" "painted fb m m'"
proof (cases "sh_cur_row sh + 1 \<ge> sh_rows sh")
  case True
  obtain m' where "shell_clear sc m = Some m'" "painted fb m m'" using clear_paints [OF assms(1)] .
  then show ?thesis using True assms(2) by (intro that [of 0 m']) (simp_all add: next_row_def Let_def)
next
  case False
  then show ?thesis by (intro that [of "sh_cur_row sh + 1" m]) (simp_all add: next_row_def Let_def)
qed

lemma shell_enter_step:
  assumes ok: "screen_ok sc fb" and inv: "shell_inv sh"
  shows "\<exists>r m'. shell_enter sc sh m = Some (sh\<lparr>sh_cur_row := r, sh_line_len := 0, sh_cur_col := 8\<rparr>, m') \<and>
    r < sh_rows sh \<and> painted fb m m'"
proof -
  note paint = draw_at_paints [OF ok] and bytes = draw_bytes_paints [OF ok]
  obtain m1 where 1: "shell_draw_at sc (sh_cur_col sh) (sh_cur_row sh) 0x20 m = Some m1" "painted fb m m1" using paint .
  obtain r2 m2 where 2: "next_row sc sh m1 = Some (sh\<lparr>sh_cur_row := r2\<rparr>, m2)" "r2 < sh_rows sh" "painted fb m1 m2"
    using next_row_step [OF ok, of sh m1] inv by (auto simp: shell_inv_def)
  let ?echo = "if sh_line_len (sh\<lparr>sh_cur_row := r2\<rparr>) > 0
      then do { m \<leftarrow> draw_bytes sc 0 (sh_cur_row (sh\<lparr>sh_cur_row := r2\<rparr>)) [0x3E, 0x20] m2;
                line \<leftarrow> slice (sh_line_buf (sh\<lparr>sh_cur_row := r2\<rparr>)) 0 (sh_line_len (sh\<lparr>sh_cur_row := r2\<rparr>));
                m \<leftarrow> draw_bytes sc 2 (sh_cur_row (sh\<lparr>sh_cur_row := r2\<rparr>)) line m;
                next_row sc (sh\<lparr>sh_cur_row := r2\<rparr>) m }
      else Some (sh\<lparr>sh_cur_row := r2\<rparr>, m2)"
  have "\<exists>r3 m3. ?echo = Some (sh\<lparr>sh_cur_row := r3\<rparr>, m3) \<and> r3 < sh_rows sh \<and> painted fb m2 m3"
  proof (cases "sh_line_len sh > 0")
    case True
    have line: "slice (sh_line_buf sh) 0 (sh_line_len sh) = Some (line_of sh)"
      using inv by (simp add: slice_def line_of_def shell_inv_def)
    obtain m3 where 3: "draw_bytes sc 0 r2 [0x3E, 0x20] m2 = Some m3" "painted fb m2 m3" using bytes by blast
    obtain m4 where 4: "draw_bytes sc 2 r2 (line_of sh) m3 = Some m4" "painted fb m3 m4" using bytes by blast
    obtain r5 m5 where 5: "next_row sc (sh\<lparr>sh_cur_row := r2\<rparr>) m4 = Some (sh\<lparr>sh_cur_row := r5\<rparr>, m5)" "r5 < sh_rows sh"
      "painted fb m4 m5"
      using next_row_step [OF ok, of "sh\<lparr>sh_cur_row := r2\<rparr>" m4] 2(2) by auto
    have "painted fb m2 m5" using 3(2) 4(2) 5(3) painted_trans by blast
    then show ?thesis using True line 3(1) 4(1) 5(1,2)
      by (intro exI [of _ r5] exI [of _ m5]) (simp del: draw_bytes.simps)
  next
    case False
    then show ?thesis using 2(2) by auto
  qed
  then obtain r3 m3 where 3: "?echo = Some (sh\<lparr>sh_cur_row := r3\<rparr>, m3)" "r3 < sh_rows sh" "painted fb m2 m3" by blast
  obtain m4 where 4: "shell_draw_prompt sc r3 m3 = Some m4" "painted fb m3 m4"
    using bytes unfolding shell_draw_prompt_def by blast
  obtain m5 where 5: "shell_draw_at sc 8 r3 0x5F m4 = Some m5" "painted fb m4 m5" using paint .
  have "shell_enter sc sh m = Some (sh\<lparr>sh_cur_row := r3, sh_line_len := 0, sh_cur_col := 8\<rparr>, m5)"
    unfolding shell_enter_def 1(1) 2(1) bind.simps prod.case 3(1) using 4(1) 5(1) by simp
  moreover have "painted fb m m5" using 1(2) 2(3) 3(3) 4(2) 5(2) painted_trans by blast
  ultimately show ?thesis using 3(2) by blast
qed

lemma shell_key_step:
  assumes ok: "screen_ok sc fb" and inv: "shell_inv sh"
  shows "\<exists>sh' m'. shell_key sc ch sh m = Some (sh', m') \<and> shell_inv sh' \<and> sh_cols sh' = sh_cols sh \<and> sh_rows sh' = sh_rows sh \<and>
    line_of sh' = edit_key (line_cap sh) ch (line_of sh) \<and> painted fb m m'"
proof -
  note paint = draw_at_paints [OF ok]
  have len: "length (line_of sh) = sh_line_len sh" using inv by (simp add: line_of_def shell_inv_def)
  consider (enter) "ch = 0x0A" | (erase) "ch = 0x08" | (char) "ch \<noteq> 0x0A" "ch \<noteq> 0x08" by blast
  then show ?thesis
  proof cases
    case enter
    obtain r m' where "shell_enter sc sh m = Some (sh\<lparr>sh_cur_row := r, sh_line_len := 0, sh_cur_col := 8\<rparr>, m')"
      "r < sh_rows sh" "painted fb m m'" using shell_enter_step [OF ok inv] by blast
    then show ?thesis using enter inv by (simp add: shell_key_def shell_inv_def line_of_def edit_key_def)
  next
    case erase
    show ?thesis
    proof (cases "sh_line_len sh > 0")
      case True
      have col: "sub64 (sh_cur_col sh) 1 = 8 + (sh_line_len sh - 1)"
        using True inv by (subst sub64_le) (simp_all add: shell_inv_def LINE_MAX_def)
      obtain m1 where 1: "shell_draw_at sc (sh_cur_col sh) (sh_cur_row sh) 0x20 m = Some m1" "painted fb m m1" using paint .
      obtain m2 where 2: "shell_draw_at sc (8 + (sh_line_len sh - 1)) (sh_cur_row sh) 0x5F m1 = Some m2" "painted fb m1 m2"
        using paint .
      have "shell_key sc ch sh m =
          Some (sh\<lparr>sh_line_len := sh_line_len sh - 1, sh_cur_col := 8 + (sh_line_len sh - 1)\<rparr>, m2)"
        using True erase 1(1) 2(1) col by (simp add: shell_key_def shell_backspace_def Let_def)
      moreover have "painted fb m m2" using 1(2) 2(2) painted_trans by blast
      moreover have "sh_line_len sh - 1 < LINE_MAX" using inv unfolding shell_inv_def by linarith
      ultimately show ?thesis using erase inv True
        by (simp add: shell_inv_def line_of_def edit_key_def butlast_take)
    next
      case False
      then show ?thesis using erase inv by (simp add: shell_key_def shell_backspace_def line_of_def edit_key_def)
    qed
  next
    case char
    have room: "sh_line_len sh < LINE_MAX - 1 \<and> sh_cur_col sh < sub64 (sh_cols sh) 1 \<longleftrightarrow> sh_line_len sh < line_cap sh"
      using inv sub64_le [of 1 "sh_cols sh"] by (auto simp: shell_inv_def line_cap_def LINE_MAX_def)
    show ?thesis
    proof (cases "sh_line_len sh < line_cap sh")
      case True
      obtain m1 where 1: "shell_draw_at sc (sh_cur_col sh) (sh_cur_row sh) (ucast ch) m = Some m1" "painted fb m m1" using paint .
      obtain m2 where 2: "shell_draw_at sc (sh_cur_col sh + 1) (sh_cur_row sh) 0x5F m1 = Some m2" "painted fb m1 m2"
        using paint .
      have lt: "sh_line_len sh < 255" "length (sh_line_buf sh) = 256"
        using True inv by (simp_all add: line_cap_def shell_inv_def LINE_MAX_def)
      have "shell_key sc ch sh m =
          Some (sh\<lparr>sh_line_buf := (sh_line_buf sh)[sh_line_len sh := ch], sh_line_len := sh_line_len sh + 1,
                 sh_cur_col := sh_cur_col sh + 1\<rparr>, m2)"
        using char room True 1(1) 2(1) lt by (simp add: shell_key_def shell_char_def Let_def)
      moreover have "painted fb m m2" using 1(2) 2(2) painted_trans by blast
      ultimately show ?thesis using char inv True len lt
        by (simp add: shell_inv_def line_of_def edit_key_def LINE_MAX_def take_Suc_conv_app_nth)
    next
      case False
      then have "shell_key sc ch sh m = Some (sh, m)"
        using char room unfolding shell_key_def shell_char_def by (simp only: if_False)
      then show ?thesis using char False inv len by (simp add: edit_key_def)
    qed
  qed
qed

lemma shell_keys_run:
  assumes "screen_ok sc fb"
  shows "shell_inv sh \<Longrightarrow> \<exists>sh' m'. shell_keys sc keys sh m = Some (sh', m') \<and> shell_inv sh' \<and> sh_cols sh' = sh_cols sh \<and>
    sh_rows sh' = sh_rows sh \<and> line_of sh' = fold (edit_key (line_cap sh)) keys (line_of sh) \<and> painted fb m m'"
proof (induction keys arbitrary: sh m)
  case (Cons ch keys)
  obtain sh1 m1 where 1: "shell_key sc ch sh m = Some (sh1, m1)" "shell_inv sh1" "sh_cols sh1 = sh_cols sh"
    "sh_rows sh1 = sh_rows sh" "line_of sh1 = edit_key (line_cap sh) ch (line_of sh)" "painted fb m m1"
    using shell_key_step [OF assms Cons.prems] by blast
  have cap: "line_cap sh1 = line_cap sh" using 1(3) by (simp add: line_cap_def)
  obtain sh2 m2 where "shell_keys sc keys sh1 m1 = Some (sh2, m2)" "shell_inv sh2" "sh_cols sh2 = sh_cols sh1"
    "sh_rows sh2 = sh_rows sh1" "line_of sh2 = fold (edit_key (line_cap sh1)) keys (line_of sh1)" "painted fb m1 m2"
    using Cons.IH [OF 1(2)] by blast
  with 1 cap painted_trans [OF 1(6)] show ?case by auto
qed auto

section \<open>Properties\<close>

text \<open>
  C34: the shell is a line editor. On a framebuffer of at least 24 by 32 pixels, with a working console, the
  shell starts and takes any sequence of characters without a panic; the line it holds is the one a plain
  editor holds (append while there is room, delete the last character, clear on return), its cursor
  stands behind the line in an existing row, and nothing outside the framebuffer has changed.
\<close>

theorem shell_edits_line:
  assumes "screen_ok sc fb" "24 \<le> fb_width fb" "fb_width fb < 2 ^ 64" "32 \<le> fb_height fb" "fb_height fb < 2 ^ 64"
    and "tx_live (io_env io)"
  shows "\<exists>sh0 m0 io' sh m'. shell_start sc m io = Some (sh0, m0, io') \<and> shell_keys sc keys sh0 m0 = Some (sh, m') \<and>
    line_of sh = fold (edit_key (min 255 ((fb_width fb - 16) div 8 - 9))) keys [] \<and>
    sh_cur_col sh = 8 + length (line_of sh) \<and> sh_cur_row sh < (fb_height fb - 16) div 16 \<and> painted fb m m'"
proof -
  have dims: "sub64 (fb_width fb) 16 = fb_width fb - 16" "sub64 (fb_height fb) 16 = fb_height fb - 16"
    using assms(2-5) by (simp_all add: sub64_le)
  obtain io' where io: "puts ''shell: started as task\<newline>'' io = Some io'"
    using prints_puts [OF assms(6)] by (auto elim: printsE)
  obtain m1 where 1: "shell_clear sc m = Some m1" "painted fb m m1" using clear_paints [OF assms(1)] .
  obtain m2 where 2: "shell_draw_prompt sc 0 m1 = Some m2" "painted fb m1 m2"
    using draw_bytes_paints [OF assms(1)] unfolding shell_draw_prompt_def by blast
  obtain m3 where 3: "shell_draw_at sc 8 0 0x5F m2 = Some m3" "painted fb m2 m3" using draw_at_paints [OF assms(1)] .
  let ?sh = "\<lparr>sh_line_buf = replicate LINE_MAX 0, sh_line_len = 0, sh_cols = (fb_width fb - 16) div 8,
     sh_rows = (fb_height fb - 16) div 16, sh_cur_row = 0, sh_cur_col = 8\<rparr>"
  have fb: "kernel_fb sc = Some fb" using assms(1) by (simp add: screen_ok_def)
  have start: "shell_start sc m io = Some (?sh, m3, io')"
    using io 1(1) 2(1) 3(1) dims fb
    by (simp add: shell_start_def SHELL_PAD_X_def SHELL_PAD_Y_def SHELL_CHAR_W_def SHELL_CHAR_H_def Let_def)
  have "(fb_width fb - 16) div 8 < 2 ^ 64"
    by (rule le_less_trans [OF div_le_dividend]) (use assms(3) in linarith)
  moreover have "8 \<le> fb_width fb - 16" "16 \<le> fb_height fb - 16" using assms(2,4) by linarith+
  ultimately have "shell_inv ?sh" by (simp add: shell_inv_def LINE_MAX_def div_greater_zero_iff)
  from shell_keys_run [OF assms(1) this, of keys m3] obtain sh m' where run: "shell_keys sc keys ?sh m3 = Some (sh, m')"
    "shell_inv sh" "sh_rows sh = sh_rows ?sh"
    "line_of sh = fold (edit_key (line_cap ?sh)) keys (line_of ?sh)" "painted fb m3 m'" by blast
  have "length (line_of sh) = sh_line_len sh" using run(2) by (simp add: line_of_def shell_inv_def)
  moreover have "line_of ?sh = []" "line_cap ?sh = min 255 ((fb_width fb - 16) div 8 - 9)"
    by (simp_all add: line_of_def line_cap_def)
  moreover have "painted fb m m'" using 1(2) 2(2) 3(2) run(5) painted_trans by blast
  ultimately have "line_of sh = fold (edit_key (min 255 ((fb_width fb - 16) div 8 - 9))) keys [] \<and>
    sh_cur_col sh = 8 + length (line_of sh) \<and> sh_cur_row sh < (fb_height fb - 16) div 16 \<and> painted fb m m'"
    using run(2-4) by (simp add: shell_inv_def)
  with start run(1) show ?thesis by blast
qed

text \<open>Typing \<open>ab\<close>, a backspace and \<open>c\<close> leaves \<open>ac\<close>.\<close>

theorem shell_edits_line_witness:
  "\<exists>sh0 m0 io' sh m'. shell_start \<lparr>kernel_fb = Some sample_fb, kernel_font = None\<rparr> (\<lambda>_. 0)
      \<lparr>io_env = (\<lambda>_ _. 0xFF), io_trace = []\<rparr> = Some (sh0, m0, io') \<and>
    shell_keys \<lparr>kernel_fb = Some sample_fb, kernel_font = None\<rparr> [0x61, 0x62, 0x08, 0x63] sh0 m0 = Some (sh, m') \<and>
    line_of sh = [0x61, 0x63] \<and> m' 0x1000 = 0"
proof -
  let ?sc = "\<lparr>kernel_fb = Some sample_fb, kernel_font = None\<rparr>"
  let ?io = "\<lparr>io_env = (\<lambda>_ _. 0xFF), io_trace = []\<rparr> :: io"
  have "screen_ok ?sc sample_fb" using sample_fb_wf by (simp add: screen_ok_def)
  moreover have "tx_live (io_env ?io)" by (simp add: tx_live_def)
  ultimately obtain sh0 m0 io' sh m' where r: "shell_start ?sc (\<lambda>_. 0) ?io = Some (sh0, m0, io')"
    "shell_keys ?sc [0x61, 0x62, 0x08, 0x63] sh0 m0 = Some (sh, m')"
    "line_of sh = fold (edit_key (min 255 ((640 - 16) div 8 - 9))) [0x61, 0x62, 0x08, 0x63] []" "painted sample_fb (\<lambda>_. 0) m'"
    using shell_edits_line [of ?sc sample_fb ?io "\<lambda>_. 0" "[0x61, 0x62, 0x08, 0x63]"] sample_fb_wf(2,3) by auto
  have "\<not> in_fb sample_fb 0x1000" by (simp add: in_fb_def sample_fb_def framebuffer_new_def)
  then have "m' 0x1000 = 0" using r(4) by (simp add: painted_def)
  moreover have "line_of sh = [0x61, 0x63]" using r(3) by (simp add: edit_key_def)
  ultimately show ?thesis using r(1,2) by blast
qed

end
