(* ===== verification/Api.thy ===== *)
theory Api
  imports Sched Initrd Cpu Shell
begin

text \<open>
  What the kernel offers its modules: the table \<open>AVARIA_API\<close> of \<open>src/main.rs\<close> and the \<open>avaria-api\<close> crate
  the modules are compiled against. \<open>avaria_api\<close> is the table of function pointers, \<open>ksys\<close> the part
  of the kernel the functions act on; the console is the one of the clock, \<open>ts_io\<close>. A \<open>&str\<close> or
  slice passed by a module is its pointer and length. \<open>ks_file_ptr\<close> says where the boot loader put the
  contents of the file that is found for a path. \<open>None\<close> at the outside is a call that does not return.
\<close>

section \<open>State\<close>

record ksys =
  ks_tsc :: tsc
  ks_ram :: ram
  ks_mem :: mem
  ks_sched :: sched
  ks_screen :: screen
  ks_fs :: "tar_fs option"
  ks_file_ptr :: "u8 list \<Rightarrow> u64"

abbreviation ks_io :: "ksys \<Rightarrow> io" where "ks_io s \<equiv> ts_io (ks_tsc s)"
abbreviation ks_put_io :: "io \<Rightarrow> ksys \<Rightarrow> ksys" where "ks_put_io io s \<equiv> s\<lparr>ks_tsc := (ks_tsc s)\<lparr>ts_io := io\<rparr>\<rparr>"

type_synonym str_ref = "u64 \<times> usize"

section \<open>The characters of a string\<close>

text \<open>
  \<open>core::str::next_code_point\<close>, which \<open>chars\<close> repeats: it looks only at the first byte to tell the length
  of a character and assumes the string well formed; \<open>None\<close> is the end of the string inside a character,
  which the library leaves undefined.
\<close>

definition utf8_acc :: "u32 \<Rightarrow> u8 \<Rightarrow> u32" where
  "utf8_acc ch b = push_bit 6 ch OR ucast (b AND 0x3F)"

fun utf8_chars :: "u8 list \<Rightarrow> u32 list option" where
  "utf8_chars [] = Some []"
| "utf8_chars (x # bs) =
     (if x < 0x80 then map_option (Cons (ucast x)) (utf8_chars bs)
      else case bs of
        [] \<Rightarrow> None
      | y # bs \<Rightarrow>
          if x < 0xE0 then map_option (Cons (utf8_acc (ucast (x AND 0x1F)) y)) (utf8_chars bs)
          else (case bs of
            [] \<Rightarrow> None
          | z # bs \<Rightarrow>
              if x < 0xF0
              then map_option (Cons (utf8_acc (utf8_acc (ucast (x AND 0xF)) y) z)) (utf8_chars bs)
              else (case bs of
                [] \<Rightarrow> None
              | w # bs \<Rightarrow>
                  map_option (Cons (utf8_acc (utf8_acc (utf8_acc (ucast (x AND 7)) y) z) w)) (utf8_chars bs))))"

section \<open>The kernel's functions\<close>

definition api_serial_puts :: "u64 \<Rightarrow> usize \<Rightarrow> ksys \<Rightarrow> ksys option" where
  "api_serial_puts ptr len s =
     do { io \<leftarrow> put_bytes (load_ram ptr len (ks_ram s)) (ks_io s); Some (ks_put_io io s) }"

definition api_fb_draw_str :: "usize \<Rightarrow> usize \<Rightarrow> u64 \<Rightarrow> usize \<Rightarrow> u32 \<Rightarrow> u32 \<Rightarrow> ksys \<Rightarrow> ksys option" where
  "api_fb_draw_str x y ptr len fg bg s =
     (case (kernel_fb (ks_screen s), kernel_font (ks_screen s)) of
        (Some f, Some fnt) \<Rightarrow>
          do { str \<leftarrow> utf8_chars (load_ram ptr len (ks_ram s));
               m \<leftarrow> draw_str fnt f x y str fg bg (ks_ram s);
               Some (s\<lparr>ks_ram := m\<rparr>) }
      | _ \<Rightarrow> Some s)"

definition api_fs_read :: "u64 \<Rightarrow> usize \<Rightarrow> u64 \<Rightarrow> u64 \<Rightarrow> ksys \<Rightarrow> 32 word \<times> ksys" where
  "api_fs_read path_ptr path_len out_ptr out_len s =
     (let path = load_ram path_ptr path_len (ks_ram s)
      in case ks_fs s of
           Some f \<Rightarrow>
             (case tar_read f path of
                Some data \<Rightarrow>
                  (let s = s\<lparr>ks_ram := put_field 8 out_ptr (ks_file_ptr s path) (ks_ram s)\<rparr>;
                       s = s\<lparr>ks_ram := put_field 8 out_len (of_nat (length data) :: u64) (ks_ram s)\<rparr>
                   in (0, s))
              | None \<Rightarrow> (- 1, s))
         | None \<Rightarrow> (- 1, s))"

definition api_tsc_read :: "ksys \<Rightarrow> u64 \<times> ksys" where
  "api_tsc_read s = (let (v, t) = rdtsc (ks_tsc s) in (v, s\<lparr>ks_tsc := t\<rparr>))"

definition api_tsc_freq_khz :: "ksys \<Rightarrow> u64" where
  "api_tsc_freq_khz s = freq_khz (ks_tsc s)"

definition api_kmalloc :: "usize \<Rightarrow> ksys \<Rightarrow> (u64 \<times> ksys) option" where
  "api_kmalloc sz s = do { (m, p) \<leftarrow> kmalloc (ks_mem s) sz; Some (of_nat p, s\<lparr>ks_mem := m\<rparr>) }"

definition api_kfree :: "u64 \<Rightarrow> usize \<Rightarrow> ksys \<Rightarrow> ksys option" where
  "api_kfree ptr sz s = do { m \<leftarrow> kfree (ks_mem s) (unat ptr) sz; Some (s\<lparr>ks_mem := m\<rparr>) }"

definition api_preempt_disable :: "ksys \<Rightarrow> ksys" where
  "api_preempt_disable s = s\<lparr>ks_sched := preempt_disable (ks_sched s)\<rparr>"

definition api_preempt_enable :: "ksys \<Rightarrow> ksys" where
  "api_preempt_enable s = s\<lparr>ks_sched := preempt_enable (ks_sched s)\<rparr>"

section \<open>The table\<close>

record avaria_api =
  ap_serial_puts :: "u64 \<Rightarrow> usize \<Rightarrow> ksys \<Rightarrow> ksys option"
  ap_fb_draw_str :: "usize \<Rightarrow> usize \<Rightarrow> u64 \<Rightarrow> usize \<Rightarrow> u32 \<Rightarrow> u32 \<Rightarrow> ksys \<Rightarrow> ksys option"
  ap_fs_read :: "u64 \<Rightarrow> usize \<Rightarrow> u64 \<Rightarrow> u64 \<Rightarrow> ksys \<Rightarrow> 32 word \<times> ksys"
  ap_tsc_read :: "ksys \<Rightarrow> u64 \<times> ksys"
  ap_tsc_freq_khz :: "ksys \<Rightarrow> u64"
  ap_kmalloc :: "usize \<Rightarrow> ksys \<Rightarrow> (u64 \<times> ksys) option"
  ap_kfree :: "u64 \<Rightarrow> usize \<Rightarrow> ksys \<Rightarrow> ksys option"
  ap_preempt_disable :: "ksys \<Rightarrow> ksys"
  ap_preempt_enable :: "ksys \<Rightarrow> ksys"

definition AVARIA_API :: avaria_api where
  "AVARIA_API =
     \<lparr>ap_serial_puts = api_serial_puts, ap_fb_draw_str = api_fb_draw_str, ap_fs_read = api_fs_read,
      ap_tsc_read = api_tsc_read, ap_tsc_freq_khz = api_tsc_freq_khz, ap_kmalloc = api_kmalloc,
      ap_kfree = api_kfree, ap_preempt_disable = api_preempt_disable, ap_preempt_enable = api_preempt_enable\<rparr>"

section \<open>The crate's side\<close>

definition av_serial_print :: "avaria_api \<Rightarrow> str_ref \<Rightarrow> ksys \<Rightarrow> ksys option" where
  "av_serial_print api str s = ap_serial_puts api (fst str) (snd str) s"

definition av_draw_str :: "avaria_api \<Rightarrow> usize \<Rightarrow> usize \<Rightarrow> str_ref \<Rightarrow> u32 \<Rightarrow> u32 \<Rightarrow> ksys \<Rightarrow> ksys option" where
  "av_draw_str api x y str fg bg s = ap_fb_draw_str api x y (fst str) (snd str) fg bg s"

text \<open>\<open>ptr\<close> and \<open>len\<close> live at the addresses \<open>at_ptr\<close> and \<open>at_len\<close> of the module's stack.\<close>

definition av_fs_read_file :: "avaria_api \<Rightarrow> u64 \<Rightarrow> u64 \<Rightarrow> str_ref \<Rightarrow> ksys \<Rightarrow> str_ref option \<times> ksys" where
  "av_fs_read_file api at_ptr at_len path s =
     (let s = s\<lparr>ks_ram := put_field 8 at_ptr (0 :: u64) (ks_ram s)\<rparr>;
          s = s\<lparr>ks_ram := put_field 8 at_len (0 :: u64) (ks_ram s)\<rparr>;
          (ret, s) = ap_fs_read api (fst path) (snd path) at_ptr at_len s;
          ptr = get_field 8 at_ptr (ks_ram s) :: u64;
          len = get_field 8 at_len (ks_ram s) :: u64
      in (if ret = 0 \<and> ptr \<noteq> 0 then Some (ptr, unat len) else None, s))"

definition av_rdtsc :: "avaria_api \<Rightarrow> ksys \<Rightarrow> u64 \<times> ksys" where
  "av_rdtsc api s = ap_tsc_read api s"

definition av_tsc_khz :: "avaria_api \<Rightarrow> ksys \<Rightarrow> u64" where
  "av_tsc_khz api s = ap_tsc_freq_khz api s"

definition av_ticks_to_us :: "avaria_api \<Rightarrow> u64 \<Rightarrow> ksys \<Rightarrow> u64" where
  "av_ticks_to_us api ticks s = (let freq = av_tsc_khz api s in if freq = 0 then 0 else ticks * 1000 div freq)"

definition av_ticks_to_ms :: "avaria_api \<Rightarrow> u64 \<Rightarrow> ksys \<Rightarrow> u64" where
  "av_ticks_to_ms api ticks s = (let freq = av_tsc_khz api s in if freq = 0 then 0 else ticks div freq)"

definition av_alloc :: "avaria_api \<Rightarrow> usize \<Rightarrow> ksys \<Rightarrow> (u64 \<times> ksys) option" where
  "av_alloc api sz s = ap_kmalloc api sz s"

definition av_free :: "avaria_api \<Rightarrow> u64 \<Rightarrow> usize \<Rightarrow> ksys \<Rightarrow> ksys option" where
  "av_free api ptr sz s = ap_kfree api ptr sz s"

definition av_disable_preempt :: "avaria_api \<Rightarrow> ksys \<Rightarrow> ksys" where
  "av_disable_preempt api s = ap_preempt_disable api s"

definition av_enable_preempt :: "avaria_api \<Rightarrow> ksys \<Rightarrow> ksys" where
  "av_enable_preempt api s = ap_preempt_enable api s"

section \<open>What a module may rely on\<close>

text \<open>
  The contract of the table, for a module that prints, reads the clock, uses the heap and holds off
  preemption: every call returns and changes one component only. \<open>inv\<close> is the kernel's invariant,
  \<open>heap\<close> the region its heap manages, \<open>room\<close> says that preemption can be disabled once more.
\<close>

locale kernel_api =
  fixes api :: avaria_api and inv :: "ksys \<Rightarrow> bool" and heap :: "mem \<Rightarrow> usize \<times> usize" and room :: "sched \<Rightarrow> bool"
  assumes inv_frame: "inv s \<Longrightarrow> ks_mem t = ks_mem s \<Longrightarrow> io_env (ks_io t) = io_env (ks_io s) \<Longrightarrow> inv t"
    and puts: "inv s \<Longrightarrow> \<exists>io. ap_serial_puts api p n s = Some (ks_put_io io s) \<and>
      sent (ks_io s) (load_ram p n (ks_ram s)) io"
    and alloc: "inv s \<Longrightarrow> \<exists>p m. ap_kmalloc api sz s = Some (p, s\<lparr>ks_mem := m\<rparr>) \<and> inv (s\<lparr>ks_mem := m\<rparr>) \<and>
      heap m = heap (ks_mem s) \<and>
      (sz + PAGE_SIZE \<le> 2 ^ 64 \<longrightarrow> p = 0 \<or> fst (heap (ks_mem s)) \<le> unat p \<and> unat p + sz \<le> snd (heap (ks_mem s)))"
    and free: "inv s \<Longrightarrow> \<exists>m. ap_kfree api p sz s = Some (s\<lparr>ks_mem := m\<rparr>) \<and> inv (s\<lparr>ks_mem := m\<rparr>) \<and>
      heap m = heap (ks_mem s)"
    and clock: "\<exists>v n. ap_tsc_read api s = (v, s\<lparr>ks_tsc := (ks_tsc s)\<lparr>ts_reads := n\<rparr>\<rparr>)"
    and freq: "ap_tsc_freq_khz api s = ts_freq (ks_tsc s)"
    and preempt_off: "\<exists>c. ap_preempt_disable api s = s\<lparr>ks_sched := c\<rparr>"
    and preempt_on: "room (ks_sched s) \<Longrightarrow> ks_sched t = ks_sched (ap_preempt_disable api s) \<Longrightarrow>
      ap_preempt_enable api t = t\<lparr>ks_sched := ks_sched s\<rparr>"

definition ksys_inv :: "ksys \<Rightarrow> bool" where
  "ksys_inv s \<longleftrightarrow> mem_inv (ks_mem s) \<and> tx_live (io_env (ks_io s))"

lemma heap_below: "mem_inv m \<Longrightarrow> snd (mem_region m) < 2 ^ 64"
  by (simp add: mem_inv_def region_ok_def mem_region_def)

lemma preempt_balanced:
  assumes "sd_preempt c \<noteq> - 1" shows "preempt_enable (preempt_disable c) = c"
proof -
  have "sd_preempt c + 1 \<noteq> 0" using assms by (metis add_eq_0_iff2 add.commute)
  then show ?thesis by (simp add: preempt_enable_def preempt_disable_def word_greater_zero_iff)
qed

interpretation kapi: kernel_api AVARIA_API ksys_inv mem_region "\<lambda>c. sd_preempt c \<noteq> - 1"
proof unfold_locales
  fix s t :: ksys and p :: u64 and n sz :: nat
  show "\<exists>v n. ap_tsc_read AVARIA_API s = (v, s\<lparr>ks_tsc := (ks_tsc s)\<lparr>ts_reads := n\<rparr>\<rparr>)"
    by (intro exI) (simp add: AVARIA_API_def api_tsc_read_def rdtsc_def Let_def)
  show "ap_tsc_freq_khz AVARIA_API s = ts_freq (ks_tsc s)"
    by (simp add: AVARIA_API_def api_tsc_freq_khz_def freq_khz_def)
  show "\<exists>c. ap_preempt_disable AVARIA_API s = s\<lparr>ks_sched := c\<rparr>"
    by (intro exI) (simp add: AVARIA_API_def api_preempt_disable_def)
  show "ap_preempt_enable AVARIA_API t = t\<lparr>ks_sched := ks_sched s\<rparr>"
    if "sd_preempt (ks_sched s) \<noteq> - 1" "ks_sched t = ks_sched (ap_preempt_disable AVARIA_API s)"
    using that preempt_balanced by (simp add: AVARIA_API_def api_preempt_enable_def api_preempt_disable_def)
  assume inv: "ksys_inv s"
  show "ksys_inv t" if "ks_mem t = ks_mem s" "io_env (ks_io t) = io_env (ks_io s)"
    using inv that by (simp add: ksys_inv_def)
  show "\<exists>io. ap_serial_puts AVARIA_API p n s = Some (ks_put_io io s) \<and> sent (ks_io s) (load_ram p n (ks_ram s)) io"
    using inv put_bytes_sends [of "ks_io s" "load_ram p n (ks_ram s)"]
    by (auto simp: AVARIA_API_def api_serial_puts_def ksys_inv_def)
  show "\<exists>m. ap_kfree AVARIA_API p sz s = Some (s\<lparr>ks_mem := m\<rparr>) \<and> ksys_inv (s\<lparr>ks_mem := m\<rparr>) \<and>
      mem_region m = mem_region (ks_mem s)"
    using inv kfree_spec [of "ks_mem s" "unat p" sz]
    by (auto simp: AVARIA_API_def api_kfree_def ksys_inv_def mem_region_same)
  obtain m a where m: "kmalloc (ks_mem s) sz = Some (m, a)" "mem_inv m" "mem_region m = mem_region (ks_mem s)"
    "sz + PAGE_SIZE \<le> 2 ^ 64 \<Longrightarrow> a = 0 \<or> fst (mem_region (ks_mem s)) \<le> a \<and> a + sz \<le> snd (mem_region (ks_mem s))"
    using inv kmalloc_spec [of "ks_mem s" sz] by (auto simp: ksys_inv_def mem_region_same) (auto simp: mem_region_def)
  have "unat (of_nat a :: u64) = a" if "sz + PAGE_SIZE \<le> 2 ^ 64"
    using m(4) [OF that] heap_below [of "ks_mem s"] inv by (auto simp: ksys_inv_def intro!: unat_of_usz)
  then show "\<exists>p m. ap_kmalloc AVARIA_API sz s = Some (p, s\<lparr>ks_mem := m\<rparr>) \<and> ksys_inv (s\<lparr>ks_mem := m\<rparr>) \<and>
      mem_region m = mem_region (ks_mem s) \<and>
      (sz + PAGE_SIZE \<le> 2 ^ 64 \<longrightarrow> p = 0 \<or>
        fst (mem_region (ks_mem s)) \<le> unat p \<and> unat p + sz \<le> snd (mem_region (ks_mem s)))"
    using m inv by (intro exI [of _ "of_nat a"] exI [of _ m]) (auto simp: AVARIA_API_def api_kmalloc_def ksys_inv_def)
qed

section \<open>Text through the table\<close>

text \<open>Every well-formed string is decoded to its end.\<close>

lemma utf8_valid_decodes: "utf8_valid bs \<Longrightarrow> \<exists>cs. utf8_chars bs = Some cs"
proof (induction bs rule: utf8_valid.induct)
  case (2 a as)
  consider (one) "a < 0x80" | (two) "0xC2 \<le> a" "a \<le> 0xDF" | (three) "0xE0 \<le> a" "a \<le> 0xEF" | (four) "0xF0 \<le> a" "a \<le> 0xF4"
    using 2(5) by (auto split: if_splits)
  then show ?case
  proof cases
    case one
    then show ?thesis using 2 by auto
  next
    case two
    then have "\<not> a < 0x80" "a < 0xE0" by (auto simp: word_less_nat_alt word_le_nat_alt)
    then show ?thesis using 2(2) 2(5) two by (auto split: list.splits)
  next
    case three
    then have "\<not> a < 0x80" "\<not> a < 0xE0" "a < 0xF0" "\<not> a \<le> 0xDF" by (auto simp: word_less_nat_alt word_le_nat_alt)
    then show ?thesis using 2(3) 2(5) three by (auto split: list.splits)
  next
    case four
    then have "\<not> a < 0x80" "\<not> a < 0xE0" "\<not> a < 0xF0" "\<not> a \<le> 0xDF" "\<not> a \<le> 0xEF"
      by (auto simp: word_less_nat_alt word_le_nat_alt)
    then show ?thesis using 2(4) 2(5) four by (auto split: list.splits)
  qed
qed simp

lemma api_draw_str_on_screen:
  assumes "screen_ok (ks_screen s) fb" "utf8_valid (load_ram ptr len (ks_ram s))"
  shows "\<exists>m. api_fb_draw_str x y ptr len fg bg s = Some (s\<lparr>ks_ram := m\<rparr>) \<and> painted fb (ks_ram s) m"
proof (cases "kernel_font (ks_screen s)")
  case None
  then show ?thesis using assms(1) by (intro exI [of _ "ks_ram s"]) (simp add: api_fb_draw_str_def screen_ok_def)
next
  case (Some f)
  obtain cs where "utf8_chars (load_ram ptr len (ks_ram s)) = Some cs" using utf8_valid_decodes [OF assms(2)] by blast
  moreover have "font_wf f" "fb_wf fb" "kernel_fb (ks_screen s) = Some fb" using assms(1) Some by (simp_all add: screen_ok_def)
  ultimately show ?thesis
    using draw_str_returns [of f fb x y cs fg bg "ks_ram s"] Some by (auto simp: api_fb_draw_str_def painted_def)
qed

section \<open>Files through the table\<close>

text \<open>No byte of the \<open>n\<close> bytes at \<open>p\<close> is one of the \<open>k\<close> bytes at \<open>q\<close>.\<close>

definition apart :: "u64 \<Rightarrow> nat \<Rightarrow> u64 \<Rightarrow> nat \<Rightarrow> bool" where
  "apart p n q k \<longleftrightarrow> (\<forall>i<n. k \<le> unat (p + of_nat i - q))"

lemma apart_upt: "apart p n q k \<longleftrightarrow> (\<forall>i\<in>set [0..<n]. k \<le> unat (p + of_nat i - q))"
  by (auto simp: apart_def)

lemma load_store_apart: "apart p n q (length bs) \<Longrightarrow> load_ram p n (store_ram q bs m) = load_ram p n m"
  unfolding load_ram_def apart_def by (intro map_cong refl) (simp add: store_ram_outside)

lemma load_put_apart [simp]: "apart p n q k \<Longrightarrow> load_ram p n (put_field k q w m) = load_ram p n m"
  by (simp add: put_field_def load_store_apart)

lemma get_put_apart [simp]: "apart p n q k \<Longrightarrow> get_field n p (put_field k q w m) = get_field n p m"
  by (simp add: get_field_def)

section \<open>Properties\<close>

text \<open>
  C35: reading a file through the table. When the module's two result cells overlap neither each other
  nor the path nor the file, \<open>fs_read_file\<close> gives \<open>None\<close> exactly for the paths the ramdisk cannot read,
  and otherwise a slice that holds exactly the contents of the file.
\<close>

theorem module_reads_ramdisk:
  assumes fs: "ks_fs s = Some fs" and path: "path = load_ram p n (ks_ram s)"
    and cells: "apart at_ptr 8 at_len 8" "apart at_len 8 at_ptr 8" "apart p n at_ptr 8" "apart p n at_len 8"
    and mapped: "\<And>data. tar_read fs path = Some data \<Longrightarrow> ks_file_ptr s path \<noteq> 0 \<and> length data < 2 ^ 64 \<and>
      load_ram (ks_file_ptr s path) (length data) (ks_ram s) = data \<and>
      apart (ks_file_ptr s path) (length data) at_ptr 8 \<and> apart (ks_file_ptr s path) (length data) at_len 8"
  shows "\<exists>r s'. av_fs_read_file AVARIA_API at_ptr at_len (p, n) s = (r, s') \<and>
    (r = None \<longleftrightarrow> tar_read fs path = None) \<and>
    (\<forall>q len. r = Some (q, len) \<longrightarrow> tar_read fs path = Some (load_ram q len (ks_ram s')))"
proof -
  define m where "m = put_field 8 at_len (0 :: u64) (put_field 8 at_ptr (0 :: u64) (ks_ram s))"
  have same: "load_ram p n m = path" using cells path by (simp add: m_def)
  show ?thesis
  proof (cases "tar_read fs path")
    case None
    then have "av_fs_read_file AVARIA_API at_ptr at_len (p, n) s = (None, s\<lparr>ks_ram := m\<rparr>)"
      using fs same by (simp add: av_fs_read_file_def AVARIA_API_def api_fs_read_def m_def)
    then show ?thesis using None by simp
  next
    case (Some data)
    define m' where "m' = put_field 8 at_len (of_nat (length data) :: u64) (put_field 8 at_ptr (ks_file_ptr s path) m)"
    note contents = mapped [OF Some]
    have "get_field 8 at_len m' = (of_nat (length data) :: u64)" by (simp add: m'_def get_put_field)
    moreover have "get_field 8 at_ptr m' = ks_file_ptr s path" using cells(1) by (simp add: m'_def get_put_field)
    ultimately have "av_fs_read_file AVARIA_API at_ptr at_len (p, n) s =
        (Some (ks_file_ptr s path, length data), s\<lparr>ks_ram := m'\<rparr>)"
      using fs same Some contents
      by (simp add: av_fs_read_file_def AVARIA_API_def api_fs_read_def flip: m_def)
        (simp add: m'_def unat_of_usz Let_def)
    moreover have "load_ram (ks_file_ptr s path) (length data) m' = data" using contents by (simp add: m'_def m_def)
    ultimately show ?thesis using Some by simp
  qed
qed

theorem module_reads_ramdisk_witness:
  defines "fs \<equiv> [\<lparr>te_name = [0x61], te_data = [0x68, 0x69], te_is_dir = False\<rparr>]"
  defines "s \<equiv> \<lparr>ks_tsc = \<lparr>ts_io = \<lparr>io_env = (\<lambda>_ _. 0xFF), io_trace = []\<rparr>, ts_stamps = (\<lambda>_. 0), ts_reads = 0, ts_freq = 0\<rparr>,
      ks_ram = (\<lambda>_. 0)(0x100 := 0x61, 0x200 := 0x68, 0x201 := 0x69), ks_mem = mem_boot, ks_sched = sched_boot,
      ks_screen = \<lparr>kernel_fb = None, kernel_font = None\<rparr>, ks_fs = Some fs, ks_file_ptr = (\<lambda>_. 0x200)\<rparr>"
  shows "\<exists>q len s'. av_fs_read_file AVARIA_API 0x300 0x308 (0x100, 1) s = (Some (q, len), s') \<and>
    load_ram q len (ks_ram s') = [0x68, 0x69]"
proof -
  have path: "[0x61] = load_ram 0x100 1 (ks_ram s)" by (simp add: load_ram_def s_def)
  have read: "tar_read fs [0x61] = Some [0x68, 0x69]"
    by (simp add: fs_def tar_read_def trim_end_slash_def trim_start_slash_def)
  have data: "load_ram 0x200 2 (ks_ram s) = [0x68, 0x69]" by (simp add: load_ram_def s_def upt_rec)
  have cells: "apart 0x300 8 0x308 8" "apart 0x308 8 0x300 8" "apart 0x100 1 0x300 8" "apart 0x100 1 0x308 8"
    and away: "apart 0x200 2 0x300 8" "apart 0x200 2 0x308 8"
    by (simp_all add: apart_upt upt_rec unsigned_minus_1_eq_mask mask_eq_exp_minus_1)
  have fs: "ks_fs s = Some fs" by (simp add: s_def)
  have mapped: "ks_file_ptr s [0x61] \<noteq> 0 \<and> length d < 2 ^ 64 \<and> load_ram (ks_file_ptr s [0x61]) (length d) (ks_ram s) = d \<and>
      apart (ks_file_ptr s [0x61]) (length d) 0x300 8 \<and> apart (ks_file_ptr s [0x61]) (length d) 0x308 8"
    if "tar_read fs [0x61] = Some d" for d
  proof -
    have d: "d = [0x68, 0x69]" and ptr: "ks_file_ptr s [0x61] = 0x200" using that read by (simp_all add: s_def)
    then have len: "length d = 2" by simp
    show ?thesis unfolding ptr len using data away d by simp
  qed
  obtain r s' where r: "av_fs_read_file AVARIA_API 0x300 0x308 (0x100, 1) s = (r, s')" "r \<noteq> None"
    "\<forall>q len. r = Some (q, len) \<longrightarrow> tar_read fs [0x61] = Some (load_ram q len (ks_ram s'))"
    using module_reads_ramdisk [OF fs path cells mapped] read by auto
  then show ?thesis using read by (cases r) auto
qed

end
