(* ===== verification/Memtest.thy ===== *)
theory Memtest
  imports Api
begin

text \<open>
  The kernel module \<open>src/modules/memtest/src/main.rs\<close>, a benchmark of the kernel heap run over the table
  the kernel passes to it. \<open>lit\<close> is where the linker put each string literal, \<open>cell\<close> the address of the
  one-character buffer \<open>ch\<close> of \<open>print_num\<close>. The three benchmarks repeat the same timing code, which is one
  definition here.
\<close>

section \<open>Printing\<close>

definition ITERS :: usize where "ITERS = 1000000"

definition lit_str :: "(string \<Rightarrow> u64) \<Rightarrow> string \<Rightarrow> str_ref" where
  "lit_str lit str = (lit str, length str)"

definition print :: "avaria_api \<Rightarrow> (string \<Rightarrow> u64) \<Rightarrow> string \<Rightarrow> ksys \<Rightarrow> ksys option" where
  "print api lit str s = av_serial_print api (lit_str lit str) s"

fun print_digits :: "avaria_api \<Rightarrow> u64 \<Rightarrow> u8 list \<Rightarrow> ksys \<Rightarrow> ksys option" where
  "print_digits api cell [] s = Some s"
| "print_digits api cell (b # bs) s =
     do { s \<leftarrow> av_serial_print api (cell, 1) (s\<lparr>ks_ram := (ks_ram s)(cell := b)\<rparr>);
          print_digits api cell bs s }"

text \<open>The digit loop is the one of \<open>serial::dec\<close>, with the same buffer of 20 bytes.\<close>

definition print_num :: "avaria_api \<Rightarrow> (string \<Rightarrow> u64) \<Rightarrow> u64 \<Rightarrow> u64 \<Rightarrow> ksys \<Rightarrow> ksys option" where
  "print_num api lit cell v s =
     (if v = 0 then print api lit ''0'' s
      else do { buf \<leftarrow> dec_loop v []; print_digits api cell (rev buf) s })"

definition print_ms :: "avaria_api \<Rightarrow> (string \<Rightarrow> u64) \<Rightarrow> u64 \<Rightarrow> u64 \<Rightarrow> ksys \<Rightarrow> ksys option" where
  "print_ms api lit cell us s =
     (let ms = us div 1000; us_frac = us mod 1000
      in do { s \<leftarrow> print_num api lit cell ms s;
              s \<leftarrow> print api lit ''.'' s;
              s \<leftarrow> (if us_frac < 100 then print api lit ''0'' s else Some s);
              s \<leftarrow> (if us_frac < 10 then print api lit ''0'' s else Some s);
              s \<leftarrow> print_num api lit cell us_frac s;
              print api lit '' ms\<newline>'' s })"

section \<open>The benchmarks\<close>

text \<open>\<open>for i in 0..n\<close>: allocate, write one byte, free; \<open>i\<close> counts up as \<open>n\<close> counts down.\<close>

fun bench_loop :: "avaria_api \<Rightarrow> (usize \<Rightarrow> usize) \<Rightarrow> u8 \<Rightarrow> nat \<Rightarrow> usize \<Rightarrow> ksys \<Rightarrow> ksys option" where
  "bench_loop api size_of mark 0 i s = Some s"
| "bench_loop api size_of mark (Suc n) i s =
     do { (ptr, s) \<leftarrow> av_alloc api (size_of i) s;
          s \<leftarrow> (if ptr \<noteq> 0
                then av_free api ptr (size_of i) (s\<lparr>ks_ram := (ks_ram s)(ptr := mark)\<rparr>)
                else Some s);
          bench_loop api size_of mark n (i + 1) s }"

definition timed_loop :: "avaria_api \<Rightarrow> (usize \<Rightarrow> usize) \<Rightarrow> u8 \<Rightarrow> ksys \<Rightarrow> (u64 \<times> ksys) option" where
  "timed_loop api size_of mark s =
     (let s = av_disable_preempt api s; (start, s) = av_rdtsc api s
      in do { s \<leftarrow> bench_loop api size_of mark ITERS 0 s;
              let (stop, s) = av_rdtsc api s;
              let s = av_enable_preempt api s;
              Some (av_ticks_to_us api (stop - start) s, s) })"

definition bench_slab :: "avaria_api \<Rightarrow> (string \<Rightarrow> u64) \<Rightarrow> u64 \<Rightarrow> usize \<Rightarrow> ksys \<Rightarrow> ksys option" where
  "bench_slab api lit cell sz s =
     do { s \<leftarrow> print api lit ''  slab '' s;
          s \<leftarrow> print_num api lit cell (of_nat sz) s;
          s \<leftarrow> print api lit ''B x'' s;
          s \<leftarrow> print_num api lit cell (of_nat ITERS) s;
          s \<leftarrow> print api lit '': '' s;
          (us, s) \<leftarrow> timed_loop api (\<lambda>_. sz) 0xAA s;
          print_ms api lit cell us s }"

definition bench_buddy :: "avaria_api \<Rightarrow> (string \<Rightarrow> u64) \<Rightarrow> u64 \<Rightarrow> usize \<Rightarrow> ksys \<Rightarrow> ksys option" where
  "bench_buddy api lit cell order s =
     (let pages = shl64 1 order; sz = usz (pages * 4096)
      in do { s \<leftarrow> print api lit ''  buddy order='' s;
              s \<leftarrow> print_num api lit cell (of_nat order) s;
              s \<leftarrow> print api lit '' ('' s;
              s \<leftarrow> print_num api lit cell (of_nat (sz div 1024)) s;
              s \<leftarrow> print api lit ''K) x'' s;
              s \<leftarrow> print_num api lit cell (of_nat ITERS) s;
              s \<leftarrow> print api lit '': '' s;
              (us, s) \<leftarrow> timed_loop api (\<lambda>_. sz) 0xBB s;
              print_ms api lit cell us s })"

definition bench_mixed :: "avaria_api \<Rightarrow> (string \<Rightarrow> u64) \<Rightarrow> u64 \<Rightarrow> ksys \<Rightarrow> ksys option" where
  "bench_mixed api lit cell s =
     do { s \<leftarrow> print api lit ''  mixed alloc/free x'' s;
          s \<leftarrow> print_num api lit cell (of_nat ITERS) s;
          s \<leftarrow> print api lit '': '' s;
          (us, s) \<leftarrow> timed_loop api (\<lambda>i. 16 + i mod 8 * 32) 0xCC s;
          print_ms api lit cell us s }"

text \<open>\<open>f\<close> on each argument in turn\<close>

fun each_arg :: "('a \<Rightarrow> ksys \<Rightarrow> ksys option) \<Rightarrow> 'a list \<Rightarrow> ksys \<Rightarrow> ksys option" where
  "each_arg f [] s = Some s"
| "each_arg f (x # xs) s = do { s \<leftarrow> f x s; each_arg f xs s }"

definition module_entry :: "avaria_api \<Rightarrow> (string \<Rightarrow> u64) \<Rightarrow> u64 \<Rightarrow> ksys \<Rightarrow> (32 word \<times> ksys) option" where
  "module_entry api lit cell s =
     do { s \<leftarrow> print api lit ''\<newline>Memtest: alloc benchmark\<newline>'' s;
          s \<leftarrow> print api lit ''TSC freq: '' s;
          s \<leftarrow> print_num api lit cell (av_tsc_khz api s div 1000) s;
          s \<leftarrow> print api lit '' MHz\<newline>\<newline>'' s;
          s \<leftarrow> print api lit ''[slab allocator]\<newline>'' s;
          s \<leftarrow> each_arg (bench_slab api lit cell) [16, 32, 64, 128, 256, 512, 1024, 2048] s;
          s \<leftarrow> print api lit ''\<newline>[buddy allocator]\<newline>'' s;
          s \<leftarrow> each_arg (bench_buddy api lit cell) [0, 1, 2, 4] s;
          s \<leftarrow> print api lit ''\<newline>[mixed workload]\<newline>'' s;
          s \<leftarrow> bench_mixed api lit cell s;
          s \<leftarrow> print api lit ''\<newline>done.\<newline>'' s;
          Some (0, s) }"

section \<open>The report\<close>

text \<open>The literals of the module, and the text it prints for given measurements.\<close>

definition LITERALS :: "string list" where
  "LITERALS =
     [''0'', ''.'', '' ms\<newline>'', ''  slab '', ''B x'', '': '', ''  buddy order='', '' ('', ''K) x'',
      ''  mixed alloc/free x'', ''\<newline>Memtest: alloc benchmark\<newline>'', ''TSC freq: '', '' MHz\<newline>\<newline>'',
      ''[slab allocator]\<newline>'', ''\<newline>[buddy allocator]\<newline>'', ''\<newline>[mixed workload]\<newline>'', ''\<newline>done.\<newline>'']"

text \<open>Microseconds as milliseconds with three decimals.\<close>

definition ms_text :: "u64 \<Rightarrow> u8 list" where
  "ms_text us =
     number_text 10 (us div 1000) @ [0x2E] @
     map digit_byte [unat us mod 1000 div 100, unat us mod 100 div 10, unat us mod 10] @ str_bytes '' ms\<newline>''"

definition iters_text :: "u8 list" where
  "iters_text = number_text 10 (of_nat ITERS) @ str_bytes '': ''"

definition slab_text :: "usize \<Rightarrow> u64 \<Rightarrow> u8 list" where
  "slab_text sz us = str_bytes ''  slab '' @ number_text 10 (of_nat sz) @ str_bytes ''B x'' @ iters_text @ ms_text us"

definition buddy_text :: "usize \<Rightarrow> u64 \<Rightarrow> u8 list" where
  "buddy_text order us =
     str_bytes ''  buddy order='' @ number_text 10 (of_nat order) @ str_bytes '' ('' @
     number_text 10 (of_nat (4 * 2 ^ order)) @ str_bytes ''K) x'' @ iters_text @ ms_text us"

definition mixed_text :: "u64 \<Rightarrow> u8 list" where
  "mixed_text us = str_bytes ''  mixed alloc/free x'' @ iters_text @ ms_text us"

definition report_text :: "u64 \<Rightarrow> u64 list \<Rightarrow> u64 list \<Rightarrow> u64 \<Rightarrow> u8 list" where
  "report_text khz slabs buddies mixed =
     str_bytes ''\<newline>Memtest: alloc benchmark\<newline>'' @ str_bytes ''TSC freq: '' @ number_text 10 (khz div 1000) @
     str_bytes '' MHz\<newline>\<newline>'' @ str_bytes ''[slab allocator]\<newline>'' @
     concat (map2 slab_text [16, 32, 64, 128, 256, 512, 1024, 2048] slabs) @
     str_bytes ''\<newline>[buddy allocator]\<newline>'' @ concat (map2 buddy_text [0, 1, 2, 4] buddies) @
     str_bytes ''\<newline>[mixed workload]\<newline>'' @ mixed_text mixed @ str_bytes ''\<newline>done.\<newline>''"

lemma digits_three:
  assumes "n < 1000"
  shows "(if n < 100 then [0x30] else []) @ (if n < 10 then [0x30] else []) @
    (if n = 0 then [0x30] else map digit_byte (rev (digits 10 n))) =
    map digit_byte [n div 100, n mod 100 div 10, n mod 10]"
proof -
  have "digit_byte 0 = 0x30" by (simp add: digit_byte_def)
  moreover consider "n = 0" | "0 < n" "n < 10" | "10 \<le> n" "n < 100" | "100 \<le> n" by linarith
  then have "n = 0 \<or> digits 10 n = (if n < 10 then [n] else if n < 100 then [n mod 10, n div 10]
      else [n mod 10, n div 10 mod 10, n div 100])"
    using assms by cases (simp_all add: digits_simps div_mult2_eq [symmetric] flip: div_mult2_eq)
  ultimately show ?thesis by (auto simp: digits_simps mod_mult2_eq [of n 10 10, simplified])
qed

section \<open>Running over the contract\<close>

definition in_area :: "usize \<times> usize \<Rightarrow> u64 \<Rightarrow> bool" where
  "in_area r a \<longleftrightarrow> fst r \<le> unat a \<and> unat a < snd r"

text \<open>The literals are in memory, outside the heap and the character cell.\<close>

definition literals_at :: "(string \<Rightarrow> u64) \<Rightarrow> u64 \<Rightarrow> usize \<times> usize \<Rightarrow> ram \<Rightarrow> bool" where
  "literals_at lit cell r m \<longleftrightarrow> (\<forall>str\<in>set LITERALS. load_ram (lit str) (length str) m = str_bytes str \<and>
     (\<forall>i<length str. lit str + of_nat i \<noteq> cell \<and> \<not> in_area r (lit str + of_nat i)))"

text \<open>Only the console, the clock, the heap's state, heap memory and the character cell may differ.\<close>

definition kept :: "u64 \<Rightarrow> usize \<times> usize \<Rightarrow> ksys \<Rightarrow> ksys \<Rightarrow> bool" where
  "kept cell r s s' \<longleftrightarrow> ks_sched s' = ks_sched s \<and> ks_screen s' = ks_screen s \<and> ks_fs s' = ks_fs s \<and>
     ts_freq (ks_tsc s') = ts_freq (ks_tsc s) \<and> (\<forall>a. a \<noteq> cell \<and> \<not> in_area r a \<longrightarrow> ks_ram s' a = ks_ram s a)"

lemma kept_refl [simp]: "kept cell r s s"
  by (simp add: kept_def)

lemma kept_trans: "kept cell r s t \<Longrightarrow> kept cell r t u \<Longrightarrow> kept cell r s u"
  by (simp add: kept_def)

lemma kept_literals: "kept cell r s t \<Longrightarrow> literals_at lit cell r (ks_ram s) \<Longrightarrow> literals_at lit cell r (ks_ram t)"
proof -
  assume k: "kept cell r s t" and l: "literals_at lit cell r (ks_ram s)"
  have "load_ram (lit str) (length str) (ks_ram t) = load_ram (lit str) (length str) (ks_ram s)" if "str \<in> set LITERALS" for str
    unfolding load_ram_def
  proof (rule map_cong [OF refl])
    fix i assume "i \<in> set [0..<length str]"
    then have "lit str + of_nat i \<noteq> cell" "\<not> in_area r (lit str + of_nat i)"
      using l that by (simp_all add: literals_at_def)
    then show "ks_ram t (lit str + of_nat i) = ks_ram s (lit str + of_nat i)" using k by (simp add: kept_def)
  qed
  with l show ?thesis by (simp add: literals_at_def)
qed

context kernel_api begin

definition running :: "(string \<Rightarrow> u64) \<Rightarrow> u64 \<Rightarrow> usize \<times> usize \<Rightarrow> u64 \<Rightarrow> ksys \<Rightarrow> bool" where
  "running lit cell r f s \<longleftrightarrow> inv s \<and> heap (ks_mem s) = r \<and> room (ks_sched s) \<and> ts_freq (ks_tsc s) = f \<and>
     literals_at lit cell r (ks_ram s)"

definition tells :: "u64 \<Rightarrow> usize \<times> usize \<Rightarrow> ksys \<Rightarrow> u8 list \<Rightarrow> ksys option \<Rightarrow> bool" where
  "tells cell r s bs res \<longleftrightarrow> (\<exists>s'. res = Some s' \<and> inv s' \<and> heap (ks_mem s') = r \<and> kept cell r s s' \<and>
     sent (ks_io s) bs (ks_io s'))"

lemma tellsE:
  assumes "tells cell r s bs res" "running lit cell r f s"
  obtains t where "res = Some t" "running lit cell r f t" "kept cell r s t" "sent (ks_io s) bs (ks_io t)"
proof -
  obtain t where t: "res = Some t" "inv t" "heap (ks_mem t) = r" "kept cell r s t" "sent (ks_io s) bs (ks_io t)"
    using assms(1) by (auto simp: tells_def)
  moreover have "literals_at lit cell r (ks_ram t)"
    using kept_literals [OF t(4)] assms(2) by (simp add: running_def)
  ultimately have "running lit cell r f t" using assms(2) by (simp add: running_def kept_def)
  with t show thesis by (intro that)
qed

lemma tells_then:
  assumes "tells cell r s bs res" "running lit cell r f s"
    and "\<And>t. running lit cell r f t \<Longrightarrow> \<exists>x. tells cell r t (cs x) (g t)"
  shows "\<exists>x. tells cell r s (bs @ cs x) (res \<bind> g)"
proof -
  obtain t where t: "res = Some t" "running lit cell r f t" "kept cell r s t" "sent (ks_io s) bs (ks_io t)"
    using tellsE [OF assms(1,2)] .
  obtain x where "tells cell r t (cs x) (g t)" using assms(3) [OF t(2)] by blast
  then show ?thesis
    using t(1,3,4) kept_trans sent_trans unfolding tells_def by (intro exI [of _ x]) fastforce
qed

lemma tells_bind:
  assumes "tells cell r s bs res" "running lit cell r f s"
    and "\<And>t. running lit cell r f t \<Longrightarrow> tells cell r t cs (g t)"
  shows "tells cell r s (bs @ cs) (res \<bind> g)"
  using tells_then [OF assms(1,2), of "\<lambda>_. cs" g] assms(3) by simp

lemma tells_step: "tells cell r s bs (Some t) \<Longrightarrow> tells cell r t cs res \<Longrightarrow> tells cell r s (bs @ cs) res"
  using kept_trans sent_trans unfolding tells_def by fastforce

lemma tells_nop: "running lit cell r f s \<Longrightarrow> tells cell r s [] (Some s)"
  by (simp add: tells_def running_def)

lemma puts_tells:
  assumes "inv s" "heap (ks_mem s) = r"
  shows "tells cell r s (load_ram p n (ks_ram s)) (ap_serial_puts api p n s)"
proof -
  obtain io where io: "ap_serial_puts api p n s = Some (ks_put_io io s)" "sent (ks_io s) (load_ram p n (ks_ram s)) io"
    using puts [OF assms(1)] by blast
  moreover have "inv (ks_put_io io s)" by (rule inv_frame [OF assms(1)]) (use io(2) in \<open>simp_all add: sent_env\<close>)
  ultimately show ?thesis using assms(2) by (simp add: tells_def kept_def)
qed

lemma print_tells: "running lit cell r f s \<Longrightarrow> str \<in> set LITERALS \<Longrightarrow> tells cell r s (str_bytes str) (print api lit str s)"
  using puts_tells [of s r cell "lit str" "length str"]
  by (simp add: running_def literals_at_def print_def lit_str_def av_serial_print_def)

lemma cell_written: "running lit cell r f s \<Longrightarrow> running lit cell r f (s\<lparr>ks_ram := (ks_ram s)(cell := b)\<rparr>)"
  using kept_literals [of cell r s "s\<lparr>ks_ram := (ks_ram s)(cell := b)\<rparr>" lit] inv_frame [of s "s\<lparr>ks_ram := (ks_ram s)(cell := b)\<rparr>"]
  by (simp add: running_def kept_def)

lemma print_digits_tells: "running lit cell r f s \<Longrightarrow> tells cell r s bs (print_digits api cell bs s)"
proof (induction bs arbitrary: s)
  case (Cons b bs)
  let ?s = "s\<lparr>ks_ram := (ks_ram s)(cell := b)\<rparr>"
  have run: "running lit cell r f ?s" using cell_written [OF Cons.prems] .
  have "tells cell r ?s ([b] @ bs) (print_digits api cell (b # bs) s)"
    unfolding print_digits.simps
    by (rule tells_bind [OF _ run Cons.IH])
      (use puts_tells [of ?s r cell cell 1] run in \<open>simp add: running_def load_ram_def av_serial_print_def\<close>)
  then show ?case using kept_trans [of cell r s ?s] by (auto simp: tells_def kept_def)
qed (simp add: tells_nop)

lemma print_num_tells:
  assumes "running lit cell r f s" shows "tells cell r s (number_text 10 v) (print_num api lit cell v s)"
proof (cases "v = 0")
  case True
  then show ?thesis
    using print_tells [OF assms, of "''0''"] by (simp add: print_num_def number_text_def LITERALS_def str_bytes_def)
next
  case False
  have "length (digits 10 (unat v)) \<le> 20" by (rule digits_length) (use unat_64 [of v] in simp)
  then have "dec_loop v [] = Some (map digit_byte (digits 10 (unat v)))" by (simp add: dec_loop_digits)
  then show ?thesis
    using False print_digits_tells [OF assms, of "number_text 10 v"] by (simp add: print_num_def number_text_def rev_map)
qed

lemma bench_loop_tells:
  assumes "\<And>i. size_of i + PAGE_SIZE \<le> 2 ^ 64" "snd r \<le> 2 ^ 64" "\<And>i. 0 < size_of i"
  shows "inv s \<Longrightarrow> heap (ks_mem s) = r \<Longrightarrow> tells cell r s [] (bench_loop api size_of mark n i s)"
proof (induction n arbitrary: i s)
  case 0
  then show ?case by (simp add: tells_def)
next
  case (Suc n)
  obtain p m where a: "ap_kmalloc api (size_of i) s = Some (p, s\<lparr>ks_mem := m\<rparr>)" "inv (s\<lparr>ks_mem := m\<rparr>)" "heap m = r"
    "p = 0 \<or> fst r \<le> unat p \<and> unat p + size_of i \<le> snd r"
    using alloc [OF Suc.prems(1), of "size_of i"] Suc.prems(2) assms(1) [of i] by auto
  show ?case
  proof (cases "p = 0")
    case True
    have "tells cell r (s\<lparr>ks_mem := m\<rparr>) [] (bench_loop api size_of mark n (i + 1) (s\<lparr>ks_mem := m\<rparr>))"
      by (rule Suc.IH) (use a in simp_all)
    then show ?thesis using True a(1) by (simp add: av_alloc_def tells_def kept_def)
  next
    case False
    let ?s = "s\<lparr>ks_mem := m, ks_ram := (ks_ram s)(p := mark)\<rparr>"
    have "inv ?s" by (rule inv_frame [OF a(2)]) simp_all
    then obtain m' where f: "ap_kfree api p (size_of i) ?s = Some (?s\<lparr>ks_mem := m'\<rparr>)" "inv (?s\<lparr>ks_mem := m'\<rparr>)" "heap m' = r"
      using free [of ?s p "size_of i"] a(3) by auto
    have "in_area r p" using a(4) False assms(3) [of i] by (simp add: in_area_def)
    then have "kept cell r s (?s\<lparr>ks_mem := m'\<rparr>)" by (auto simp: kept_def)
    moreover have "tells cell r (?s\<lparr>ks_mem := m'\<rparr>) [] (bench_loop api size_of mark n (i + 1) (?s\<lparr>ks_mem := m'\<rparr>))"
      by (rule Suc.IH) (use f in simp_all)
    ultimately have "tells cell r s [] (bench_loop api size_of mark n (i + 1) (?s\<lparr>ks_mem := m'\<rparr>))"
      using kept_trans unfolding tells_def by fastforce
    then show ?thesis using False a(1) f(1) by (simp add: av_alloc_def av_free_def)
  qed
qed

lemma timed_loop_tells:
  assumes "running lit cell r f s"
    and "\<And>i. size_of i + PAGE_SIZE \<le> 2 ^ 64" "snd r \<le> 2 ^ 64" "\<And>i. 0 < size_of i"
  obtains us t where "timed_loop api size_of mark s = Some (us, t)" "tells cell r s [] (Some t)"
proof -
  have run: "inv s" "heap (ks_mem s) = r" "room (ks_sched s)" using assms(1) by (simp_all add: running_def)
  obtain c where off: "ap_preempt_disable api s = s\<lparr>ks_sched := c\<rparr>" using preempt_off by blast
  obtain start n where r1: "ap_tsc_read api (s\<lparr>ks_sched := c\<rparr>) =
      (start, s\<lparr>ks_sched := c, ks_tsc := (ks_tsc s)\<lparr>ts_reads := n\<rparr>\<rparr>)"
    using clock [of "s\<lparr>ks_sched := c\<rparr>"] by auto
  let ?s = "s\<lparr>ks_sched := c, ks_tsc := (ks_tsc s)\<lparr>ts_reads := n\<rparr>\<rparr>"
  have "inv ?s" by (rule inv_frame [OF run(1)]) simp_all
  then have "tells cell r ?s [] (bench_loop api size_of mark ITERS 0 ?s)"
    by (rule bench_loop_tells [OF assms(2,3,4)]) (use run(2) in simp)
  then obtain u where u: "bench_loop api size_of mark ITERS 0 ?s = Some u" "inv u" "heap (ks_mem u) = r"
    "kept cell r ?s u" "sent (ks_io ?s) [] (ks_io u)" by (auto simp: tells_def)
  obtain stop n' where r2: "ap_tsc_read api u = (stop, u\<lparr>ks_tsc := (ks_tsc u)\<lparr>ts_reads := n'\<rparr>\<rparr>)"
    using clock by blast
  let ?t = "u\<lparr>ks_tsc := (ks_tsc u)\<lparr>ts_reads := n'\<rparr>, ks_sched := ks_sched s\<rparr>"
  have on: "ap_preempt_enable api (u\<lparr>ks_tsc := (ks_tsc u)\<lparr>ts_reads := n'\<rparr>\<rparr>) = ?t"
    by (rule preempt_on [OF run(3)]) (use u(4) off in \<open>simp add: kept_def\<close>)
  have "timed_loop api size_of mark s = Some (av_ticks_to_us api (stop - start) ?t, ?t)"
    by (simp add: timed_loop_def av_disable_preempt_def av_rdtsc_def av_enable_preempt_def off r1 u(1) r2 on Let_def)
  moreover have "inv ?t" by (rule inv_frame [OF u(2)]) simp_all
  then have "tells cell r s [] (Some ?t)" using u(3-5) by (simp add: tells_def kept_def)
  ultimately show thesis by (rule that)
qed

lemma print_ms_tells:
  assumes "running lit cell r f s" shows "tells cell r s (ms_text us) (print_ms api lit cell us s)"
proof -
  let ?n = "unat us mod 1000"
  have frac: "unat (us mod 1000) = ?n" by (simp add: unat_mod)
  have zero: "str_bytes ''0'' = [0x30]" "str_bytes ''.'' = [0x2E]" by (simp_all add: str_bytes_def)
  have pad: "tells cell r t (if b then [0x30] else []) (if b then print api lit ''0'' t else Some t)"
    if "running lit cell r f t" for t b
    using print_tells [OF that, of "''0''"] tells_nop [OF that] by (simp add: zero LITERALS_def)
  have layout: "ms_text us = number_text 10 (us div 1000) @ str_bytes ''.'' @ (if us mod 1000 < 100 then [0x30] else []) @
      (if us mod 1000 < 10 then [0x30] else []) @ number_text 10 (us mod 1000) @ str_bytes '' ms\<newline>''"
  proof -
    have "?n mod 100 = unat us mod 100" "?n mod 10 = unat us mod 10" by (simp_all add: mod_mod_cancel)
    moreover have "number_text 10 (us mod 1000) = (if ?n = 0 then [0x30] else map digit_byte (rev (digits 10 ?n)))"
      by (simp add: number_text_def frac flip: unat_eq_0)
    moreover have "us mod 1000 < 100 \<longleftrightarrow> ?n < 100" "us mod 1000 < 10 \<longleftrightarrow> ?n < 10"
      by (simp_all add: word_less_nat_alt frac)
    ultimately show ?thesis using digits_three [of ?n] by (simp add: ms_text_def zero)
  qed
  show ?thesis
    unfolding layout print_ms_def Let_def
    by (intro tells_bind [where lit = lit and f = f] print_num_tells print_tells pad)
      (use assms in \<open>simp_all add: LITERALS_def\<close>)
qed

lemma timed_then:
  assumes "running lit cell r f s"
    and "\<And>i. size_of i + PAGE_SIZE \<le> 2 ^ 64" "snd r \<le> 2 ^ 64" "\<And>i. 0 < size_of i"
    and "\<And>us t. running lit cell r f t \<Longrightarrow> tells cell r t (cs us) (g us t)"
  shows "\<exists>us. tells cell r s (cs us) (timed_loop api size_of mark s \<bind> (\<lambda>(us, t). g us t))"
proof -
  obtain us t where t: "timed_loop api size_of mark s = Some (us, t)" "tells cell r s [] (Some t)"
    using timed_loop_tells [OF assms(1-4), where mark = mark] .
  obtain "running lit cell r f t" using tellsE [OF t(2) assms(1)] by (metis option.inject)
  then have "tells cell r s ([] @ cs us) (Some t \<bind> g us)"
    by (intro tells_bind [OF t(2) assms(1)] assms(5))
  then show ?thesis using t(1) by auto
qed

lemma bench_slab_tells:
  assumes "running lit cell r f s" "snd r \<le> 2 ^ 64" "0 < sz" "sz \<le> 4096"
  shows "\<exists>us. tells cell r s (slab_text sz us) (bench_slab api lit cell sz s)"
  unfolding bench_slab_def slab_text_def iters_text_def append_assoc
  by (intro tells_then [where lit = lit and f = f] print_num_tells print_tells timed_then print_ms_tells)
    (use assms in \<open>simp_all add: LITERALS_def PAGE_SIZE_def\<close>)

lemma bench_buddy_tells:
  assumes "running lit cell r f s" "snd r \<le> 2 ^ 64" "order < 40"
  shows "\<exists>us. tells cell r s (buddy_text order us) (bench_buddy api lit cell order s)"
proof -
  have "(2 :: nat) ^ order \<le> 2 ^ 39" using assms(3) by (intro power_increasing) simp_all
  then have small: "(2 :: nat) ^ order * 4096 \<le> 2 ^ 51" by simp
  then have sz: "usz (shl64 1 order * 4096) = 2 ^ order * 4096" using assms(3) by simp
  have kib: "2 ^ order * 4096 div 1024 = (4 * 2 ^ order :: nat)" by simp
  show ?thesis
    unfolding bench_buddy_def buddy_text_def iters_text_def append_assoc Let_def sz kib
    by (intro tells_then [where lit = lit and f = f] print_num_tells print_tells timed_then print_ms_tells)
      (use assms small in \<open>simp_all add: LITERALS_def PAGE_SIZE_def\<close>)
qed

lemma bench_mixed_tells:
  assumes "running lit cell r f s" "snd r \<le> 2 ^ 64"
  shows "\<exists>us. tells cell r s (mixed_text us) (bench_mixed api lit cell s)"
proof -
  have "16 + i mod 8 * 32 \<le> 4096" for i :: nat
    using mod_less_divisor [of 8 i] by linarith
  then have "16 + i mod 8 * 32 + PAGE_SIZE \<le> 2 ^ 64" for i :: nat
    by (rule order_trans [OF add_right_mono]) (simp add: PAGE_SIZE_def)
  then show ?thesis
    unfolding bench_mixed_def mixed_text_def iters_text_def append_assoc
    by (intro tells_then [where lit = lit and f = f] print_num_tells print_tells timed_then print_ms_tells)
      (use assms in \<open>simp_all add: LITERALS_def\<close>)
qed

lemma each_arg_tells:
  assumes "\<And>x t. x \<in> set xs \<Longrightarrow> running lit cell r f t \<Longrightarrow> \<exists>y. tells cell r t (lbl x y) (g x t)"
  shows "running lit cell r f s \<Longrightarrow> \<exists>ys. length ys = length xs \<and> tells cell r s (concat (map2 lbl xs ys)) (each_arg g xs s)"
  using assms
proof (induction xs arbitrary: s)
  case (Cons x xs)
  obtain y where y: "tells cell r s (lbl x y) (g x s)" using Cons.prems by auto
  obtain t where t: "g x s = Some t" "running lit cell r f t" using tellsE [OF y Cons.prems(1)] by blast
  obtain ys where ys: "length ys = length xs" "tells cell r t (concat (map2 lbl xs ys)) (each_arg g xs t)"
    using Cons.IH [OF t(2)] Cons.prems(2) by auto
  have "tells cell r s (lbl x y @ concat (map2 lbl xs ys)) (each_arg g xs t)"
    by (rule tells_step [OF _ ys(2)]) (use y t(1) in simp)
  then show ?case using ys(1) t(1) by (intro exI [of _ "y # ys"]) simp
qed (simp add: tells_nop)

lemma module_entry_tells:
  assumes run: "running lit cell r f s" and r: "snd r \<le> 2 ^ 64"
  shows "\<exists>s' slabs buddies mixed. module_entry api lit cell s = Some (0, s') \<and> length slabs = 8 \<and> length buddies = 4 \<and>
    tells cell r s (report_text f slabs buddies mixed) (Some s')"
proof -
  have lit_print: "\<exists>t'. print api lit str t = Some t' \<and> running lit cell r f t' \<and> tells cell r t (str_bytes str) (Some t')"
    if "running lit cell r f t" "str \<in> set LITERALS" for str t
    using tellsE [OF print_tells [OF that] that(1)] print_tells [OF that] by metis
  have len: "length [16, 32, 64, 128, 256, 512, 1024, 2048 :: nat] = 8" "length [0, 1, 2, 4 :: nat] = 4" by simp_all
  have slab: "\<exists>us. tells cell r t (slab_text x us) (bench_slab api lit cell x t)"
    if "x \<in> set [16, 32, 64, 128, 256, 512, 1024, 2048]" "running lit cell r f t" for x t
    using that by (intro bench_slab_tells [OF _ r]) auto
  have buddy: "\<exists>us. tells cell r t (buddy_text x us) (bench_buddy api lit cell x t)"
    if "x \<in> set [0, 1, 2, 4]" "running lit cell r f t" for x t
    using that by (intro bench_buddy_tells [OF _ r]) auto
  let ?h1 = "''\<newline>Memtest: alloc benchmark\<newline>''" and ?h2 = "''TSC freq: ''" and ?h3 = "'' MHz\<newline>\<newline>''"
    and ?h4 = "''[slab allocator]\<newline>''" and ?h5 = "''\<newline>[buddy allocator]\<newline>''"
    and ?h6 = "''\<newline>[mixed workload]\<newline>''" and ?h7 = "''\<newline>done.\<newline>''"
  have lits: "?h1 \<in> set LITERALS" "?h2 \<in> set LITERALS" "?h3 \<in> set LITERALS" "?h4 \<in> set LITERALS"
    "?h5 \<in> set LITERALS" "?h6 \<in> set LITERALS" "?h7 \<in> set LITERALS" by (simp_all add: LITERALS_def)
  obtain s1 where 1: "print api lit ?h1 s = Some s1" "running lit cell r f s1" "tells cell r s (str_bytes ?h1) (Some s1)"
    using lit_print [OF run lits(1)] by blast
  obtain s2 where 2: "print api lit ?h2 s1 = Some s2" "running lit cell r f s2" "tells cell r s1 (str_bytes ?h2) (Some s2)"
    using lit_print [OF 1(2) lits(2)] by blast
  have khz: "av_tsc_khz api s2 = f" using 2(2) freq by (simp add: running_def av_tsc_khz_def)
  obtain s3 where 3: "print_num api lit cell (f div 1000) s2 = Some s3" "running lit cell r f s3"
    "tells cell r s2 (number_text 10 (f div 1000)) (Some s3)"
    using print_num_tells [OF 2(2), of "f div 1000"] tellsE [OF print_num_tells [OF 2(2)] 2(2)] by metis
  obtain s4 where 4: "print api lit ?h3 s3 = Some s4" "running lit cell r f s4" "tells cell r s3 (str_bytes ?h3) (Some s4)"
    using lit_print [OF 3(2) lits(3)] by blast
  obtain s5 where 5: "print api lit ?h4 s4 = Some s5" "running lit cell r f s5" "tells cell r s4 (str_bytes ?h4) (Some s5)"
    using lit_print [OF 4(2) lits(4)] by blast
  obtain slabs where slabs: "length slabs = 8"
    "tells cell r s5 (concat (map2 slab_text [16, 32, 64, 128, 256, 512, 1024, 2048] slabs))
       (each_arg (bench_slab api lit cell) [16, 32, 64, 128, 256, 512, 1024, 2048] s5)"
    using each_arg_tells [where lbl = slab_text and xs = "[16, 32, 64, 128, 256, 512, 1024, 2048]", OF slab 5(2)]
    unfolding len by blast
  obtain s6 where 6: "each_arg (bench_slab api lit cell) [16, 32, 64, 128, 256, 512, 1024, 2048] s5 = Some s6"
    "running lit cell r f s6" using tellsE [OF slabs(2) 5(2)] .
  obtain s7 where 7: "print api lit ?h5 s6 = Some s7" "running lit cell r f s7" "tells cell r s6 (str_bytes ?h5) (Some s7)"
    using lit_print [OF 6(2) lits(5)] by blast
  obtain buddies where buddies: "length buddies = 4"
    "tells cell r s7 (concat (map2 buddy_text [0, 1, 2, 4] buddies)) (each_arg (bench_buddy api lit cell) [0, 1, 2, 4] s7)"
    using each_arg_tells [where lbl = buddy_text and xs = "[0, 1, 2, 4]", OF buddy 7(2)]
    unfolding len by blast
  obtain s8 where 8: "each_arg (bench_buddy api lit cell) [0, 1, 2, 4] s7 = Some s8" "running lit cell r f s8"
    using tellsE [OF buddies(2) 7(2)] .
  obtain s9 where 9: "print api lit ?h6 s8 = Some s9" "running lit cell r f s9" "tells cell r s8 (str_bytes ?h6) (Some s9)"
    using lit_print [OF 8(2) lits(6)] by blast
  obtain mx where mx: "tells cell r s9 (mixed_text mx) (bench_mixed api lit cell s9)"
    using bench_mixed_tells [OF 9(2) r] by blast
  obtain s10 where 10: "bench_mixed api lit cell s9 = Some s10" "running lit cell r f s10" using tellsE [OF mx 9(2)] .
  obtain s11 where 11: "print api lit ?h7 s10 = Some s11" "tells cell r s10 (str_bytes ?h7) (Some s11)"
    using lit_print [OF 10(2) lits(7)] by blast
  have "module_entry api lit cell s = Some (0, s11)"
    unfolding module_entry_def by (simp only: 1(1) 2(1) khz 3(1) 4(1) 5(1) 6(1) 7(1) 8(1) 9(1) 10(1) 11(1) bind.bind_lunit)
  moreover have "tells cell r s (report_text f slabs buddies mx) (Some s11)"
    unfolding report_text_def
    by (intro tells_step [OF 1(3)] tells_step [OF 2(3)] tells_step [OF 3(3)] tells_step [OF 4(3)] tells_step [OF 5(3)]
        tells_step [OF slabs(2) [unfolded 6(1)]] tells_step [OF 7(3)] tells_step [OF buddies(2) [unfolded 8(1)]]
        tells_step [OF 9(3)] tells_step [OF mx [unfolded 10(1)]] 11(2))
  ultimately show ?thesis using slabs(1) buddies(1) by blast
qed

end

section \<open>Properties\<close>

text \<open>
  C36: the benchmark module over the kernel's table. On a working console, with its literals in memory
  outside the heap, the module returns 0 after sending exactly its report: the headings, and for each of
  the thirteen benchmarks its label and the time measured, in milliseconds with three decimals. The heap
  invariant holds afterwards, preemption is as enabled as before, and no memory outside the heap region
  and the module's own character buffer has changed.
\<close>

theorem memtest_reports:
  assumes "mem_inv (ks_mem s)" "tx_live (io_env (ks_io s))" "sd_preempt (ks_sched s) \<noteq> - 1"
    and "literals_at lit cell (mem_region (ks_mem s)) (ks_ram s)"
  shows "\<exists>s' slabs buddies mixed. module_entry AVARIA_API lit cell s = Some (0, s') \<and>
    length slabs = 8 \<and> length buddies = 4 \<and>
    sent (ks_io s) (report_text (ts_freq (ks_tsc s)) slabs buddies mixed) (ks_io s') \<and>
    mem_inv (ks_mem s') \<and> kept cell (mem_region (ks_mem s)) s s'"
proof -
  have "kapi.running lit cell (mem_region (ks_mem s)) (ts_freq (ks_tsc s)) s"
    using assms by (simp add: kapi.running_def ksys_inv_def)
  moreover have "snd (mem_region (ks_mem s)) \<le> 2 ^ 64" using heap_below [OF assms(1)] by simp
  ultimately show ?thesis
    using kapi.module_entry_tells unfolding kapi.tells_def ksys_inv_def by (metis (no_types, lifting) option.inject)
qed

text \<open>A memory that holds the literal number \<open>k\<close> at \<open>64 * k\<close>.\<close>

definition sample_lit :: "string \<Rightarrow> u64" where
  "sample_lit str = of_nat (64 * length (takeWhile (\<lambda>t. t \<noteq> str) LITERALS))"

definition sample_image :: ram where
  "sample_image a = (let n = unat a in of_char (LITERALS ! (n div 64) ! (n mod 64)))"

definition sample_ksys :: ksys where
  "sample_ksys =
     \<lparr>ks_tsc = \<lparr>ts_io = \<lparr>io_env = (\<lambda>_ _. 0xFF), io_trace = []\<rparr>, ts_stamps = (\<lambda>n. of_nat (1000 * n)), ts_reads = 0, ts_freq = 2000\<rparr>,
      ks_ram = sample_image,
      ks_mem = mem_init mem_boot 0x1000 [\<lparr>me_usable = True, me_base = 0x100000, me_length = 0x10000\<rparr>],
      ks_sched = sched_boot, ks_screen = \<lparr>kernel_fb = None, kernel_font = None\<rparr>, ks_fs = None, ks_file_ptr = (\<lambda>_. 0)\<rparr>"

lemma sample_literals: "literals_at sample_lit 0x1000 (0x101000, 0x111000) sample_image"
  unfolding literals_at_def
proof
  fix str assume str: "str \<in> set LITERALS"
  define k where "k = length (takeWhile (\<lambda>t. t \<noteq> str) LITERALS)"
  have k: "k < 17" "LITERALS ! k = str"
  proof -
    have less: "k < length LITERALS"
      using str length_takeWhile_le [of "\<lambda>t. t \<noteq> str" LITERALS] takeWhile_eq_all_conv [of "\<lambda>t. t \<noteq> str" LITERALS]
        takeWhile_eq_take [of "\<lambda>t. t \<noteq> str" LITERALS] by (fastforce simp: k_def le_less)
    then show "k < 17" by (simp add: LITERALS_def)
    show "LITERALS ! k = str" using nth_length_takeWhile [of "\<lambda>t. t \<noteq> str" LITERALS] less by (simp add: k_def)
  qed
  have len: "length str < 64" using str by (auto simp: LITERALS_def)
  have pos: "unat (sample_lit str + of_nat i) = 64 * k + i" if "i < 64" for i
  proof -
    have "sample_lit str + of_nat i = of_nat (64 * k + i)" by (simp add: sample_lit_def k_def)
    then show ?thesis using k(1) that by (simp del: of_nat_add of_nat_mult add: unat_of_usz)
  qed
  have "load_ram (sample_lit str) (length str) sample_image = map (\<lambda>i. of_char (str ! i)) [0..<length str]"
    unfolding load_ram_def
  proof (rule map_cong [OF refl])
    fix i assume "i \<in> set [0..<length str]"
    then have "unat (sample_lit str + of_nat i) = 64 * k + i" "i < 64" using pos [of i] len by simp_all
    then show "sample_image (sample_lit str + of_nat i) = of_char (str ! i)"
      by (simp only: sample_image_def Let_def) (simp add: k(2))
  qed
  also have "\<dots> = str_bytes str" unfolding str_bytes_def by (intro nth_equalityI) simp_all
  finally have bytes: "load_ram (sample_lit str) (length str) sample_image = str_bytes str" .
  have "sample_lit str + of_nat i \<noteq> 0x1000 \<and> \<not> in_area (0x101000, 0x111000) (sample_lit str + of_nat i)"
    if "i < length str" for i
  proof -
    have below: "unat (sample_lit str + of_nat i) < 1088" using pos [of i] that len k(1) by simp
    have "unat (0x1000 :: u64) = 4096" "unat (0x101000 :: u64) = 0x101000" by simp_all
    with below show ?thesis by (auto simp: in_area_def simp del: unat_numeral)
  qed
  with bytes show "load_ram (sample_lit str) (length str) sample_image = str_bytes str \<and>
      (\<forall>i<length str. sample_lit str + of_nat i \<noteq> 0x1000 \<and> \<not> in_area (0x101000, 0x111000) (sample_lit str + of_nat i))"
    by blast
qed

theorem memtest_reports_witness:
  "\<exists>s' slabs buddies mixed. module_entry AVARIA_API sample_lit 0x1000 sample_ksys = Some (0, s') \<and>
    length slabs = 8 \<and> length buddies = 4 \<and>
    sent (ks_io sample_ksys) (report_text 2000 slabs buddies mixed) (ks_io s') \<and> mem_inv (ks_mem s')"
proof -
  have "mem_inv (ks_mem sample_ksys)"
    by (simp add: sample_ksys_def) (rule mem_inv_init [of _ "0x100000" "0x10000"]; simp)
  moreover have "mem_region (ks_mem sample_ksys) = (0x101000, 0x111000)"
    by (simp add: sample_ksys_def mem_region_def mem_init_def mem_boot_def Let_def PAGE_SIZE_def)
  moreover have "tx_live (io_env (ks_io sample_ksys))" by (simp add: sample_ksys_def tx_live_def)
  moreover have "sd_preempt (ks_sched sample_ksys) \<noteq> - 1" by (simp add: sample_ksys_def sched_boot_def)
  moreover have "ks_ram sample_ksys = sample_image" "ts_freq (ks_tsc sample_ksys) = 2000" by (simp_all add: sample_ksys_def)
  ultimately show ?thesis
    using memtest_reports [of sample_ksys sample_lit "0x1000"] sample_literals by auto
qed

end
