(* ===== verification/Init_User.thy ===== *)
theory Init_User
  imports Kernel
begin

text \<open>
  The user program \<open>src/modules/init/src/main.rs\<close>, which enters the kernel with \<open>int 0x80\<close>. Its processor
  state is the interrupt context the kernel's dispatcher gets and gives back; \<open>lit\<close> is where the linker put
  each of its strings. The context a run
  ends with is the one the processor continues in; \<open>None\<close> at the outside is a call that does not return.
\<close>

section \<open>System calls\<close>

definition USER_SYS_EXIT :: u64 where "USER_SYS_EXIT = 0"
definition USER_SYS_SERIAL_WRITE :: u64 where "USER_SYS_SERIAL_WRITE = 1"

text \<open>The kernel as the program sees it: one interrupt, dispatched.\<close>

definition int80 :: "u64 \<Rightarrow> u64 \<Rightarrow> (u64 \<Rightarrow> u64 \<Rightarrow> u64 \<Rightarrow> kernel \<Rightarrow> kernel option) \<Rightarrow> isr_context \<Rightarrow> kernel \<Rightarrow>
    (isr_context \<times> kernel) option" where
  "int80 HLT STACK plain ctx k = interrupt_dispatch HLT STACK plain (ctx\<lparr>cx_vector := 0x80\<rparr>) k"

definition syscall1 ::
  "(isr_context \<Rightarrow> kernel \<Rightarrow> (isr_context \<times> kernel) option) \<Rightarrow> u64 \<Rightarrow> u64 \<Rightarrow> isr_context \<Rightarrow> kernel \<Rightarrow>
   (u64 \<times> isr_context \<times> kernel) option" where
  "syscall1 trap nr arg1 ctx k =
     do { (ctx, k) \<leftarrow> trap (ctx\<lparr>cx_rax := nr, cx_rdi := arg1\<rparr>) k; Some (cx_rax ctx, ctx, k) }"

definition syscall2 ::
  "(isr_context \<Rightarrow> kernel \<Rightarrow> (isr_context \<times> kernel) option) \<Rightarrow> u64 \<Rightarrow> u64 \<Rightarrow> u64 \<Rightarrow> isr_context \<Rightarrow> kernel \<Rightarrow>
   (u64 \<times> isr_context \<times> kernel) option" where
  "syscall2 trap nr arg1 arg2 ctx k =
     do { (ctx, k) \<leftarrow> trap (ctx\<lparr>cx_rax := nr, cx_rdi := arg1, cx_rsi := arg2\<rparr>) k; Some (cx_rax ctx, ctx, k) }"

section \<open>The program\<close>

definition user_serial_print ::
  "(isr_context \<Rightarrow> kernel \<Rightarrow> (isr_context \<times> kernel) option) \<Rightarrow> u64 \<times> usize \<Rightarrow> isr_context \<Rightarrow> kernel \<Rightarrow>
   (isr_context \<times> kernel) option" where
  "user_serial_print trap str ctx k =
     do { (ret, ctx, k) \<leftarrow> syscall2 trap USER_SYS_SERIAL_WRITE (fst str) (of_nat (snd str)) ctx k; Some (ctx, k) }"

text \<open>\<open>exit\<close> up to its \<open>hlt\<close> loop, which runs only if the kernel returns to the program.\<close>

definition user_exit ::
  "(isr_context \<Rightarrow> kernel \<Rightarrow> (isr_context \<times> kernel) option) \<Rightarrow> u64 \<Rightarrow> isr_context \<Rightarrow> kernel \<Rightarrow> (isr_context \<times> kernel) option" where
  "user_exit trap code ctx k = do { (ret, ctx, k) \<leftarrow> syscall1 trap USER_SYS_EXIT code ctx k; Some (ctx, k) }"

definition HELLO :: string where "HELLO = ''Hello from ring 3 userspace!\<newline>''"
definition CALLING_EXIT :: string where "CALLING_EXIT = ''init: calling exit(0)\<newline>''"
definition INIT_PANIC :: string where "INIT_PANIC = ''init: PANIC!\<newline>''"

definition init_start ::
  "(isr_context \<Rightarrow> kernel \<Rightarrow> (isr_context \<times> kernel) option) \<Rightarrow> (string \<Rightarrow> u64) \<Rightarrow> isr_context \<Rightarrow> kernel \<Rightarrow>
   (isr_context \<times> kernel) option" where
  "init_start trap lit ctx k =
     do { (ctx, k) \<leftarrow> user_serial_print trap (lit HELLO, length HELLO) ctx k;
          (ctx, k) \<leftarrow> user_serial_print trap (lit CALLING_EXIT, length CALLING_EXIT) ctx k;
          user_exit trap 0 ctx k }"

definition init_panic ::
  "(isr_context \<Rightarrow> kernel \<Rightarrow> (isr_context \<times> kernel) option) \<Rightarrow> (string \<Rightarrow> u64) \<Rightarrow> isr_context \<Rightarrow> kernel \<Rightarrow>
   (isr_context \<times> kernel) option" where
  "init_panic trap lit ctx k =
     do { (ctx, k) \<leftarrow> user_serial_print trap (lit INIT_PANIC, length INIT_PANIC) ctx k; user_exit trap 1 ctx k }"

section \<open>What a call does\<close>

text \<open>A kernel whose system call gate is registered and whose console works.\<close>

definition serves_calls :: "kernel \<Rightarrow> bool" where
  "serves_calls k \<longleftrightarrow> id_ctx_handlers (kn_idt k) ! 0x80 = Some Syscall_dispatch \<and> tx_live (io_env (sy_io k))"

text \<open>Only the console moves between \<open>k\<close> and \<open>k'\<close>, and it sends \<open>bs\<close>.\<close>

definition call_sent :: "kernel \<Rightarrow> u8 list \<Rightarrow> kernel \<Rightarrow> bool" where
  "call_sent k bs k' \<longleftrightarrow> (\<exists>io. k' = k\<lparr>sy_io := io\<rparr> \<and> sent (sy_io k) bs io)"

lemma call_sent_trans: "call_sent k bs k' \<Longrightarrow> call_sent k' cs k'' \<Longrightarrow> call_sent k (bs @ cs) k''"
  unfolding call_sent_def using sent_trans by fastforce

lemma call_sent_serves: "call_sent k bs k' \<Longrightarrow> serves_calls k \<Longrightarrow> serves_calls k' \<and> kn_ram k' = kn_ram k"
  by (auto simp: call_sent_def serves_calls_def sent_def)

lemma int80_dispatch:
  assumes "serves_calls k"
  shows "int80 HLT STACK plain ctx k =
    map_option (\<lambda>(ctx, io). (ctx, k\<lparr>sy_io := io\<rparr>)) (syscall_dispatch HLT STACK (kn_ram k) (ctx\<lparr>cx_vector := 0x80\<rparr>) (sy_io k))"
  using assms
  by (cases "syscall_dispatch HLT STACK (kn_ram k) (ctx\<lparr>cx_vector := 0x80\<rparr>) (sy_io k)")
    (auto simp: int80_def interrupt_dispatch_def serves_calls_def IDT_ENTRIES_def run_ctx_handler_def)

lemma user_print_sends:
  assumes k: "serves_calls k" and "p \<noteq> 0" "n < 4096"
  shows "\<exists>ctx' k'. user_serial_print (int80 HLT STACK plain) (p, n) ctx k = Some (ctx', k') \<and>
    call_sent k (ram_bytes (kn_ram k) p n) k' \<and> cx_rip ctx' = cx_rip ctx \<and> cx_cs ctx' = cx_cs ctx"
proof -
  let ?ctx = "ctx\<lparr>cx_rax := 1, cx_rdi := p, cx_rsi := of_nat n, cx_vector := 0x80\<rparr>"
  have live: "tx_live (io_env (sy_io k))" using k by (simp add: serves_calls_def)
  have "unat (of_nat n :: u64) = n" using assms(3) by (intro unat_of_usz) simp
  then have "\<exists>io'. syscall_dispatch HLT STACK (kn_ram k) ?ctx (sy_io k) = Some (?ctx\<lparr>cx_rax := 0\<rparr>, io') \<and>
      sent (sy_io k) (ram_bytes (kn_ram k) p n) io'"
    using put_bytes_sends [OF live, of "ram_bytes (kn_ram k) p n"] assms(2,3)
    by (auto simp: syscall_dispatch_def SYS_EXIT_def SYS_SERIAL_WRITE_def)
  then show ?thesis
    by (auto simp: user_serial_print_def syscall2_def int80_dispatch [OF k] USER_SYS_SERIAL_WRITE_def call_sent_def)
qed

lemma user_exit_halts:
  assumes k: "serves_calls k"
  shows "\<exists>ctx' k'. user_exit (int80 HLT STACK plain) code ctx k = Some (ctx', k') \<and>
    call_sent k (str_bytes ''syscall: exit('' @ number_text 10 code @ str_bytes '')\<newline>'') k' \<and>
    cx_rip ctx' = HLT \<and> cx_cs ctx' = 0x08 \<and> cx_rsp ctx' = STACK + 0x2000"
proof -
  let ?ctx = "ctx\<lparr>cx_rax := 0, cx_rdi := code, cx_vector := 0x80\<rparr>"
  have live: "tx_live (io_env (sy_io k))" using k by (simp add: serves_calls_def)
  have "\<exists>io'. do { u \<leftarrow> puts ''syscall: exit('' (sy_io k); u \<leftarrow> dec code u; puts '')\<newline>'' u } = Some io' \<and>
      sent (sy_io k) (str_bytes ''syscall: exit('' @ number_text 10 code @ str_bytes '')\<newline>'') io'"
    using prints_message(2) [OF live] by (simp add: prints_def)
  then show ?thesis
    by (auto simp: user_exit_def syscall1_def int80_dispatch [OF k] USER_SYS_EXIT_def call_sent_def syscall_dispatch_def
        SYS_EXIT_def bind_eq_Some_conv)
qed

section \<open>Properties\<close>

text \<open>
  C37: the init program against the kernel. With its strings in memory at addresses other than null, on a
  kernel whose gate 0x80 is registered and whose console works, the program sends its two lines and the
  kernel's exit message, in this order, and then does not run again: the processor continues in the
  kernel's halt loop. Nothing of the kernel but the console has changed.
\<close>

theorem init_prints_and_exits:
  assumes "serves_calls k" "lit HELLO \<noteq> 0" "lit CALLING_EXIT \<noteq> 0"
    and "ram_bytes (kn_ram k) (lit HELLO) (length HELLO) = str_bytes HELLO"
    and "ram_bytes (kn_ram k) (lit CALLING_EXIT) (length CALLING_EXIT) = str_bytes CALLING_EXIT"
  shows "\<exists>ctx' k'. init_start (int80 HLT STACK plain) lit ctx k = Some (ctx', k') \<and>
    call_sent k (str_bytes (HELLO @ CALLING_EXIT @ ''syscall: exit(0)\<newline>'')) k' \<and>
    cx_rip ctx' = HLT \<and> cx_cs ctx' = 0x08 \<and> cx_rsp ctx' = STACK + 0x2000"
proof -
  have len: "length HELLO < 4096" "length CALLING_EXIT < 4096" by (simp_all add: HELLO_def CALLING_EXIT_def)
  obtain c1 k1 where 1: "user_serial_print (int80 HLT STACK plain) (lit HELLO, length HELLO) ctx k = Some (c1, k1)"
    "call_sent k (str_bytes HELLO) k1"
    using user_print_sends [OF assms(1,2) len(1)] assms(4) by fastforce
  note k1 = call_sent_serves [OF 1(2) assms(1)]
  obtain c2 k2 where 2: "user_serial_print (int80 HLT STACK plain) (lit CALLING_EXIT, length CALLING_EXIT) c1 k1 = Some (c2, k2)"
    "call_sent k1 (str_bytes CALLING_EXIT) k2"
    using user_print_sends [OF _ assms(3) len(2), of k1] k1 assms(5) by fastforce
  have k2: "serves_calls k2" using call_sent_serves [OF 2(2)] k1 by simp
  obtain c3 k3 where 3: "user_exit (int80 HLT STACK plain) 0 c2 k2 = Some (c3, k3)"
    "call_sent k2 (str_bytes ''syscall: exit('' @ number_text 10 0 @ str_bytes '')\<newline>'') k3"
    "cx_rip c3 = HLT" "cx_cs c3 = 0x08" "cx_rsp c3 = STACK + 0x2000"
    using user_exit_halts [OF k2] by blast
  have "call_sent k (str_bytes HELLO @ str_bytes CALLING_EXIT @
      (str_bytes ''syscall: exit('' @ number_text 10 0 @ str_bytes '')\<newline>'')) k3"
    by (intro call_sent_trans [OF 1(2)] call_sent_trans [OF 2(2)] 3(2))
  then have "call_sent k (str_bytes (HELLO @ CALLING_EXIT @ ''syscall: exit(0)\<newline>'')) k3"
    by (simp add: str_bytes_def number_text_def)
  then show ?thesis using 1(1) 2(1) 3 by (simp add: init_start_def)
qed

definition init_image :: "u64 \<Rightarrow> u8" where
  "init_image a = (let n = unat a in of_char ((HELLO @ CALLING_EXIT) ! (n - 0x100)))"

theorem init_prints_and_exits_witness:
  defines "k \<equiv> demo_kernel\<lparr>kn_ram := init_image\<rparr>"
  defines "lit \<equiv> (\<lambda>str. if str = HELLO then 0x100 else 0x11D)"
  shows "\<exists>ctx' k'. init_start (int80 0x9000 0x8000 (\<lambda>_ _ _ k. None)) lit demo_ctx k = Some (ctx', k') \<and>
    written COM1 (sy_io k') = written COM1 (sy_io k) @ str_bytes (HELLO @ CALLING_EXIT @ ''syscall: exit(0)\<newline>'') \<and>
    cx_rip ctx' = 0x9000"
proof -
  have bytes: "ram_bytes init_image (of_nat (0x100 + j)) n = map of_char (take n (drop j (HELLO @ CALLING_EXIT)))"
    if "j + n \<le> length (HELLO @ CALLING_EXIT)" for j n
  proof (intro nth_equalityI)
    fix i assume "i < length (ram_bytes init_image (of_nat (0x100 + j)) n)"
    then have i: "i < n" by (simp add: ram_bytes_def)
    have "length (HELLO @ CALLING_EXIT) < 1000" by (simp add: HELLO_def CALLING_EXIT_def)
    then have "unat (of_nat (0x100 + j + i) :: u64) = 0x100 + j + i" using i that by (intro unat_of_usz) simp
    then have "init_image (of_nat (0x100 + j + i)) = of_char ((HELLO @ CALLING_EXIT) ! (j + i))"
      by (simp only: init_image_def Let_def) simp
    then show "ram_bytes init_image (of_nat (0x100 + j)) n ! i = map of_char (take n (drop j (HELLO @ CALLING_EXIT))) ! i"
      using i that by (simp add: ram_bytes_def add.assoc del: map_append take_append drop_append)
  qed (use that in \<open>simp add: ram_bytes_def\<close>)
  have "ram_bytes init_image 0x100 (length HELLO) = str_bytes HELLO"
    using bytes [of 0 "length HELLO"] by (simp add: str_bytes_def)
  moreover have "length HELLO = 29" by (simp add: HELLO_def)
  then have "ram_bytes init_image 0x11D (length CALLING_EXIT) = str_bytes CALLING_EXIT"
    using bytes [of "length HELLO" "length CALLING_EXIT"] by (simp add: str_bytes_def)
  moreover have "HELLO \<noteq> CALLING_EXIT" by (simp add: HELLO_def CALLING_EXIT_def)
  moreover have "serves_calls k"
    using booted_handlers(1) [of 128 "\<lambda>i. of_nat i" True] demo_kernel_inv
    by (simp add: serves_calls_def k_def demo_kernel_def system.defs kernel_inv_def)
  ultimately show ?thesis
    using init_prints_and_exits [of k lit "0x9000" "0x8000" "\<lambda>_ _ _ k. None" demo_ctx]
    by (fastforce simp: k_def lit_def call_sent_def sent_def)
qed

end
