(* ===== verification/Devices_Up.thy ===== *)
theory Devices_Up
  imports Lapic Ahci Ps2 Cpu
begin

text \<open>
  Bringing up the devices: the part of \<open>_start\<close> (\<open>src/main.rs\<close>) from \<open>lapic::init\<close> to \<open>ahci::init\<close>.
  Whatever the hardware answers, the console works on, every loop ends, the heap invariant is kept, and a
  disk port that was activated has its three structures in pages of the heap.
\<close>

section \<open>The code\<close>

definition IA32_APIC_BASE_MSR :: u32 where "IA32_APIC_BASE_MSR = 0x1B"

definition start_devices ::
  "u64 \<Rightarrow> u64 \<Rightarrow> cpu \<Rightarrow> idt \<Rightarrow> pci \<Rightarrow> ahci \<Rightarrow> hw \<Rightarrow> qwords \<Rightarrow> (cpu \<times> idt \<times> pci \<times> ahci \<times> hw \<times> qwords \<times> u64) option" where
  "start_devices cr3 hhdm c d p a s m =
     do { (s, m, lapic_base) \<leftarrow> lapic_init (rdmsr IA32_APIC_BASE_MSR c) cr3 hhdm s m;
          let c = sti c;
          (d, io) \<leftarrow> ps2_init d (hw_io s);
          (p, s) \<leftarrow> pci_scan p (s\<lparr>hw_io := io\<rparr>);
          s \<leftarrow> pci_dump p s;
          (a, s, m) \<leftarrow> ahci_init cr3 p a s m;
          Some (c, d, p, a, s, m, lapic_base) }"

section \<open>What every driver keeps\<close>

definition sound :: "usize \<times> usize \<Rightarrow> hw \<Rightarrow> bool" where
  "sound r s \<longleftrightarrow> live s \<and> mem_inv (hw_heap s) \<and> mem_region (hw_heap s) = r"

lemma sound_say:
  assumes "sound r s" obtains s' where "say cs s = Some s'" "sound r s'"
  by (rule say_prints [of s cs]) (use assms in \<open>auto simp: sound_def printed_def intro!: that\<close>)

lemma sound_ops [simp]:
  "sound r (snd (mmio_read a s)) = sound r s" "sound r (mmio_write a v s) = sound r s"
  "sound r (snd (inl p s)) = sound r s" "sound r (outl p w s) = sound r s" "sound r (s\<lparr>hw_ram := m\<rparr>) = sound r s"
  by (simp_all add: sound_def) (simp_all add: mmio_read_def mmio_write_def inl_def outl_def Let_def)

lemma sound_port [simp]:
  "sound r (snd (port_read d port f s)) = sound r s" "sound r (port_write d port f v s) = sound r s"
  by (simp_all add: port_read_def port_write_def)

lemma sound_drove: "drove s tr s' \<Longrightarrow> sound r s \<Longrightarrow> sound r s'"
  by (simp add: drove_def sound_def)

lemma sound_poll: "sound r s \<Longrightarrow> sound r (snd (poll_port n d port f ok s))"
  using poll_port_runs sound_drove by blast

lemma sound_new_heap: "sound r s \<Longrightarrow> mem_inv h \<Longrightarrow> mem_region h = r \<Longrightarrow> sound r (s\<lparr>hw_heap := h\<rparr>)"
  by (simp add: sound_def live_def)

text \<open>Pages from the allocator.\<close>

lemma pages_inv:
  assumes "mem_inv h" shows "mem_inv (fst (mem_alloc_pages h k))" "mem_region (fst (mem_alloc_pages h k)) = mem_region h"
  using heap_step_safe [OF assms, of "AllocPages k"] by simp_all

definition heap_page :: "usize \<times> usize \<Rightarrow> u64 \<Rightarrow> bool" where
  "heap_page r p \<longleftrightarrow> p \<noteq> 0 \<and> fst r \<le> unat p \<and> unat p + 4096 \<le> snd r"

lemma region_below:
  assumes "mem_inv h" shows "snd (mem_region h) < 2 ^ 64"
  using assms by (simp add: mem_inv_def region_ok_def mem_region_def)

lemma sound_aligned:
  assumes "sound r s"
  obtains p s' where "on_heap (\<lambda>h. kmalloc_aligned h 4096 4096) s = Some (p, s')" "sound r s'"
    "p = 0 \<or> heap_page r (of_nat p)"
proof -
  have inv: "mem_inv (hw_heap s)" "mem_region (hw_heap s) = r" using assms by (simp_all add: sound_def)
  obtain h p where k: "kmalloc_aligned (hw_heap s) 4096 4096 = Some (h, p)"
    using aheap.alloc_returns [OF inv(1), of "(4096, 4096)"] by (auto simp: PAGE_SIZE_def)
  have h: "mem_inv h" "mem_region h = r" "p = 0 \<or> fst r \<le> p \<and> p + 4096 \<le> snd r"
    using aheap.alloc_inv [OF inv(1), of "(4096, 4096)" h p] aheap.alloc_region [OF inv(1), of "(4096, 4096)" h p] k inv(2)
    by (auto simp: PAGE_SIZE_def)
  have "heap_page r (of_nat p)" if "p \<noteq> 0"
  proof -
    have "p < 2 ^ 64" using h(3) that region_below [OF inv(1)] inv(2) by simp
    then have "unat (of_nat p :: u64) = p" by (rule unat_of_usz)
    then show ?thesis using h(3) that unfolding heap_page_def by (metis unat_0)
  qed
  then show thesis using that [of p "s\<lparr>hw_heap := h\<rparr>"] k sound_new_heap [OF assms h(1,2)] by (auto simp: on_heap_def)
qed

section \<open>Mapping device memory\<close>

lemma add_table_inv:
  assumes "mem_inv h" "add_table h slot m = (h', r)" shows "mem_inv h'" "mem_region h' = mem_region h"
  using assms pages_inv [OF assms(1), of 0] by (auto simp: add_table_def split: if_splits prod.splits option.splits)

lemma mmio_page_inv:
  assumes "mem_inv h" "mmio_page hhdm root phys h m = (h', m', ok)" shows "mem_inv h' \<and> mem_region h' = mem_region h"
  using assms add_table_inv
  by (auto simp: mmio_page_def Let_def split: prod.splits option.splits if_splits) (metis add_table_inv)+

lemma mmio_loop_inv:
  "mem_inv h \<Longrightarrow> mmio_loop hhdm root phys n h m = (h', m', ok) \<Longrightarrow> mem_inv h' \<and> mem_region h' = mem_region h"
proof (induction n arbitrary: phys h m)
  case (Suc n)
  obtain h1 m1 ok1 where 1: "mmio_page hhdm root phys h m = (h1, m1, ok1)" by (metis prod_cases3)
  then show ?case using Suc.IH [of h1 "phys + 0x1000" m1] Suc.prems mmio_page_inv [OF Suc.prems(1) 1] by (auto split: if_splits)
qed simp

lemma map_mmio_inv:
  assumes "mem_inv h" "map_mmio cr3 phys n h m = (h', m', r)" shows "mem_inv h'" "mem_region h' = mem_region h"
proof -
  obtain h1 m1 ok where "mmio_loop (m_hhdm h) (page_base cr3) phys n h m = (h1, m1, ok)" by (metis prod_cases3)
  then show "mem_inv h'" "mem_region h' = mem_region h" using mmio_loop_inv assms by (fastforce simp: map_mmio_def)+
qed

section \<open>Local APIC and PCI bus\<close>

lemma map_lapic_sound:
  assumes "sound r s" shows "\<exists>s' m' va. map_lapic_page cr3 hhdm s m = Some (s', m', va) \<and> sound r s'"
proof -
  obtain h pg where al: "mem_alloc_pages (hw_heap s) 0 = (h, pg)" by fastforce
  have h: "sound r (s\<lparr>hw_heap := h\<rparr>)"
    using pages_inv [of "hw_heap s" 0] al assms by (intro sound_new_heap) (simp_all add: sound_def)
  have say: "\<exists>s'. say cs t = Some s' \<and> sound r s'" if "sound r t" for cs t using sound_say [OF that] by metis
  show ?thesis
    using say [OF assms] say [OF h] assms h al
    by (auto simp: map_lapic_page_def Let_def split: option.splits) (metis bind.bind_lunit)+
qed

lemma lapic_init_sound:
  assumes "sound r s" shows "\<exists>s' m' va. lapic_init msr cr3 hhdm s m = Some (s', m', va) \<and> sound r s'"
proof -
  obtain s1 where 1: "say [Str ''lapic: MSR=0x'', Hex msr, Str ''\<newline>''] s = Some s1" "sound r s1"
    using sound_say [OF assms] .
  obtain s2 m' va where 2: "map_lapic_page cr3 hhdm s1 m = Some (s2, m', va)" "sound r s2" using map_lapic_sound [OF 1(2)] by blast
  show ?thesis
  proof (cases "va = 0")
    case True
    obtain s3 where "say [Str ''lapic: mapping failed\<newline>''] s2 = Some s3" "sound r s3" using sound_say [OF 2(2)] .
    then show ?thesis using 1(1) 2(1) True by (simp add: lapic_init_def)
  next
    case False
    obtain s3 where 3: "say [Str ''lapic: mapped at 0x'', Hex va, Str ''\<newline>''] s2 = Some s3" "sound r s3" using sound_say [OF 2(2)] .
    let ?s4 = "snd (lapic_read_reg va SVR s3)"
    let ?s5 = "snd (lapic_read_reg va LINT0 ?s4)"
    have 5: "sound r ?s5" using 3(2) by (simp add: lapic_read_reg_def)
    obtain s6 where 6: "say [Str ''lapic: SVR=0x'', Hex (ucast (fst (lapic_read_reg va SVR s3))), Str '' LINT0=0x'',
        Hex (ucast (fst (lapic_read_reg va LINT0 ?s4))), Str ''\<newline>''] ?s5 = Some s6" "sound r s6" using sound_say [OF 5] .
    let ?s7 = "lapic_write_reg va LINT1 (push_bit 8 4) (lapic_write_reg va LINT0 (push_bit 8 7)
      (lapic_write_reg va SVR ((fst (lapic_read_reg va SVR s3) OR push_bit 8 1) OR 0xFF) s6))"
    let ?s8 = "snd (lapic_read_reg va SVR ?s7)"
    let ?s9 = "snd (lapic_read_reg va LINT0 ?s8)"
    have 9: "sound r ?s9" using 6(2) by (simp add: lapic_read_reg_def lapic_write_reg_def)
    obtain s10 where 10: "say [Str ''lapic: SVR=0x'', Hex (ucast (fst (lapic_read_reg va SVR ?s7))), Str '' LINT0=0x'',
        Hex (ucast (fst (lapic_read_reg va LINT0 ?s8))), Str '' OK\<newline>''] ?s9 = Some s10" "sound r s10" using sound_say [OF 9] .
    show ?thesis
      unfolding lapic_init_def 1(1) Option.bind_lunit 2(1) prod.case if_not_P [OF False] 3(1) Let_def split_beta fst_conv snd_conv 6(1) 10(1)
      using 10(2) by simp
  qed
qed

lemma looked_sound: "looked s s' \<Longrightarrow> sound r s' = sound r s"
  by (auto simp: looked_def sound_def live_def)

lemma config_sound [simp]:
  "sound r (snd (config_read32 a off s)) = sound r s" "sound r (config_write32 a off v s) = sound r s"
  "sound r (snd (config_read16 a off s)) = sound r s" "sound r (snd (config_read8 a off s)) = sound r s"
  by (simp_all add: config_read32_def config_write32_def config_read16_def config_read8_def Let_def split_beta)

lemma fold_sound:
  assumes "\<And>x st. sound r (snd (snd st)) \<Longrightarrow> sound r (snd (snd (f x st)))"
  shows "sound r (snd (snd st)) \<Longrightarrow> sound r (snd (snd (fold f xs st)))"
  using assms by (induction xs arbitrary: st) auto

lemma scan_sound: "sound r (snd (snd st)) \<Longrightarrow> sound r (snd (snd (scan_bus bus st)))"
proof -
  have func: "sound r (snd (snd (scan_func bus dev func st)))" if "sound r (snd (snd st))" for bus dev func st
    using that by (simp add: scan_func_def Let_def split_beta pci_vendor_def pci_device_id_def pci_class_code_def
        pci_subclass_def pci_prog_if_def)
  have "sound r (snd (snd (scan_dev bus dev st)))" if "sound r (snd (snd st))" for bus dev st
    using that by (simp add: scan_dev_def Let_def split_beta pci_vendor_def pci_header_type_def) (auto intro!: fold_sound func)
  then show "sound r (snd (snd st)) \<Longrightarrow> sound r (snd (snd (scan_bus bus st)))"
    unfolding scan_bus_def by (rule fold_sound)
qed

lemma pci_scan_sound:
  assumes "sound r s" shows "\<exists>p' s'. pci_scan p s = Some (p', s') \<and> sound r s'"
proof -
  obtain n p' s1 where 1: "fold (\<lambda>bus. scan_bus (of_nat bus)) [0..<256] (0, p, s) = (n, p', s1)" by (metis prod_cases3)
  have "sound r (snd (snd (fold (\<lambda>bus. scan_bus (of_nat bus)) [0..<256] (0 :: nat, p, s))))"
    by (rule fold_sound) (use assms scan_sound in auto)
  then have "sound r s1" unfolding 1 by simp
  from sound_say [OF this] obtain s2 where "say [Str ''PCI: found '', Dec (of_nat n), Str '' devices\<newline>''] s1 = Some s2" "sound r s2" .
  then show ?thesis unfolding pci_scan_def 1 by simp
qed

section \<open>Disk ports\<close>

definition ports_ok :: "usize \<times> usize \<Rightarrow> ahci \<Rightarrow> bool" where
  "ports_ok r d \<longleftrightarrow> (\<forall>i. bit (ah_active d) i \<longrightarrow> heap_page r (ah_clb d i) \<and> heap_page r (ah_fb d i) \<and> heap_page r (ah_ctba d i))"

lemma stop_port_sound:
  assumes "sound r s" obtains s' where "stop_port d port s = Some s'" "sound r s'"
proof -
  let ?c = "fst (port_read d port Cmd s)"
  let ?s2 = "port_write d port Cmd ((?c AND NOT PORT_CMD_ST) AND NOT PORT_CMD_FRE)
    (port_write d port Cmd (?c AND NOT PORT_CMD_ST) (snd (port_read d port Cmd s)))"
  obtain ok s3 where p: "poll_port PORT_POLLS d port Cmd (\<lambda>c. c AND PORT_CMD_CR = 0 \<and> c AND PORT_CMD_FR = 0) ?s2 = (ok, s3)" by fastforce
  have "sound r ?s2" using assms by simp
  from sound_poll [OF this, of PORT_POLLS d port Cmd "\<lambda>c. c AND PORT_CMD_CR = 0 \<and> c AND PORT_CMD_FR = 0"]
  have s3: "sound r s3" unfolding p by simp
  obtain s4 where "say [Str ''ahci: WARN: port stop timeout\<newline>''] s3 = Some s4" "sound r s4" using sound_say [OF s3] .
  then show thesis using that [of s3] that [of s4] p s3 by (cases ok) (simp_all add: stop_port_def Let_def split_beta)
qed

lemma start_port_sound: "sound r s \<Longrightarrow> sound r (start_port d port s)"
  by (simp add: start_port_def Let_def split_beta sound_poll)

lemma port_page_sound:
  assumes "sound r s"
  obtains p s' where "port_page what port s = Some (p, s')" "sound r s'" "\<And>q. p = Some q \<Longrightarrow> heap_page r q"
proof -
  obtain p s1 where 1: "on_heap (\<lambda>h. kmalloc_aligned h 4096 4096) s = Some (p, s1)" "sound r s1" "p = 0 \<or> heap_page r (of_nat p)"
    using sound_aligned [OF assms] .
  obtain s2 where 2: "say [Str ''ahci: failed to alloc '', Str what, Str '' for port '', Dec (of_nat port), Str ''\<newline>''] s1 = Some s2"
    "sound r s2" using sound_say [OF 1(2)] .
  show thesis
  proof (cases "p = 0")
    case True
    then show ?thesis using that [of None s2] 1(1) 2 by (simp add: port_page_def)
  next
    case False
    then show ?thesis
      using that [of "Some (of_nat p)" "s1\<lparr>hw_ram := fill_ram (of_nat p) 4096 0 (hw_ram s1)\<rparr>"] 1 by (simp add: port_page_def)
  qed
qed

text \<open>One port: on success its three structures are pages of the heap; the other ports are left alone.\<close>

lemma init_port_sound:
  assumes "sound r s"
  obtains ok d' s' where "init_port d port s = Some (ok, d', s')" "sound r s'" "ah_active d' = ah_active d"
    "\<forall>i. i \<noteq> port \<or> \<not> ok \<longrightarrow> ah_clb d' i = ah_clb d i \<and> ah_fb d' i = ah_fb d i \<and> ah_ctba d' i = ah_ctba d i"
    "ok \<longrightarrow> heap_page r (ah_clb d' port) \<and> heap_page r (ah_fb d' port) \<and> heap_page r (ah_ctba d' port)"
proof -
  obtain s1 where stop: "stop_port d port s = Some s1" "sound r s1" using stop_port_sound [OF assms] .
  obtain p2 s2 where clb: "port_page ''CLB'' port s1 = Some (p2, s2)" "sound r s2" "\<And>q. p2 = Some q \<Longrightarrow> heap_page r q"
    using port_page_sound [OF stop(2)] by metis
  obtain p3 s3 where fb: "port_page ''FB'' port s2 = Some (p3, s3)" "sound r s3" "\<And>q. p3 = Some q \<Longrightarrow> heap_page r q"
    using port_page_sound [OF clb(2)] by metis
  obtain p4 s4 where ct: "port_page ''CT'' port s3 = Some (p4, s4)" "sound r s4" "\<And>q. p4 = Some q \<Longrightarrow> heap_page r q"
    using port_page_sound [OF fb(2)] by metis
  consider (no_clb) "p2 = None" | (no_fb) q where "p2 = Some q" "p3 = None"
    | (no_ct) q u where "p2 = Some q" "p3 = Some u" "p4 = None"
    | (all) q u v where "p2 = Some q" "p3 = Some u" "p4 = Some v" by (cases p2; cases p3; cases p4) auto
  then show thesis
  proof cases
    case no_clb
    then show ?thesis using that [of False d s2] stop clb by (simp add: init_port_def)
  next
    case no_fb
    then show ?thesis using that [of False d s3] stop clb fb by (simp add: init_port_def)
  next
    case no_ct
    then show ?thesis using that [of False d s4] stop clb fb ct by (simp add: init_port_def)
  next
    case all
    let ?d = "d\<lparr>ah_clb := (ah_clb d)(port := q), ah_fb := (ah_fb d)(port := u), ah_ctba := (ah_ctba d)(port := v)\<rparr>"
    obtain s' where "init_port d port s = Some (True, ?d, s')" "sound r s'"
      using all stop clb(1) fb(1) ct(1,2) by (simp add: init_port_def Let_def start_port_sound)
    then show ?thesis using that [of True ?d s'] all clb(3) fb(3) ct(3) by simp
  qed
qed

text \<open>Identification only reads and prints.\<close>

lemma identify_sound:
  assumes "sound r s" obtains s' where "identify_device d port s = Some s'" "sound r s'"
proof -
  let ?b = "ah_identify d"
  let ?s0 = "s\<lparr>hw_ram := fill_ram ?b 512 0 (hw_ram s)\<rparr>"
  obtain ready s1 where w: "wait_port_ready d port ?s0 = (ready, s1)" by fastforce
  have s1: "sound r s1" using sound_poll [of r ?s0 PORT_POLLS d port Tfd] assms w unfolding wait_port_ready_def
    by (metis snd_conv sound_ops(5))
  let ?c = "setup_command d port ATA_CMD_IDENTIFY 0 1 (virt_to_phys (hw_heap s) (unat ?b)) 512 False s1"
  have c: "sound r ?c" using s1 by (simp add: setup_command_def Let_def)
  then obtain ok s2 tr where i: "issue_command d port ?c = Some (ok, s2)" "drove ?c tr s2"
    using issue_command_returns [of ?c d port] by (auto simp: sound_def)
  have s2: "sound r s2" using sound_drove [OF i(2) c] .
  have say: "\<exists>s'. say cs t = Some s' \<and> sound r s'" if "sound r t" for cs t using sound_say [OF that] by metis
  have "\<exists>s'. identify_device d port s = Some s' \<and> sound r s'"
    using w i(1) say [OF assms] say [OF s1] say [OF s2] by (simp add: identify_device_def Let_def)
  then show thesis using that by blast
qed

lemma init_one_sound:
  assumes "sound r s" "ports_ok r d" "i < 32"
  shows "\<exists>d' s'. init_one pi i (d, s) = Some (d', s') \<and> sound r s' \<and> ports_ok r d'"
proof -
  have say: "\<exists>s'. say cs t = Some s' \<and> sound r s'" if "sound r t" for cs t using sound_say [OF that] by metis
  let ?s1 = "snd (port_read d i Ssts s)"
  let ?s2 = "snd (port_read d i Sig ?s1)"
  have s2: "sound r ?s2" using assms(1) by simp
  obtain s3 where 3: "say [Str ''ahci: port '', Dec (of_nat i), Str '' '', Raw [0xE2, 0x80, 0x94], Str '' SATA disk detected\<newline>''] ?s2 = Some s3"
    "sound r s3" using sound_say [OF s2] .
  obtain ok d' s4 where 4: "init_port d i s3 = Some (ok, d', s4)" "sound r s4" "ah_active d' = ah_active d"
    "\<forall>j. j \<noteq> i \<or> \<not> ok \<longrightarrow> ah_clb d' j = ah_clb d j \<and> ah_fb d' j = ah_fb d j \<and> ah_ctba d' j = ah_ctba d j"
    "ok \<longrightarrow> heap_page r (ah_clb d' i) \<and> heap_page r (ah_fb d' i) \<and> heap_page r (ah_ctba d' i)"
    using init_port_sound [OF 3(2), of d i] .
  let ?d = "d'\<lparr>ah_active := ah_active d' OR push_bit i 1\<rparr>"
  obtain s5 where 5: "identify_device ?d i s4 = Some s5" "sound r s5" using identify_sound [OF 4(2)] .
  have failed: "ports_ok r d'" if "\<not> ok" using assms(2) 4(3,4) that by (simp add: ports_ok_def)
  have ready: "ports_ok r ?d" if ok
    unfolding ports_ok_def
  proof (intro allI impI)
    fix j assume "bit (ah_active ?d) j"
    then have "bit (ah_active d) j \<or> j = i" using 4(3) by (auto simp: bit_or_iff bit_exp_iff)
    then show "heap_page r (ah_clb ?d j) \<and> heap_page r (ah_fb ?d j) \<and> heap_page r (ah_ctba ?d j)"
      using 4(4,5) that assms(2) by (cases "j = i") (auto simp: ports_ok_def)
  qed
  let ?ssts = "fst (port_read d i Ssts s)" and ?sig = "fst (port_read d i Sig ?s1)"
  consider (skip) "pi AND push_bit i 1 = 0 \<or> ?ssts AND 0x0F \<noteq> 3 \<or> drop_bit 8 ?ssts AND 0x0F \<noteq> 1"
    | (other) "pi AND push_bit i 1 \<noteq> 0" "?ssts AND 0x0F = 3" "drop_bit 8 ?ssts AND 0x0F = 1" "?sig \<noteq> SATA_SIG_ATA"
    | (disk) "pi AND push_bit i 1 \<noteq> 0" "?ssts AND 0x0F = 3" "drop_bit 8 ?ssts AND 0x0F = 1" "?sig = SATA_SIG_ATA" by blast
  then show ?thesis
  proof cases
    case skip
    then have "init_one pi i (d, s) = Some (d, s) \<or> init_one pi i (d, s) = Some (d, ?s1)"
      by (auto simp: init_one_def Let_def split_beta)
    then show ?thesis using assms(1,2) by auto
  next
    case other
    obtain s' where "say [Str ''ahci: port '', Dec (of_nat i), Str '' non-ATA sig=0x'', Hex (ucast ?sig), Str '', skipping\<newline>''] ?s2 = Some s'"
      "sound r s'" using sound_say [OF s2] .
    then show ?thesis using other assms(2) by (simp add: init_one_def Let_def split_beta)
  next
    case disk
    then have "init_one pi i (d, s) = (if ok then Some (?d, s5) else Some (d', s4))"
      using 3(1) 4(1) 5(1) by (simp add: init_one_def Let_def split_beta)
    then show ?thesis using 4(2) 5(2) failed ready by (cases ok) auto
  qed
qed

lemma init_ports_sound:
  "sound r s \<Longrightarrow> ports_ok r d \<Longrightarrow> \<forall>i\<in>set is. i < 32 \<Longrightarrow>
   \<exists>d' s'. init_ports pi is (d, s) = Some (d', s') \<and> sound r s' \<and> ports_ok r d'"
proof (induction "is" arbitrary: d s)
  case (Cons i "is")
  obtain d1 s1 where "init_one pi i (d, s) = Some (d1, s1)" "sound r s1" "ports_ok r d1"
    using init_one_sound [OF Cons.prems(1,2)] Cons.prems(3) by fastforce
  then show ?case using Cons.IH [of s1 d1] Cons.prems(3) by simp
qed simp

lemma ahci_start_sound:
  assumes "sound r s" "ports_ok r d"
  shows "\<exists>d' s'. ahci_start abar d s = Some (d', s') \<and> sound r s' \<and> ports_ok r d'"
proof -
  let ?d = "d\<lparr>ah_abar := abar\<rparr>" and ?vs = "fst (mmio_read (abar + hba_off Vs) s)"
  have d: "ports_ok r ?d" using assms(2) by (simp add: ports_ok_def)
  have "sound r (snd (mmio_read (abar + hba_off Vs) s))" using assms(1) by simp
  from sound_say [OF this] obtain s1 where 1: "say [Str ''ahci: version '', Dec (ucast (drop_bit 16 ?vs AND 0xFFFF)), Str ''.'',
      Dec (ucast (?vs AND 0xFFFF)), Str ''\<newline>''] (snd (mmio_read (abar + hba_off Vs) s)) = Some s1" "sound r s1" .
  let ?ghc = "fst (mmio_read (abar + hba_off Ghc) s1)" and ?s2 = "snd (mmio_read (abar + hba_off Ghc) s1)"
  let ?s3 = "if ?ghc AND GHC_AE = 0 then mmio_write (abar + hba_off Ghc) (?ghc OR GHC_AE) ?s2 else ?s2"
  let ?pi = "fst (mmio_read (abar + hba_off Pi) ?s3)" and ?s4 = "snd (mmio_read (abar + hba_off Pi) ?s3)"
  have "sound r ?s4" using 1(2) by simp
  from sound_say [OF this] obtain s5 where 5: "say [Str ''ahci: ports implemented: 0x'', Hex (ucast ?pi), Str ''\<newline>''] ?s4 = Some s5"
    "sound r s5" .
  obtain d6 s6 where 6: "init_ports ?pi [0..<MAX_PORTS] (?d, s5) = Some (d6, s6)" "sound r s6" "ports_ok r d6"
    using init_ports_sound [OF 5(2) d, of "[0..<MAX_PORTS]" ?pi] by (auto simp: MAX_PORTS_def)
  obtain s7 where 7: "say [Str ''ahci: '', Dec (of_nat (count_ones (ah_active d6))), Str '' disk(s) ready\<newline>''] s6 = Some s7" "sound r s7"
    using sound_say [OF 6(2)] .
  have "ahci_start abar d s = Some (d6, s7)"
    unfolding ahci_start_def Let_def split_beta fst_conv snd_conv 1(1) Option.bind_lunit 5(1) 6(1) 7(1) by simp
  then show ?thesis using 6(3) 7(2) by blast
qed

text \<open>The whole driver: every early return, and the ports.\<close>

lemma ahci_init_sound:
  assumes "sound r s" "ports_ok r d"
  shows "\<exists>d' s' m'. ahci_init cr3 p d s m = Some (d', s', m') \<and> sound r s' \<and> ports_ok r d'"
proof -
  have say: "\<exists>s'. say cs t = Some s' \<and> sound r s'" if "sound r t" for cs t using sound_say [OF that] by metis
  obtain b s1 where 1: "on_heap (\<lambda>h. kmalloc_aligned h 4096 4096) s = Some (b, s1)" "sound r s1" using sound_aligned [OF assms(1)] by metis
  let ?d = "d\<lparr>ah_identify := of_nat b\<rparr>"
  have d: "ports_ok r ?d" using assms(2) by (simp add: ports_ok_def)
  show ?thesis
  proof (cases "b = 0 \<or> find_by_class 0x01 0x06 0x01 p = None")
    case True
    then show ?thesis using 1 say [OF 1(2)] d assms(2) by (auto simp: ahci_init_def) (metis bind.bind_lunit)+
  next
    case False
    then obtain addr where addr: "find_by_class 0x01 0x06 0x01 p = Some addr" "b \<noteq> 0" by auto
    obtain s2 where 2: "say [Str ''ahci: found controller at PCI '', Hex (ucast (pa_bus addr)), Str '':'', Hex (ucast (pa_dev addr)), Str ''.'',
      Hex (ucast (pa_func addr)), Str ''\<newline>''] s1 = Some s2" "sound r s2" using sound_say [OF 1(2)] .
    obtain abar s3 where 3: "bar_mem_base addr 5 (enable_bus_master addr s2) = (abar, s3)" by fastforce
    have "sound r (enable_bus_master addr s2)" using 2(2) by (simp add: enable_bus_master_def Let_def split_beta)
    then have "sound r (snd (bar_mem_base addr 5 (enable_bus_master addr s2)))"
      by (simp add: bar_mem_base_def pci_bar_def Let_def split_beta)
    then have s3: "sound r s3" unfolding 3 by simp
    note run = ahci_init_def [of cr3 p d s m, unfolded 1(1) Option.bind_lunit prod.case if_not_P [OF addr(2)] Let_def addr(1)
        option.case 2(1) 3]
    show ?thesis
    proof (cases "abar = 0")
      case True
      then show ?thesis using say [OF s3] d by (auto simp: run) (metis bind.bind_lunit)+
    next
      case False
      obtain s4 where 4: "say [Str ''ahci: ABAR phys=0x'', Hex abar, Str ''\<newline>''] s3 = Some s4" "sound r s4" using sound_say [OF s3] .
      obtain h m1 mapped where 5: "map_mmio cr3 (page_base abar) (usz (unat (abar - page_base abar) + 0x1100 + 0xFFF) div 0x1000)
        (hw_heap s4) m = (h, m1, mapped)" by (metis prod_cases3)
      have s5: "sound r (s4\<lparr>hw_heap := h\<rparr>)"
        using map_mmio_inv [OF _ 5] 4(2) by (intro sound_new_heap) (simp_all add: sound_def)
      note run = run [unfolded if_not_P [OF False] 4(1) Option.bind_lunit 5 prod.case]
      show ?thesis
      proof (cases "mapped = 0")
        case True
        then show ?thesis using say [OF s5] d by (auto simp: run) (metis bind.bind_lunit)+
      next
        case False
        obtain s6 where 6: "say [Str ''ahci: ABAR mapped at 0x'', Hex (mapped + (abar - page_base abar)), Str ''\<newline>''] (s4\<lparr>hw_heap := h\<rparr>) = Some s6"
          "sound r s6" using sound_say [OF s5] .
        obtain d' s' where "ahci_start (mapped + (abar - page_base abar)) ?d s6 = Some (d', s')" "sound r s'" "ports_ok r d'"
          using ahci_start_sound [OF 6(2) d] by blast
        then show ?thesis unfolding run using False 6(1) by simp
      qed
    qed
  qed
qed

section \<open>All devices\<close>

text \<open>
  Bringing up the devices ends, whatever they answer: no register value makes a driver panic or wait
  for ever. Interrupts are on, at most the keyboard's handler was registered, the
  console works, the heap invariant and its region are kept, and every disk port that is active has its command list, its
  receive area and its command table in pages of the heap.
\<close>

theorem devices_come_up:
  assumes "sound r s" "ports_ok r a"
  shows "\<exists>c' d' p' a' s' m' base. start_devices cr3 hhdm c d p a s m = Some (c', d', p', a', s', m', base) \<and>
    sound r s' \<and> ports_ok r a' \<and> irqs_on c' \<and> (d' = d \<or> d' = register_ctx_handler KB_VECTOR Keyboard_irq_handler d)"
proof -
  obtain s1 m1 base where 1: "lapic_init (rdmsr IA32_APIC_BASE_MSR c) cr3 hhdm s m = Some (s1, m1, base)" "sound r s1"
    using lapic_init_sound [OF assms(1)] by blast
  have "tx_live (io_env (hw_io s1))" using 1(2) by (simp add: sound_def live_def)
  from ps2_init_returns [OF this, of d] obtain d' io where
    2: "ps2_init d (hw_io s1) = Some (d', io)" "io_env io = io_env (hw_io s1)" "d' = d \<or> d' = register_ctx_handler KB_VECTOR Keyboard_irq_handler d"
    by auto
  have "sound r (s1\<lparr>hw_io := io\<rparr>)" using 1(2) 2(2) by (simp add: sound_def live_def)
  from pci_scan_sound [OF this, of p] obtain p' s3 where 3: "pci_scan p (s1\<lparr>hw_io := io\<rparr>) = Some (p', s3)" "sound r s3" by blast
  obtain s4 where 4: "pci_dump p' s3 = Some s4" "sound r s4" unfolding pci_dump_def by (rule sound_say [OF 3(2)])
  obtain a' s' m' where 5: "ahci_init cr3 p' a s4 m1 = Some (a', s', m')" "sound r s'" "ports_ok r a'"
    using ahci_init_sound [OF 4(2) assms(2)] by blast
  have "start_devices cr3 hhdm c d p a s m = Some (sti c, d', p', a', s', m', base)"
    by (simp add: start_devices_def 1(1) 2(1) 3(1) 4(1) 5(1))
  moreover have "irqs_on (sti c)" by simp
  ultimately show ?thesis using 5(2,3) 2(3) by blast
qed

theorem devices_come_up_witness:
  "\<exists>c' d' p' a' s' m' base. start_devices 0x1000 0 c idt_boot p ahci_boot sample_hw (\<lambda>_. 0) = Some (c', d', p', a', s', m', base) \<and>
     live s' \<and> mem_inv (hw_heap s')"
proof -
  have eq: "sample_mem = mem_init mem_boot 0 [\<lparr>me_usable = True, me_base = 0x100000, me_length = 0x3000\<rparr>]"
    by (simp add: sample_mem_def mem_init_def mem_boot_def)
  have "mem_inv sample_mem" unfolding eq by (rule mem_inv_init [of _ "0x100000" "0x3000"]) simp_all
  then have "mem_inv (hw_heap sample_hw)" by (simp add: sample_hw_def)
  then have "sound (mem_region (hw_heap sample_hw)) sample_hw" using sample_live by (simp add: sound_def)
  from devices_come_up [OF this, of ahci_boot "0x1000" 0 c idt_boot p "\<lambda>_. 0"] show ?thesis
    by (fastforce simp: sound_def ports_ok_def ahci_boot_def)
qed

end
