(* ===== verification/Smp.thy ===== *)
theory Smp
  imports Cpu
begin

text \<open>
  Starting the other processors, \<open>src/kern/arch/x86_64/smp.rs\<close>. The boot processor runs \<open>init\<close>, every
  other processor \<open>ap_entry\<close>; they share the atomics \<open>APS_READY\<close>, \<open>ALL_GO\<close> and \<open>CPU_ONLINE\<close>. The
  model is a step relation whose steps are the accesses to the shared state, in any interleaving; \<open>sse::init\<close>, which \<open>ap_entry\<close> calls first, touches only the processor's own
  registers (\<open>Cpu\<close>).
\<close>

section \<open>State\<close>

definition MAX_CPUS :: nat where "MAX_CPUS = 64"

datatype bsp_pc = Start | Waking nat | Waiting | Done
datatype ap_pc = Parked | Entered | Marked | Counted | Released

record smp =
  sm_count :: u32
  sm_bsp :: u32
  sm_ready :: u32
  sm_go :: bool
  sm_online :: "bool list"
  sm_pc :: bsp_pc
  sm_ap :: "nat \<Rightarrow> ap_pc"

definition smp_boot :: smp where
  "smp_boot = \<lparr>sm_count = 1, sm_bsp = 0, sm_ready = 0, sm_go = False, sm_online = replicate MAX_CPUS False,
     sm_pc = Start, sm_ap = (\<lambda>_. Parked)\<rparr>"

definition slot_of :: "u32 \<Rightarrow> nat" where
  "slot_of apic = unat apic mod MAX_CPUS"

definition mark_online :: "u32 \<Rightarrow> smp \<Rightarrow> smp" where
  "mark_online apic s = s\<lparr>sm_online := (sm_online s)[slot_of apic := True]\<rparr>"

text \<open>
  \<open>cpus\<close> are the local APIC ids of the boot loader's processor list. Writing \<open>goto_address\<close> lets the
  processor in; what the boot loader does in between is one step.
\<close>

inductive smp_step :: "u32 \<Rightarrow> u32 list \<Rightarrow> smp \<Rightarrow> smp \<Rightarrow> bool" for bsp cpus where
  start: "sm_pc s = Start \<Longrightarrow>
    smp_step bsp cpus s (mark_online bsp (s\<lparr>sm_bsp := bsp, sm_count := of_nat (length cpus), sm_pc := Waking 0\<rparr>))"
| wake: "sm_pc s = Waking i \<Longrightarrow> i < length cpus \<Longrightarrow>
    smp_step bsp cpus s
      ((if cpus ! i = bsp then s else s\<lparr>sm_ap := (sm_ap s)(i := Entered)\<rparr>)\<lparr>sm_pc := Waking (i + 1)\<rparr>)"
| woken: "sm_pc s = Waking (length cpus) \<Longrightarrow> smp_step bsp cpus s (s\<lparr>sm_pc := Waiting\<rparr>)"
| spin: "sm_pc s = Waiting \<Longrightarrow> sm_ready s < of_nat (length cpus) - 1 \<Longrightarrow> smp_step bsp cpus s s"
| go: "sm_pc s = Waiting \<Longrightarrow> \<not> sm_ready s < of_nat (length cpus) - 1 \<Longrightarrow>
    smp_step bsp cpus s (s\<lparr>sm_go := True, sm_pc := Done\<rparr>)"
| ap_mark: "sm_ap s i = Entered \<Longrightarrow>
    smp_step bsp cpus s ((mark_online (cpus ! i) s)\<lparr>sm_ap := (sm_ap s)(i := Marked)\<rparr>)"
| ap_count: "sm_ap s i = Marked \<Longrightarrow>
    smp_step bsp cpus s (s\<lparr>sm_ready := sm_ready s + 1, sm_ap := (sm_ap s)(i := Counted)\<rparr>)"
| ap_spin: "sm_ap s i = Counted \<Longrightarrow> \<not> sm_go s \<Longrightarrow> smp_step bsp cpus s s"
| ap_go: "sm_ap s i = Counted \<Longrightarrow> sm_go s \<Longrightarrow> smp_step bsp cpus s (s\<lparr>sm_ap := (sm_ap s)(i := Released)\<rparr>)"

definition cpu_count :: "smp \<Rightarrow> u32" where "cpu_count s = sm_count s"
definition bsp_id :: "smp \<Rightarrow> u32" where "bsp_id s = sm_bsp s"

definition is_online :: "u32 \<Rightarrow> smp \<Rightarrow> bool" where
  "is_online apic s = sm_online s ! slot_of apic"

definition online_count :: "smp \<Rightarrow> u32" where
  "online_count s = fold (\<lambda>i count. if sm_online s ! i then count + 1 else count) [0..<MAX_CPUS] 0"

section \<open>The invariant\<close>

definition others :: "u32 \<Rightarrow> u32 list \<Rightarrow> nat set" where
  "others bsp cpus = {i. i < length cpus \<and> cpus ! i \<noteq> bsp}"

definition counted :: "smp \<Rightarrow> nat set" where
  "counted s = {i. sm_ap s i = Counted \<or> sm_ap s i = Released}"

fun woken_upto :: "bsp_pc \<Rightarrow> nat \<Rightarrow> nat" where
  "woken_upto Start n = 0"
| "woken_upto (Waking i) n = i"
| "woken_upto Waiting n = n"
| "woken_upto Done n = n"

definition smp_inv :: "u32 \<Rightarrow> u32 list \<Rightarrow> smp \<Rightarrow> bool" where
  "smp_inv bsp cpus s \<longleftrightarrow>
     length (sm_online s) = MAX_CPUS \<and>
     (\<forall>i. sm_ap s i \<noteq> Parked \<longleftrightarrow> i < woken_upto (sm_pc s) (length cpus) \<and> i < length cpus \<and> cpus ! i \<noteq> bsp) \<and>
     sm_ready s = of_nat (card (counted s)) \<and>
     (\<forall>i. sm_ap s i \<in> {Marked, Counted, Released} \<longrightarrow> sm_online s ! slot_of (cpus ! i)) \<and>
     (sm_pc s \<noteq> Start \<longrightarrow> sm_online s ! slot_of bsp \<and> sm_count s = of_nat (length cpus) \<and> sm_bsp s = bsp) \<and>
     (\<forall>j<MAX_CPUS. sm_online s ! j \<longrightarrow> j \<in> slot_of ` insert bsp (set cpus)) \<and>
     (sm_pc s = Done \<longleftrightarrow> sm_go s) \<and> (sm_go s \<longrightarrow> counted s = others bsp cpus) \<and>
     (\<forall>i. sm_ap s i = Released \<longrightarrow> sm_go s)"

lemma slot_of_less [simp]: "slot_of a < MAX_CPUS"
  by (simp add: slot_of_def MAX_CPUS_def)

lemma finite_others [simp]: "finite (others bsp cpus)"
  by (simp add: others_def)

lemma smp_inv_boot: "smp_inv bsp cpus smp_boot"
  by (simp add: smp_inv_def smp_boot_def counted_def)

lemma card_others:
  assumes "count_list cpus bsp = 1" shows "card (others bsp cpus) = length cpus - 1"
proof -
  have "length (filter (\<lambda>c. c \<noteq> bsp) cpus) + count_list cpus bsp = length cpus"
    by (induction cpus) auto
  then show ?thesis using assms length_filter_conv_card [of "\<lambda>c. c \<noteq> bsp" cpus] by (simp add: others_def)
qed

lemma counted_others: "smp_inv bsp cpus s \<Longrightarrow> counted s \<subseteq> others bsp cpus"
  by (auto simp: smp_inv_def counted_def others_def)

lemma counted_upd:
  "p \<in> {Entered, Marked} \<Longrightarrow> i \<notin> counted s \<Longrightarrow> counted (s\<lparr>sm_ap := (sm_ap s)(i := p)\<rparr>) = counted s"
  "p \<in> {Counted, Released} \<Longrightarrow> counted (s\<lparr>sm_ap := (sm_ap s)(i := p)\<rparr>) = insert i (counted s)"
  by (auto simp: counted_def)

lemma smp_inv_step:
  assumes "smp_step bsp cpus s s'" "smp_inv bsp cpus s" "count_list cpus bsp = 1" "length cpus < 2 ^ 32"
  shows "smp_inv bsp cpus s'"
  using assms(1)
proof cases
  case start
  then have "sm_ap s = (\<lambda>_. Parked)" using assms(2) by (auto simp: smp_inv_def fun_eq_iff)
  then show ?thesis using start assms(2)
    by (auto simp: smp_inv_def mark_online_def counted_def nth_list_update)
next
  case (wake i)
  have parked: "sm_ap s i = Parked" using wake assms(2) unfolding smp_inv_def by (metis less_irrefl woken_upto.simps(2))
  then have "i \<notin> counted s" by (simp add: counted_def)
  then have "counted s' = counted s" using wake(1) by (auto simp: counted_def)
  then show ?thesis using wake parked assms(2) by (auto simp: smp_inv_def less_Suc_eq)
next
  case woken
  then show ?thesis using assms(2) by (auto simp: smp_inv_def counted_def)
next
  case spin
  then show ?thesis using assms(2) by simp
next
  case go
  have sub: "counted s \<subseteq> others bsp cpus" by (rule counted_others [OF assms(2)])
  have "card (counted s) \<le> length cpus - 1" using card_mono [OF _ sub] card_others [OF assms(3)] by simp
  moreover have pos: "0 < length cpus" using assms(3) by (cases cpus) auto
  have len: "unat (of_nat (length cpus) - 1 :: u32) = length cpus - 1"
    using pos assms(4) by (subst unat_sub) (simp_all add: word_le_nat_alt unsigned_of_nat take_bit_eq_mod Suc_le_eq)
  have "unat (sm_ready s) = card (counted s)"
    using assms(2,4) calculation by (simp add: smp_inv_def unsigned_of_nat take_bit_eq_mod)
  then have "length cpus - 1 \<le> card (counted s)" using go(3) len by (simp add: word_less_nat_alt)
  then have "counted s = others bsp cpus"
    using card_seteq [OF finite_others sub] card_others [OF assms(3)] by simp
  moreover have "counted s' = counted s" using go(1) by (simp add: counted_def)
  ultimately show ?thesis using go assms(2) by (auto simp: smp_inv_def)
next
  case (ap_mark i)
  have i: "i < length cpus" using ap_mark assms(2) unfolding smp_inv_def by (metis ap_pc.distinct(1))
  have "i \<notin> counted s" using ap_mark by (simp add: counted_def)
  then have "counted s' = counted s" using ap_mark(1) by (auto simp: counted_def mark_online_def)
  moreover have "slot_of (cpus ! i) \<in> slot_of ` insert bsp (set cpus)" using i by simp
  ultimately show ?thesis using ap_mark assms(2) by (auto simp: smp_inv_def mark_online_def nth_list_update)
next
  case (ap_count i)
  have "i \<notin> counted s" "finite (counted s)"
    using ap_count finite_subset [OF counted_others [OF assms(2)]] by (simp_all add: counted_def)
  moreover have "counted s' = insert i (counted s)" using ap_count(1) by (auto simp: counted_def)
  moreover have "\<not> sm_go s"
  proof
    assume "sm_go s"
    then have "i \<in> counted s" using ap_count(2) assms(2) by (auto simp: smp_inv_def others_def)
    then show False using calculation(1) by simp
  qed
  ultimately show ?thesis using ap_count assms(2) by (auto simp: smp_inv_def)
next
  case ap_spin
  then show ?thesis using assms(2) by simp
next
  case (ap_go i)
  then have "counted s' = counted s" by (auto simp: counted_def)
  then show ?thesis using ap_go assms(2) by (auto simp: smp_inv_def)
qed

lemma smp_reachable_inv:
  assumes "(smp_step bsp cpus)\<^sup>*\<^sup>* smp_boot s" "count_list cpus bsp = 1" "length cpus < 2 ^ 32"
  shows "smp_inv bsp cpus s"
  using assms(1) by (induction rule: rtranclp_induct) (use smp_inv_boot smp_inv_step assms(2,3) in blast)+

section \<open>Properties\<close>

lemma online_count_card: "online_count s = of_nat (card {j. j < MAX_CPUS \<and> sm_online s ! j})"
proof -
  have "fold (\<lambda>i count. if P i then count + 1 else count) [0..<n] 0 = (of_nat (card {j. j < n \<and> P j}) :: u32)" for n P
  proof (induction n)
    case (Suc n)
    have "{j. j < Suc n \<and> P j} = (if P n then insert n {j. j < n \<and> P j} else {j. j < n \<and> P j})"
      by (auto simp: less_Suc_eq)
    then show ?case using Suc by simp
  qed simp
  then show ?thesis by (simp add: online_count_def)
qed

text \<open>
  C40: when \<open>smp::init\<close> returns. In every interleaving, for a processor list that has the boot processor
  exactly once: when \<open>init\<close> has returned, every other processor has set up, marked itself online and is
  past its count, and if their slots differ the number reported online is that of all processors. No
  processor goes on before \<open>init\<close> has seen all of them.
\<close>

theorem smp_init_waits_for_all:
  assumes "(smp_step bsp cpus)\<^sup>*\<^sup>* smp_boot s" "count_list cpus bsp = 1" "length cpus < 2 ^ 32"
  shows "(sm_pc s = Done \<longrightarrow> (\<forall>i<length cpus. is_online (cpus ! i) s \<and> (cpus ! i \<noteq> bsp \<longrightarrow> sm_ap s i \<in> {Counted, Released}))) \<and>
    (sm_pc s = Done \<longrightarrow> inj_on slot_of (set cpus) \<longrightarrow> distinct cpus \<longrightarrow> online_count s = of_nat (length cpus)) \<and>
    (sm_ap s i = Released \<longrightarrow> (\<forall>j<length cpus. cpus ! j \<noteq> bsp \<longrightarrow> sm_ap s j \<in> {Counted, Released}))"
proof -
  have inv: "smp_inv bsp cpus s" by (rule smp_reachable_inv [OF assms])
  have all: "sm_ap s j \<in> {Counted, Released}" if "sm_go s" "j < length cpus" "cpus ! j \<noteq> bsp" for j
    using inv that by (auto simp: smp_inv_def counted_def others_def)
  have bsp: "bsp \<in> set cpus" using assms(2) by (metis count_notin zero_neq_one)
  have on: "sm_online s ! slot_of (cpus ! j)" if "sm_pc s = Done" "j < length cpus" for j
  proof (cases "cpus ! j = bsp")
    case True
    then show ?thesis using inv that by (simp add: smp_inv_def)
  next
    case False
    then have "sm_ap s j \<in> {Counted, Released}" using all inv that by (simp add: smp_inv_def)
    then show ?thesis using inv by (auto simp: smp_inv_def)
  qed
  have "online_count s = of_nat (length cpus)" if "sm_pc s = Done" "inj_on slot_of (set cpus)" "distinct cpus"
  proof -
    have "\<forall>j<MAX_CPUS. sm_online s ! j \<longrightarrow> j \<in> slot_of ` insert bsp (set cpus)" using inv by (simp add: smp_inv_def)
    then have "{j. j < MAX_CPUS \<and> sm_online s ! j} \<subseteq> slot_of ` set cpus" using bsp by (auto simp: insert_absorb)
    moreover have "slot_of ` set cpus \<subseteq> {j. j < MAX_CPUS \<and> sm_online s ! j}"
      using on [OF that(1)] by (auto simp: in_set_conv_nth)
    ultimately have "{j. j < MAX_CPUS \<and> sm_online s ! j} = slot_of ` set cpus" by blast
    then show ?thesis using that(2,3) by (simp add: online_count_card card_image distinct_card)
  qed
  moreover have "sm_pc s = Done \<longrightarrow> sm_go s" "sm_ap s i = Released \<longrightarrow> sm_go s" using inv by (auto simp: smp_inv_def)
  ultimately show ?thesis using on all unfolding is_online_def by blast
qed

lemma two_cpus_boot: "\<exists>s. (smp_step 0 [0, 1])\<^sup>*\<^sup>* smp_boot s \<and> sm_pc s = Done"
proof -
  define s1 where "s1 = mark_online 0 (smp_boot\<lparr>sm_bsp := 0, sm_count := of_nat (length [0, 1 :: u32]), sm_pc := Waking 0\<rparr>)"
  define s2 where "s2 = s1\<lparr>sm_pc := Waking 1\<rparr>"
  define s3 where "s3 = s2\<lparr>sm_ap := (sm_ap s2)(1 := Entered), sm_pc := Waking 2\<rparr>"
  define s4 where "s4 = s3\<lparr>sm_pc := Waiting\<rparr>"
  define s5 where "s5 = (mark_online 1 s4)\<lparr>sm_ap := (sm_ap s4)(1 := Marked)\<rparr>"
  define s6 where "s6 = s5\<lparr>sm_ready := sm_ready s5 + 1, sm_ap := (sm_ap s5)(1 := Counted)\<rparr>"
  define s7 where "s7 = s6\<lparr>sm_go := True, sm_pc := Done\<rparr>"
  note defs = s1_def s2_def s3_def s4_def s5_def s6_def s7_def mark_online_def smp_boot_def
  let ?step = "smp_step 0 [0, 1]"
  have "?step smp_boot s1" unfolding s1_def by (rule smp_step.start) (simp add: smp_boot_def)
  moreover have "?step s1 s2" using smp_step.wake [of s1 0 "[0, 1]" 0] by (simp add: defs)
  moreover have "?step s2 s3" using smp_step.wake [of s2 1 "[0, 1]" 0] by (simp add: defs numeral_2_eq_2)
  moreover have "?step s3 s4" unfolding s4_def by (rule smp_step.woken) (simp add: s3_def)
  moreover have "?step s4 s5" using smp_step.ap_mark [of s4 1 0 "[0, 1]"] by (simp add: defs)
  moreover have "?step s5 s6" unfolding s6_def by (rule smp_step.ap_count) (simp add: s5_def)
  moreover have "?step s6 s7" unfolding s7_def by (rule smp_step.go) (simp_all add: defs)
  ultimately have "?step\<^sup>*\<^sup>* smp_boot s7" by (meson converse_rtranclp_into_rtranclp rtranclp.rtrancl_refl)
  then show ?thesis by (intro exI [of _ s7]) (simp add: s7_def)
qed

theorem smp_init_waits_for_all_witness:
  "\<exists>s. (smp_step 0 [0, 1])\<^sup>*\<^sup>* smp_boot s \<and> count_list [0, 1 :: u32] 0 = 1 \<and> inj_on slot_of (set [0, 1]) \<and> sm_pc s = Done \<and>
     online_count s = 2 \<and> is_online 0 s \<and> is_online 1 s \<and> sm_ap s 1 \<in> {Counted, Released}"
proof -
  obtain s where s: "(smp_step 0 [0, 1])\<^sup>*\<^sup>* smp_boot s" "sm_pc s = Done" using two_cpus_boot by blast
  have inj: "inj_on slot_of (set [0, 1 :: u32])" by (simp add: slot_of_def MAX_CPUS_def)
  then have "online_count s = 2 \<and> (\<forall>i<length [0, 1 :: u32]. is_online ([0, 1] ! i) s \<and>
      ([0, 1] ! i \<noteq> (0 :: u32) \<longrightarrow> sm_ap s i \<in> {Counted, Released}))"
    using smp_init_waits_for_all [OF s(1)] s(2) by simp
  then have "online_count s = 2" "is_online 0 s" "is_online 1 s" "sm_ap s 1 \<in> {Counted, Released}"
    by (auto dest: spec [of _ 0] spec [of _ 1])
  then show ?thesis using s inj by (intro exI [of _ s]) simp
qed

text \<open>
  \<open>smp::init\<close> does not get stuck: in every reachable state before it returns, some processor has a step
  to take that is not a turn of a waiting loop.
\<close>

theorem smp_init_makes_progress:
  assumes "(smp_step bsp cpus)\<^sup>*\<^sup>* smp_boot s" "count_list cpus bsp = 1" "length cpus < 2 ^ 32" "sm_pc s \<noteq> Done"
  shows "\<exists>s'. smp_step bsp cpus s s' \<and> s' \<noteq> s"
proof -
  have inv: "smp_inv bsp cpus s" by (rule smp_reachable_inv [OF assms(1-3)])
  show ?thesis
  proof (cases "sm_pc s")
    case Start
    show ?thesis by (intro exI conjI, rule smp_step.start [OF Start]) (auto simp: Start mark_online_def dest: arg_cong [where f = sm_pc])
  next
    case (Waking i)
    have "i \<le> length cpus" using assms(1) Waking
    proof (induction arbitrary: i rule: rtranclp_induct)
      case (step y z)
      from step.hyps(2) step.prems step.IH show ?case by cases (auto simp: mark_online_def split: if_splits)
    qed (simp add: smp_boot_def)
    then consider "i < length cpus" | "i = length cpus" by linarith
    then show ?thesis
    proof cases
      case 1
      show ?thesis by (intro exI conjI, rule smp_step.wake [OF Waking 1]) (auto simp: Waking dest: arg_cong [where f = sm_pc])
    next
      case 2
      have "sm_pc s = Waking (length cpus)" using Waking 2 by simp
      from smp_step.woken [OF this] show ?thesis
        by (intro exI conjI) (assumption, use Waking in \<open>auto dest: arg_cong [where f = sm_pc]\<close>)
    qed
  next
    case Waiting
    show ?thesis
    proof (cases "sm_ready s < of_nat (length cpus) - 1")
      case True
      have "counted s \<noteq> others bsp cpus"
      proof
        assume "counted s = others bsp cpus"
        then have "sm_ready s = of_nat (length cpus - 1)" using inv card_others [OF assms(2)] by (simp add: smp_inv_def)
        moreover have "0 < length cpus" using assms(2) by (cases cpus) auto
        ultimately show False using True by (simp add: of_nat_diff)
      qed
      then obtain j where j: "j \<in> others bsp cpus" "j \<notin> counted s" using counted_others [OF inv] by blast
      then have "sm_ap s j \<noteq> Parked" using inv Waiting by (simp add: smp_inv_def others_def)
      then consider "sm_ap s j = Entered" | "sm_ap s j = Marked" using j(2) by (cases "sm_ap s j") (auto simp: counted_def)
      then show ?thesis
      proof cases
        case 1
        show ?thesis by (intro exI conjI, rule smp_step.ap_mark [OF 1]) (use 1 in \<open>auto dest!: arg_cong [where f = "\<lambda>s. sm_ap s j"]\<close>)
      next
        case 2
        show ?thesis by (intro exI conjI, rule smp_step.ap_count [OF 2]) (use 2 in \<open>auto dest!: arg_cong [where f = "\<lambda>s. sm_ap s j"]\<close>)
      qed
    next
      case False
      show ?thesis by (intro exI conjI, rule smp_step.go [OF Waiting False]) (auto simp: Waiting dest: arg_cong [where f = sm_pc])
    qed
  next
    case Done
    then show ?thesis using assms(4) by simp
  qed
qed

theorem smp_init_makes_progress_witness: "\<exists>s'. smp_step 0 [0, 1] smp_boot s' \<and> s' \<noteq> smp_boot"
  using smp_init_makes_progress [of 0 "[0, 1]" smp_boot] by (simp add: smp_boot_def)

text \<open>
  A processor list without the boot processor: \<open>init\<close> counts one processor fewer than it wakes and may
  return before the last one is up; with an empty list it waits for \<open>2 ^ 32 - 1\<close> processors.
\<close>

theorem smp_empty_list_waits_forever:
  assumes "(smp_step bsp [])\<^sup>*\<^sup>* smp_boot s"
  shows "sm_pc s \<noteq> Done"
proof -
  have "sm_ready s = 0 \<and> (\<forall>i. sm_ap s i = Parked) \<and> sm_pc s \<noteq> Done"
    using assms
  proof (induction rule: rtranclp_induct)
    case (step y z)
    from step.hyps(2) step.IH show ?case by cases (auto simp: mark_online_def word_greater_zero_iff)
  qed (simp add: smp_boot_def)
  then show ?thesis by simp
qed

end
