(* ===== verification/Boot.thy ===== *)
theory Boot
  imports Api Elf Paging Smp Ext3
begin

text \<open>
  The boot sequence of \<open>src/main.rs\<close>: the reports of \<open>_start\<close>, what it asks the boot loader for, the
  ramdisk and the font, and loading the modules as tasks. The answers of the boot loader are parameters
  (\<open>limine\<close> is a third-party crate): an inner \<open>None\<close> of a step is the code's \<open>hlt_loop\<close>, from which the
  kernel does not come back, \<open>None\<close> at the outside a panic. A module is an \<open>ELF\<close> image copied into one of
  the static buffers \<open>MODULE_BUFS\<close>, at the address \<open>BUFS\<close>; \<open>TR\<close>, \<open>API\<close> and \<open>SHELL\<close> are the addresses of
  \<open>task_trampoline\<close>, \<open>AVARIA_API\<close> and \<open>shell_task_entry\<close>.
\<close>

section \<open>Processor, framebuffer, memory\<close>

definition sse_report :: "cpu \<Rightarrow> con list" where
  "sse_report c =
     [Str ''SSE/AVX ''] @
     (if has_feature_sse c then [Str ''SSE ''] else []) @
     (if has_feature_sse2 c then [Str ''SSE2 ''] else []) @
     (if has_feature_sse3 c then [Str ''SSE3 ''] else []) @
     (if has_feature_sse41 c then [Str ''SSE4.1 ''] else []) @
     (if has_feature_sse42 c then [Str ''SSE4.2 ''] else []) @
     (if has_feature_avx c then [Str ''AVX ''] else []) @ [Str ''\<newline>'']"

definition tsc_report :: "cpu \<Rightarrow> tsc \<Rightarrow> con list" where
  "tsc_report c t =
     [Str ''TSC: '', Dec (freq_mhz t), Str '' MHz''] @
     (if has_invariant_tsc c then [Str '' (invariant)''] else []) @ [Str ''\<newline>'']"

definition say_tsc :: "con list \<Rightarrow> tsc \<Rightarrow> tsc option" where
  "say_tsc cs t = do { io \<leftarrow> console cs (ts_io t); Some (t\<lparr>ts_io := io\<rparr>) }"

definition boot_cpu :: "cpu \<Rightarrow> tsc \<Rightarrow> (cpu \<times> tsc) option" where
  "boot_cpu c t =
     (let c = sse_init c
      in do { t \<leftarrow> say_tsc (sse_report c) t;
              t \<leftarrow> (if has_tsc c then do { t \<leftarrow> tsc_calibrate t; say_tsc (tsc_report c t) t } else Some t);
              let vendor = cpu_vendor c;
              t \<leftarrow> say_tsc ([Str ''CPU: ''] @ (if utf8_valid vendor then [Raw vendor] else []) @ [Str ''\<newline>'']) t;
              Some (c, t) })"

text \<open>What the boot loader reports of a framebuffer.\<close>

record fb_info =
  fi_addr :: u64
  fi_width :: u64
  fi_height :: u64
  fi_pitch :: u64
  fi_bpp :: u16

definition boot_framebuffer :: "fb_info list option \<Rightarrow> io \<Rightarrow> (framebuffer option \<times> io) option" where
  "boot_framebuffer resp io =
     (case resp of
        Some (f # fs) \<Rightarrow>
          do { io \<leftarrow> console [Str ''FB '', Dec (fi_width f), Str ''x'', Dec (fi_height f), Str ''\<newline>''] io;
               Some (Some (framebuffer_new (fi_addr f) (unat (fi_width f)) (unat (fi_height f)) (unat (fi_pitch f))
                             (unat (fi_bpp f) div 8)), io) }
      | Some [] \<Rightarrow> do { io \<leftarrow> console [Str ''FATAL: no framebuffer\<newline>''] io; Some (None, io) }
      | None \<Rightarrow> do { io \<leftarrow> console [Str ''FATAL: framebuffer request failed\<newline>''] io; Some (None, io) })"

definition boot_hhdm :: "u64 option \<Rightarrow> io \<Rightarrow> (u64 option \<times> io) option" where
  "boot_hhdm resp io =
     (case resp of
        Some offset \<Rightarrow>
          do { io \<leftarrow> console [Str ''HHDM offset=0x'', Hex offset, Str ''\<newline>''] io; Some (Some offset, io) }
      | None \<Rightarrow> do { io \<leftarrow> console [Str ''FATAL: HHDM request failed\<newline>''] io; Some (None, io) })"

definition boot_memory :: "u64 \<Rightarrow> mmap_entry list option \<Rightarrow> mem \<Rightarrow> io \<Rightarrow> (mem option \<times> io) option" where
  "boot_memory hhdm resp m io =
     (case resp of
        Some entries \<Rightarrow>
          (let m = mem_init m hhdm entries
           in do { io \<leftarrow> console [Str ''Memory: '', Dec (of_nat (usz (total_pages m * 4))), Str '' KB ('',
                            Dec (of_nat (total_pages m)), Str '' pages)\<newline>''] io;
                   Some (Some m, io) })
      | None \<Rightarrow> do { io \<leftarrow> console [Str ''FATAL: memory map request failed\<newline>''] io; Some (None, io) })"

text \<open>The lines around \<open>smp::init\<close>, which \<open>Smp\<close> models as steps of all processors.\<close>

definition smp_report_before :: "u32 list \<Rightarrow> u32 \<Rightarrow> con list" where
  "smp_report_before cpus bsp = [Str ''SMP: '', Dec (of_nat (length cpus)), Str '' CPUs, BSP LAPIC='', Dec (ucast bsp), Str ''\<newline>'']"

definition smp_report_after :: "smp \<Rightarrow> con list" where
  "smp_report_after s = [Str ''SMP: '', Dec (ucast (online_count s)), Str '' CPUs online\<newline>'']"

section \<open>The disk volume\<close>

text \<open>The lowest set bit of \<open>active_ports\<close> is the port of the volume.\<close>

definition first_port :: "u32 \<Rightarrow> nat" where
  "first_port ports = (case first_from (bit ports) 0 32 of Some i \<Rightarrow> i | None \<Rightarrow> 32)"

text \<open>The volume goes out of scope after it was listed.\<close>

definition boot_volume :: "ahci \<Rightarrow> hw \<Rightarrow> hw option" where
  "boot_volume d s =
     (if active_ports d \<noteq> 0
      then do { (e, s) \<leftarrow> ext3_mount d (first_port (active_ports d)) s;
                case e of
                  Some e \<Rightarrow> do { s \<leftarrow> ext3_dump_root d e s; (e, s) \<leftarrow> ext3_drop e s; Some s }
                | None \<Rightarrow> Some s }
      else Some s)"

section \<open>Ramdisk and font\<close>

fun find_in_modules :: "(u8 list \<times> u8 list) list \<Rightarrow> u8 list \<Rightarrow> u8 list option" where
  "find_in_modules [] name = None"
| "find_in_modules ((cmdline, data) # ms) name = (if cmdline = name then Some data else find_in_modules ms name)"

definition find_module :: "(u8 list \<times> u8 list) list option \<Rightarrow> u8 list \<Rightarrow> u8 list option" where
  "find_module resp name = Option.bind resp (\<lambda>ms. find_in_modules ms name)"

definition boot_ramdisk :: "(u8 list \<times> u8 list) list option \<Rightarrow> io \<Rightarrow> (tar_fs option \<times> io) option" where
  "boot_ramdisk resp io =
     (case find_module resp (str_bytes ''initrd'') of
        None \<Rightarrow> do { io \<leftarrow> console [Str ''WARN: initrd not found\<newline>'', Str ''avaria ready.\<newline>''] io; Some (None, io) }
      | Some data \<Rightarrow>
          do { fs \<leftarrow> tar_parse data;
               case fs of
                 Some f \<Rightarrow> do { io \<leftarrow> console [Str ''initrd: tarfs mounted\<newline>''] io; Some (Some f, io) }
               | None \<Rightarrow> do { io \<leftarrow> console [Str ''FATAL: failed to parse initrd\<newline>''] io; Some (None, io) } })"

definition GREETING :: "u32 list" where
  "GREETING = [0x420, 0x412, 0x418, 0x20, 0x41F, 0x418, 0x5A, 0x414, 0x423]"

definition boot_font :: "tar_fs \<Rightarrow> screen \<Rightarrow> ram \<Rightarrow> io \<Rightarrow> (screen \<times> ram \<times> io) option" where
  "boot_font fs sc m io =
     (case tar_read fs (str_bytes ''res/UniCyrX-ibm-8x16.psf'') of
        Some font_data \<Rightarrow>
          do { io \<leftarrow> console [Str ''Font loaded, size='', Dec (of_nat (length font_data)), Str ''\<newline>''] io;
               case psf_parse font_data of
                 Some f \<Rightarrow>
                   do { fb \<leftarrow> kernel_fb sc;
                        m \<leftarrow> draw_str f fb 16 16 GREETING 0xFFFFFF 0x000080 m;
                        Some (sc\<lparr>kernel_font := Some f\<rparr>, m, io) }
               | None \<Rightarrow> do { io \<leftarrow> console [Str ''WARN: failed to parse PSF font\<newline>''] io; Some (sc, m, io) } }
      | None \<Rightarrow> do { io \<leftarrow> console [Str ''WARN: font not found in initrd\<newline>''] io; Some (sc, m, io) })"

section \<open>Modules and tasks\<close>

definition MAX_MODULES :: usize where "MAX_MODULES = 16"
definition MODULE_BUF_SIZE :: usize where "MODULE_BUF_SIZE = 0x10000"

record boot =
  bt_idx :: usize
  bt_bufs :: "u8 list list"
  bt_tables :: qwords
  bt_sched :: sched
  bt_mem :: mem
  bt_io :: io

definition say_boot :: "con list \<Rightarrow> boot \<Rightarrow> boot option" where
  "say_boot cs b = do { io \<leftarrow> console cs (bt_io b); Some (b\<lparr>bt_io := io\<rparr>) }"

text \<open>The closure given to \<open>for_each_matching\<close>.\<close>

definition load_module :: "u64 \<Rightarrow> u64 \<Rightarrow> u64 \<Rightarrow> u64 \<Rightarrow> u64 \<Rightarrow> u8 list \<Rightarrow> u8 list \<Rightarrow> boot \<Rightarrow> boot option" where
  "load_module cr3 hhdm BUFS TR API path ko_data b =
     (if bt_idx b \<ge> MAX_MODULES
      then say_boot [Str ''WARN: too many modules, skipping '', Raw path, Str ''\<newline>''] b
      else do {
        b \<leftarrow> say_boot [Str ''Loading '', Raw path, Str '', size='', Dec (of_nat (length ko_data)), Str ''\<newline>''] b;
        let base = BUFS + of_nat (bt_idx b * MODULE_BUF_SIZE);
        (buf, r) \<leftarrow> load_at ko_data base (bt_bufs b ! bt_idx b);
        let b = b\<lparr>bt_bufs := (bt_bufs b)[bt_idx b := buf]\<rparr>;
        case r of
          Inr loaded \<Rightarrow>
            do { tables \<leftarrow> make_executable cr3 hhdm (le_load_base loaded) (of_nat (le_load_size loaded)) (bt_tables b);
                 (id, sched, mem, io) \<leftarrow> spawn TR (le_entry loaded) API path (bt_sched b) (bt_mem b) (bt_io b);
                 Some (b\<lparr>bt_tables := tables, bt_sched := sched, bt_mem := mem, bt_io := io, bt_idx := bt_idx b + 1\<rparr>) }
        | Inl _ \<Rightarrow> say_boot [Str ''WARN: failed to load '', Raw path, Str ''\<newline>''] b })"

definition load_modules :: "u64 \<Rightarrow> u64 \<Rightarrow> u64 \<Rightarrow> u64 \<Rightarrow> u64 \<Rightarrow> tar_fs \<Rightarrow> boot \<Rightarrow> boot option" where
  "load_modules cr3 hhdm BUFS TR API fs b =
     for_each_matching fs (str_bytes ''boot/modules/'') (str_bytes ''.ko'')
       (\<lambda>path ko_data b. b \<bind> load_module cr3 hhdm BUFS TR API path ko_data) (Some b)"

text \<open>The end of \<open>_start\<close>: all modules, the shell, and the scheduler is switched on.\<close>

definition boot_tasks :: "u64 \<Rightarrow> u64 \<Rightarrow> u64 \<Rightarrow> u64 \<Rightarrow> u64 \<Rightarrow> u64 \<Rightarrow> tar_fs \<Rightarrow> boot \<Rightarrow> boot option" where
  "boot_tasks cr3 hhdm BUFS TR API SHELL fs b =
     do { b \<leftarrow> load_modules cr3 hhdm BUFS TR API fs b;
          (id, sched, mem, io) \<leftarrow> spawn TR SHELL 0 (str_bytes ''shell'') (bt_sched b) (bt_mem b) (bt_io b);
          io \<leftarrow> console [Str ''avaria ready.\<newline>''] io;
          (sched, io) \<leftarrow> sched_start sched io;
          Some (b\<lparr>bt_sched := sched, bt_mem := mem, bt_io := io\<rparr>) }"

section \<open>Panics\<close>

text \<open>The message of the panic handler; the location is the file and the line.\<close>

definition panic_report :: "(u8 list \<times> u32) option \<Rightarrow> con list" where
  "panic_report location =
     [Str ''\<newline>!!! KERNEL PANIC !!!\<newline>''] @
     (case location of
        Some (file_name, line) \<Rightarrow> [Str ''  '', Raw file_name, Str '':'', Dec (ucast line), Str ''\<newline>'']
      | None \<Rightarrow> [])"

definition kernel_panic :: "(u8 list \<times> u32) option \<Rightarrow> io \<Rightarrow> io option" where
  "kernel_panic location io = console (panic_report location) io"

section \<open>Loading keeps the kernel in order\<close>

definition boot_inv :: "boot \<Rightarrow> bool" where
  "boot_inv b \<longleftrightarrow> sched_inv (bt_sched b) \<and> mem_inv (bt_mem b) \<and> tx_live (io_env (bt_io b)) \<and>
     bt_idx b \<le> MAX_MODULES \<and> length (bt_bufs b) = MAX_MODULES \<and> (\<forall>buf\<in>set (bt_bufs b). length buf = MODULE_BUF_SIZE)"

text \<open>
  What no load changes: the images loaded before, the tasks that can run, and every translation. \<open>root\<close>
  is the page table root.
\<close>

definition boot_keeps :: "u64 \<Rightarrow> u64 \<Rightarrow> boot \<Rightarrow> boot \<Rightarrow> bool" where
  "boot_keeps hhdm root b b' \<longleftrightarrow> bt_idx b \<le> bt_idx b' \<and> (\<forall>j<bt_idx b. bt_bufs b' ! j = bt_bufs b ! j) \<and>
     (\<forall>i. t_state (task_at (bt_sched b) i) \<in> {Ready, Running} \<longrightarrow> task_at (bt_sched b') i = task_at (bt_sched b) i) \<and>
     (\<forall>va. translate hhdm root (bt_tables b') va = translate hhdm root (bt_tables b) va)"

lemma boot_keeps_refl [simp]: "boot_keeps hhdm root b b"
  by (simp add: boot_keeps_def)

lemma boot_keeps_trans: "boot_keeps hhdm root b c \<Longrightarrow> boot_keeps hhdm root c d \<Longrightarrow> boot_keeps hhdm root b d"
  by (auto simp: boot_keeps_def)

lemma say_boot_returns:
  assumes "tx_live (io_env (bt_io b))"
  obtains io where "say_boot cs b = Some (b\<lparr>bt_io := io\<rparr>)" "io_env io = io_env (bt_io b)"
  using prints_console [OF assms, of cs] by (elim printsE) (simp add: say_boot_def sent_env)

lemma spawn_keeps:
  assumes "sched_inv s" "mem_inv m" "tx_live (io_env io)"
  obtains r s' m' io' where "spawn tr en api name s m io = Some (r, s', m', io')" "sched_inv s'" "mem_inv m'"
    "tx_live (io_env io')" "\<And>i. t_state (task_at s i) \<in> {Ready, Running} \<Longrightarrow> task_at s' i = task_at s i"
proof (rule spawn_cases [OF assms(3), of s tr en api name m], goal_cases no_slot no_stack spawned)
  case (no_slot io')
  then show ?case using that assms by simp
next
  case (no_stack i m' io')
  then show ?case using that assms mem_inv_pages [OF assms(2), of TASK_STACK_ORDER] by simp
next
  case (spawned i m' base io')
  note i = spawn_slot_Some [OF spawned(2)]
  have "task_at ((set_task i (new_task tr i base en api name) s)\<lparr>sd_if := True\<rparr>) j = task_at s j"
    if "t_state (task_at s j) \<in> {Ready, Running}" for j
  proof -
    have "i \<noteq> j" using i that by auto
    then show ?thesis by simp
  qed
  moreover have "sched_inv ((set_task i (new_task tr i base en api name) s)\<lparr>sd_if := True\<rparr>)"
    using sched_inv_set [OF assms(1), of i] i by simp
  ultimately show ?case
    using that [OF spawned(5)] spawned(3,4) mem_inv_pages [OF assms(2), of TASK_STACK_ORDER] assms(3) by simp
qed

lemma spawn_ready:
  assumes inv: "sched_inv s" and live: "tx_live (io_env io)"
    and slot: "1 \<le> k" "k < 16" "t_state (task_at s k) \<notin> {Ready, Running}" and stack: "snd (mem_alloc_pages m 2) \<noteq> None"
  obtains id s' m' io' i base where "spawn tr en api name s m io = Some (id, s', m', io')" "1 \<le> i" "i < 16"
    "t_state (task_at s i) \<in> {Empty, Exited}" "task_at s' i = new_task tr i base en api name"
    "\<And>j. j \<noteq> i \<Longrightarrow> task_at s' j = task_at s j"
proof (rule spawn_cases [OF live, of s tr en api name m], goal_cases no_slot no_stack spawned)
  case (no_slot io')
  then show ?case using spawn_slot_None [of s k] slot by (simp add: MAX_TASKS_def)
next
  case (no_stack i m' io')
  then show ?case using stack by (simp add: TASK_STACK_ORDER_def)
next
  case (spawned i m' base io')
  have i: "1 \<le> i" "i < 16" "t_state (task_at s i) \<in> {Empty, Exited}"
    using spawn_slot_Some [OF spawned(2)] by (auto simp: MAX_TASKS_def)
  have "i < length (sd_tasks s)" using inv i(2) by (simp add: sched_inv_def MAX_TASKS_def)
  then have "task_at ((set_task i (new_task tr i base en api name) s)\<lparr>sd_if := True\<rparr>) i = new_task tr i base en api name"
    "\<And>j. j \<noteq> i \<Longrightarrow> task_at ((set_task i (new_task tr i base en api name) s)\<lparr>sd_if := True\<rparr>) j = task_at s j" by simp_all
  then show ?case using spawned(1) [OF spawned(5) i] by blast
qed

text \<open>The buffer of the next module: its address and its extent do not wrap around.\<close>

definition bufs_fit :: "u64 \<Rightarrow> bool" where
  "bufs_fit BUFS \<longleftrightarrow> unat BUFS + MAX_MODULES * MODULE_BUF_SIZE + 4095 < 2 ^ 64"

lemma module_buffer:
  assumes "bufs_fit BUFS" "i < MAX_MODULES" "n \<le> MODULE_BUF_SIZE"
  shows "unat (BUFS + of_nat (i * MODULE_BUF_SIZE)) = unat BUFS + i * MODULE_BUF_SIZE"
    "unat (BUFS + of_nat (i * MODULE_BUF_SIZE)) + unat (of_nat n :: u64) + 4095 < 2 ^ 64"
proof -
  have i: "i * MODULE_BUF_SIZE + MODULE_BUF_SIZE \<le> MAX_MODULES * MODULE_BUF_SIZE"
    using assms(2) by (simp add: MAX_MODULES_def MODULE_BUF_SIZE_def)
  then have "unat (of_nat (i * MODULE_BUF_SIZE) :: u64) = i * MODULE_BUF_SIZE" "unat (of_nat n :: u64) = n"
    using assms by (auto simp: bufs_fit_def MAX_MODULES_def MODULE_BUF_SIZE_def intro!: unat_of_usz simp del: of_nat_mult)
  then show "unat (BUFS + of_nat (i * MODULE_BUF_SIZE)) = unat BUFS + i * MODULE_BUF_SIZE"
    "unat (BUFS + of_nat (i * MODULE_BUF_SIZE)) + unat (of_nat n :: u64) + 4095 < 2 ^ 64"
    using i assms(1,3) by (simp_all add: unat_word_ariths bufs_fit_def del: of_nat_mult)
qed

lemma load_module_keeps:
  assumes inv: "boot_inv b" and fit: "bufs_fit BUFS" and sane: "image_sane ko" and root: "root = page_base cr3"
  shows "\<exists>b'. load_module cr3 hhdm BUFS TR API path ko b = Some b' \<and> boot_inv b' \<and> boot_keeps hhdm root b b'"
proof (cases "bt_idx b \<ge> MAX_MODULES")
  case True
  obtain io where "say_boot [Str ''WARN: too many modules, skipping '', Raw path, Str ''\<newline>''] b = Some (b\<lparr>bt_io := io\<rparr>)"
    "io_env io = io_env (bt_io b)" using say_boot_returns inv unfolding boot_inv_def by blast
  then show ?thesis using True inv by (simp add: load_module_def boot_inv_def boot_keeps_def)
next
  case False
  let ?i = "bt_idx b" and ?base = "BUFS + of_nat (bt_idx b * MODULE_BUF_SIZE)"
  obtain io1 where 1: "say_boot [Str ''Loading '', Raw path, Str '', size='', Dec (of_nat (length ko)), Str ''\<newline>''] b =
      Some (b\<lparr>bt_io := io1\<rparr>)" "io_env io1 = io_env (bt_io b)" using say_boot_returns inv unfolding boot_inv_def by blast
  have len: "length (bt_bufs b ! ?i) = MODULE_BUF_SIZE" using inv False by (simp add: boot_inv_def)
  obtain buf r where 2: "load_at ko ?base (bt_bufs b ! ?i) = Some (buf, r)" "length buf = MODULE_BUF_SIZE"
    "\<And>l. r = Inr l \<Longrightarrow> le_load_base l = ?base \<and> le_load_size l \<le> MODULE_BUF_SIZE"
    by (rule load_at_returns [OF sane, of "bt_bufs b ! ?i" ?base]) (use len in \<open>simp_all add: MODULE_BUF_SIZE_def\<close>)
  let ?b = "b\<lparr>bt_io := io1, bt_bufs := (bt_bufs b)[?i := buf]\<rparr>"
  have b: "boot_inv ?b" "boot_keeps hhdm root b ?b"
    using inv 1(2) 2(2) False set_update_subset_insert [of "bt_bufs b" ?i buf] by (auto simp: boot_inv_def boot_keeps_def)
  show ?thesis
  proof (cases r)
    case (Inl e)
    obtain io where "say_boot [Str ''WARN: failed to load '', Raw path, Str ''\<newline>''] ?b = Some (?b\<lparr>bt_io := io\<rparr>)"
      "io_env io = io_env (bt_io ?b)" using say_boot_returns b(1) unfolding boot_inv_def by blast
    then show ?thesis using Inl 1(1) 2(1) b False by (simp add: load_module_def boot_inv_def boot_keeps_def)
  next
    case (Inr l)
    have "unat (le_load_base l) + unat (of_nat (le_load_size l) :: u64) + 4095 < 2 ^ 64"
      using 2(3) [OF Inr] module_buffer(2) [OF fit] False by simp
    then obtain t where t: "make_executable cr3 hhdm (le_load_base l) (of_nat (le_load_size l)) (bt_tables b) = Some t"
      "\<forall>va. translate hhdm root t va = translate hhdm root (bt_tables b) va"
      using make_executable_spec root by meson
    obtain id s m io where "spawn TR (le_entry l) API path (bt_sched b) (bt_mem b) io1 = Some (id, s, m, io)" "sched_inv s"
      "mem_inv m" "tx_live (io_env io)" "\<And>i. t_state (task_at (bt_sched b) i) \<in> {Ready, Running} \<Longrightarrow> task_at s i = task_at (bt_sched b) i"
      by (rule spawn_keeps [of "bt_sched b" "bt_mem b" io1 TR "le_entry l" API path]) (use inv 1(2) in \<open>simp_all add: boot_inv_def\<close>)
    then show ?thesis using Inr 1(1) 2(1) t b False by (simp add: load_module_def boot_inv_def boot_keeps_def)
  qed
qed

text \<open>The files the boot sequence loads as modules.\<close>

definition is_module :: "tar_entry \<Rightarrow> bool" where
  "is_module e \<longleftrightarrow> \<not> te_is_dir e \<and> prefix (str_bytes ''boot/modules/'') (trim_end_slash (te_name e)) \<and>
     suffix (str_bytes ''.ko'') (trim_end_slash (te_name e))"

lemma for_each_none: "for_each_matching fs pre suf (\<lambda>p d b. b \<bind> f p d) None = None"
  by (induction fs) (simp_all add: Let_def)

lemma load_modules_keeps:
  assumes "bufs_fit BUFS" "root = page_base cr3"
  shows "boot_inv b \<Longrightarrow> \<forall>e\<in>set fs. is_module e \<longrightarrow> image_sane (te_data e) \<Longrightarrow>
    \<exists>b'. load_modules cr3 hhdm BUFS TR API fs b = Some b' \<and> boot_inv b' \<and> boot_keeps hhdm root b b'"
proof (induction fs arbitrary: b)
  case (Cons e es)
  have "trim_start_slash (str_bytes ''boot/modules/'') = str_bytes ''boot/modules/''"
    by (simp add: trim_start_slash_def str_bytes_def)
  then have step: "load_modules cr3 hhdm BUFS TR API (e # es) b =
      (if is_module e then load_module cr3 hhdm BUFS TR API (trim_end_slash (te_name e)) (te_data e) b \<bind> load_modules cr3 hhdm BUFS TR API es
       else load_modules cr3 hhdm BUFS TR API es b)"
    by (cases "load_module cr3 hhdm BUFS TR API (trim_end_slash (te_name e)) (te_data e) b")
      (auto simp: load_modules_def is_module_def Let_def for_each_none)
  show ?case
  proof (cases "is_module e")
    case True
    then obtain c where c: "load_module cr3 hhdm BUFS TR API (trim_end_slash (te_name e)) (te_data e) b = Some c"
      "boot_inv c" "boot_keeps hhdm root b c"
      using load_module_keeps [OF Cons.prems(1) assms(1) _ assms(2)] Cons.prems(2) by fastforce
    then show ?thesis using Cons.IH [OF c(2)] Cons.prems(2) boot_keeps_trans [OF c(3)] True by (auto simp: step)
  next
    case False
    then show ?thesis using Cons by (simp add: step)
  qed
qed (simp add: load_modules_def)

section \<open>Properties\<close>

text \<open>
  C38: from a module file to a task. When the module's image is well formed and fits its buffer, a buffer, a
  task slot and a stack are left, and the console works, loading it returns and
  leaves: every byte of the image in the module's own buffer; the buffer's mapped pages as writable and
  executable as the tables above them allow, with every translation as before; and a new ready task at the
  trampoline whose arguments are the relocated entry point and the interface table. The images loaded
  before and all other tasks are as before, and one buffer more is in use.
\<close>

theorem module_becomes_task:
  assumes inv: "boot_inv b" "bt_idx b < MAX_MODULES" and fit: "bufs_fit BUFS" and root: "root = page_base cr3"
    and hdr: "parse_header ko = Inr hdr" "program_headers ko hdr = Inr (off, count)" "unat (e_phoff hdr) < 2 ^ 63"
    and ps: "ps = map (phdr_at ko off) [0..<count]" "list_all segment_ok ps" "\<not> bad_segments ko ps MODULE_BUF_SIZE"
    and room: "\<exists>i. 1 \<le> i \<and> i < 16 \<and> t_state (task_at (bt_sched b) i) \<notin> {Ready, Running}"
      "snd (mem_alloc_pages (bt_mem b) 2) \<noteq> None"
    and base: "base = BUFS + of_nat (bt_idx b * MODULE_BUF_SIZE)"
  shows "\<exists>b' i stack. load_module cr3 hhdm BUFS TR API path ko b = Some b' \<and> bt_idx b' = bt_idx b + 1 \<and>
    (\<forall>j<MODULE_BUF_SIZE. bt_bufs b' ! bt_idx b ! j = image_at ko ps (bt_bufs b ! bt_idx b) j) \<and>
    (\<forall>j. j \<noteq> bt_idx b \<longrightarrow> bt_bufs b' ! j = bt_bufs b ! j) \<and>
    (\<forall>va. translate hhdm root (bt_tables b') va = translate hhdm root (bt_tables b) va) \<and>
    (\<forall>va pth. unat base \<le> unat va \<and> unat va < unat base + image_span ps \<and> walk hhdm root (bt_tables b) va = Some pth \<longrightarrow>
       page_nx (bt_tables b') pth = page_nx (bt_tables b') (butlast pth)) \<and>
    1 \<le> i \<and> i < 16 \<and> t_state (task_at (bt_sched b) i) \<in> {Empty, Exited} \<and>
    task_at (bt_sched b') i = new_task TR i stack (e_entry hdr + (base - image_lo ps)) API path \<and>
    (\<forall>j. j \<noteq> i \<longrightarrow> task_at (bt_sched b') j = task_at (bt_sched b) j)"
proof -
  let ?i = "bt_idx b"
  have len: "length (bt_bufs b ! ?i) = MODULE_BUF_SIZE" "?i < length (bt_bufs b)" using inv by (simp_all add: boot_inv_def)
  obtain io1 where 1: "say_boot [Str ''Loading '', Raw path, Str '', size='', Dec (of_nat (length ko)), Str ''\<newline>''] b =
      Some (b\<lparr>bt_io := io1\<rparr>)" "io_env io1 = io_env (bt_io b)" using say_boot_returns inv unfolding boot_inv_def by blast
  have small: "length (bt_bufs b ! ?i) < 2 ^ 63" using len(1) by (simp add: MODULE_BUF_SIZE_def)
  obtain buf where 2: "load_at ko base (bt_bufs b ! ?i) =
      Some (buf, Inr \<lparr>le_entry = e_entry hdr + (base - image_lo ps), le_load_base = base, le_load_size = image_span ps\<rparr>)"
    "\<forall>j<MODULE_BUF_SIZE. buf ! j = image_at ko ps (bt_bufs b ! ?i) j"
    using load_at_result [OF hdr ps(1,2) small, of base] ps(3) len(1) by auto
  have span: "image_span ps \<le> MODULE_BUF_SIZE" using ps(3) by (auto simp: bad_segments_def)
  have wrap: "unat base + unat (of_nat (image_span ps) :: u64) + 4095 < 2 ^ 64"
    using module_buffer(2) [OF fit inv(2) span] base by simp
  have size: "unat (of_nat (image_span ps) :: u64) = image_span ps"
    using span by (intro unat_of_usz) (simp add: MODULE_BUF_SIZE_def)
  obtain t where t: "make_executable cr3 hhdm base (of_nat (image_span ps)) (bt_tables b) = Some t"
    "\<forall>va. translate hhdm root t va = translate hhdm root (bt_tables b) va"
    "\<forall>va pth. unat base \<le> unat va \<and> unat va < unat base + image_span ps \<and> walk hhdm root (bt_tables b) va = Some pth \<longrightarrow>
       page_nx t pth = page_nx t (butlast pth)"
    using make_executable_spec [OF wrap root, of hhdm "bt_tables b"] unfolding size by blast
  have "sched_inv (bt_sched b)" "tx_live (io_env io1)" using inv(1) 1(2) by (simp_all add: boot_inv_def)
  obtain k where "1 \<le> k" "k < 16" "t_state (task_at (bt_sched b) k) \<notin> {Ready, Running}" using room(1) by blast
  then obtain r s m io i stack where sp: "spawn TR (e_entry hdr + (base - image_lo ps)) API path (bt_sched b) (bt_mem b) io1 = Some (r, s, m, io)"
    and i: "1 \<le> i" "i < 16" "t_state (task_at (bt_sched b) i) \<in> {Empty, Exited}"
    "task_at s i = new_task TR i stack (e_entry hdr + (base - image_lo ps)) API path"
    "\<And>j. j \<noteq> i \<Longrightarrow> task_at s j = task_at (bt_sched b) j"
    by (rule spawn_ready [OF \<open>sched_inv (bt_sched b)\<close> \<open>tx_live (io_env io1)\<close> _ _ _ room(2),
          where tr = TR and en = "e_entry hdr + (base - image_lo ps)" and api = API and name = path]) blast+
  let ?b = "b\<lparr>bt_bufs := (bt_bufs b)[?i := buf], bt_tables := t, bt_sched := s, bt_mem := m, bt_io := io, bt_idx := ?i + 1\<rparr>"
  have "load_module cr3 hhdm BUFS TR API path ko b = Some ?b"
    using inv(2) 1(1) 2(1) t(1) sp by (simp add: load_module_def del: of_nat_mult flip: base)
  moreover have "\<forall>j<MODULE_BUF_SIZE. bt_bufs ?b ! ?i ! j = image_at ko ps (bt_bufs b ! ?i) j"
    "\<forall>j. j \<noteq> ?i \<longrightarrow> bt_bufs ?b ! j = bt_bufs b ! j" "bt_idx ?b = ?i + 1" using 2(2) len(2) by simp_all
  moreover have "bt_tables ?b = t" "bt_sched ?b = s" by simp_all
  ultimately show ?thesis using t(2,3) i by metis
qed

text \<open>One module of the two bytes of \<open>sample_elf\<close>, over a 64 KiB heap and an empty page table.\<close>

definition sample_boot :: boot where
  "sample_boot = \<lparr>bt_idx = 0, bt_bufs = replicate MAX_MODULES (replicate MODULE_BUF_SIZE 0), bt_tables = (\<lambda>_. 0),
     bt_sched = demo_sched, bt_mem = sy_mem demo_system, bt_io = sy_io demo_system\<rparr>"

lemma sample_boot_inv: "boot_inv sample_boot"
  using demo_inv by (simp add: boot_inv_def sample_boot_def system_inv_def)

lemma sample_stack: "snd (mem_alloc_pages (sy_mem demo_system) 2) = Some 0x101000"
proof -
  let ?b = "buddy_init buddy_new 0x101000 0x10000"
  have b: "m_buddy (sy_mem demo_system) = ?b" by (simp add: demo_system_def mem_init_def mem_boot_def Let_def)
  have "2 \<le> bd_max_order ?b" using init_max_order [of 2 "0x10000" buddy_new "0x101000"] by (simp add: PAGE_SIZE_def MAX_ORDER_def)
  then have "buddy_alloc_pages ?b 2 = (mark_allocated ?b 2 0, Some (bd_base ?b))"
    by (intro alloc_first_block) (simp_all add: buddy_wf_init free_bits_init PAGE_SIZE_def BITMAP_SIZE_val)
  then show ?thesis by (simp add: mem_alloc_pages_def b)
qed

lemma sample_image:
  "list_all segment_ok [sample_phdr]" "\<not> bad_segments sample_elf [sample_phdr] MODULE_BUF_SIZE"
  "image_lo [sample_phdr] = 16" "image_span [sample_phdr] = 4"
proof -
  show img: "image_lo [sample_phdr] = 16" "image_span [sample_phdr] = 4"
    by (simp_all add: image_lo_def image_hi_def image_span_def sample_phdr_def PT_LOAD_def)
  show "list_all segment_ok [sample_phdr]" by (simp add: segment_ok_def sample_phdr_def PT_LOAD_def)
  show "\<not> bad_segments sample_elf [sample_phdr] MODULE_BUF_SIZE"
    by (simp add: bad_segments_def img past_end_def MODULE_BUF_SIZE_def) (simp add: sample_phdr_def PT_LOAD_def sample_elf_def)
qed

theorem module_becomes_task_witness:
  "\<exists>b' i stack. load_module 0x1000 0 0x200000 0x9000 0x8000 [0x61] sample_elf sample_boot = Some b' \<and> bt_idx b' = 1 \<and>
     task_at (bt_sched b') i = new_task 0x9000 i stack 0x200001 0x8000 [0x61]"
proof -
  have inv: "bt_idx sample_boot < MAX_MODULES" by (simp add: sample_boot_def MAX_MODULES_def)
  have fit: "bufs_fit 0x200000" by (simp add: bufs_fit_def MAX_MODULES_def MODULE_BUF_SIZE_def)
  have ps: "[sample_phdr] = map (phdr_at sample_elf 64) [0..<1]" by (simp add: sample_table)
  have low: "unat (e_phoff (header_of sample_elf)) < 2 ^ 63" by (simp add: sample_header)
  have "t_state (task_at (bt_sched sample_boot) 2) \<notin> {Ready, Running}" by (simp add: sample_boot_def demo_states)
  then have slot: "\<exists>i. 1 \<le> i \<and> i < 16 \<and> t_state (task_at (bt_sched sample_boot) i) \<notin> {Ready, Running}"
    by (intro exI [of _ 2]) simp
  have stack: "snd (mem_alloc_pages (bt_mem sample_boot) 2) \<noteq> None" by (simp add: sample_boot_def sample_stack)
  have base: "0x200000 = 0x200000 + of_nat (bt_idx sample_boot * MODULE_BUF_SIZE)" by (simp add: sample_boot_def)
  have idx: "bt_idx sample_boot = 0" by (simp add: sample_boot_def)
  show ?thesis
    using module_becomes_task [OF sample_boot_inv inv fit refl sample_header(1,2) low ps sample_image(1,2) slot stack base,
        of "0x1000" 0 "0x9000" "0x8000" "[0x61]"] sample_image(3)
    by (force simp: sample_header idx)
qed

lemma boot_tasks_returns:
  assumes "boot_inv b" "bufs_fit BUFS" "root = page_base cr3"
    and "\<forall>e\<in>set fs. is_module e \<longrightarrow> image_sane (te_data e)"
  shows "\<exists>b'. boot_tasks cr3 hhdm BUFS TR API SHELL fs b = Some b' \<and> boot_inv b' \<and> boot_keeps hhdm root b b' \<and>
    sd_active (bt_sched b')"
proof -
  obtain c where c: "load_modules cr3 hhdm BUFS TR API fs b = Some c" "boot_inv c" "boot_keeps hhdm root b c"
    using load_modules_keeps [OF assms(2,3,1,4)] by blast
  obtain id s m io where s: "spawn TR SHELL 0 (str_bytes ''shell'') (bt_sched c) (bt_mem c) (bt_io c) = Some (id, s, m, io)"
    "sched_inv s" "mem_inv m" "tx_live (io_env io)"
    "\<And>i. t_state (task_at (bt_sched c) i) \<in> {Ready, Running} \<Longrightarrow> task_at s i = task_at (bt_sched c) i"
    by (rule spawn_keeps [of "bt_sched c" "bt_mem c" "bt_io c" TR SHELL 0 "str_bytes ''shell''"])
      (use c(2) in \<open>simp_all add: boot_inv_def\<close>)
  obtain io1 where 1: "console [Str ''avaria ready.\<newline>''] io = Some io1" "tx_live (io_env io1)"
    using prints_live [OF prints_console [OF s(4)] s(4)] by blast
  obtain io2 where 2: "puts ''sched: starting\<newline>'' io1 = Some io2" "tx_live (io_env io2)"
    using prints_live [OF prints_puts [OF 1(2)] 1(2)] by blast
  let ?c = "c\<lparr>bt_sched := s\<lparr>sd_active := True\<rparr>, bt_mem := m, bt_io := io2\<rparr>"
  have at: "task_at (s\<lparr>sd_active := True\<rparr>) i = task_at s i" for i by (simp add: task_at_def)
  then have "sched_inv (s\<lparr>sd_active := True\<rparr>)" using s(2) by (simp add: sched_inv_def)
  then have "boot_inv ?c" using c(2) s(3) 2(2) by (simp add: boot_inv_def)
  moreover have "boot_keeps hhdm root c ?c" using s(5) at by (simp add: boot_keeps_def)
  moreover have "boot_tasks cr3 hhdm BUFS TR API SHELL fs b = Some ?c"
    unfolding boot_tasks_def sched_start_def by (simp only: c(1) s(1) 1(1) 2(1) bind.bind_lunit prod.case)
  ultimately show ?thesis using boot_keeps_trans [OF c(3)] by auto
qed

text \<open>
  C39: the boot sequence reaches the scheduler. Whatever files the ramdisk holds, as long as
  every module in it has consistent segment sizes, loading them all and
  starting the shell returns with the scheduler switched on and the scheduler's and the heap's invariants
  intact; at most sixteen modules are loaded, no image is overwritten by a later one, no task that could
  run is replaced, and every address translates as before.
\<close>

theorem boot_starts_scheduler:
  assumes "boot_inv b" "bufs_fit BUFS" "root = page_base cr3"
    and "\<forall>e\<in>set fs. is_module e \<longrightarrow> image_sane (te_data e)"
  shows "\<exists>b'. boot_tasks cr3 hhdm BUFS TR API SHELL fs b = Some b' \<and> boot_inv b' \<and> boot_keeps hhdm root b b' \<and>
    sd_active (bt_sched b')"
  by (rule boot_tasks_returns [OF assms])

theorem boot_starts_scheduler_witness:
  defines "fs \<equiv> [\<lparr>te_name = str_bytes ''boot/modules/a.ko'', te_data = sample_elf, te_is_dir = False\<rparr>]"
  shows "\<exists>b'. boot_tasks 0x1000 0 0x200000 0x9000 0x8000 0x7000 fs sample_boot = Some b' \<and> boot_inv b' \<and> sd_active (bt_sched b')"
proof -
  have "image_sane sample_elf"
    using sample_image(1) by (simp add: image_sane_def sample_header sample_table)
  then have "\<forall>e\<in>set fs. is_module e \<longrightarrow> image_sane (te_data e)" by (simp add: fs_def)
  moreover have "bufs_fit 0x200000" by (simp add: bufs_fit_def MAX_MODULES_def MODULE_BUF_SIZE_def)
  ultimately show ?thesis using boot_starts_scheduler [OF sample_boot_inv _ refl] by blast
qed

text \<open>
  There are sixteen buffers for modules but fifteen slots for tasks besides the idle task. When the modules
  take them all, the shell is not started: \<open>spawn\<close> prints a line, its result is not looked at, and the
  kernel goes on without a shell.
\<close>

theorem full_table_starts_no_shell:
  assumes "load_modules cr3 hhdm BUFS TR API fs b = Some c" "boot_inv c"
    and full: "\<And>i. 1 \<le> i \<Longrightarrow> i < 16 \<Longrightarrow> t_state (task_at (bt_sched c) i) \<in> {Ready, Running}"
  shows "\<exists>b'. boot_tasks cr3 hhdm BUFS TR API SHELL fs b = Some b' \<and>
    sd_tasks (bt_sched b') = sd_tasks (bt_sched c) \<and> sd_active (bt_sched b')"
proof -
  have live: "tx_live (io_env (bt_io c))" using assms(2) by (simp add: boot_inv_def)
  have "spawn_slot (bt_sched c) = None"
  proof (cases "spawn_slot (bt_sched c)")
    case (Some i)
    then show ?thesis using spawn_slot_Some [OF Some] full [of i] by (auto simp: MAX_TASKS_def)
  qed simp
  moreover obtain io where io: "puts ''sched: no free task slots\<newline>'' (bt_io c) = Some io" "tx_live (io_env io)"
    using prints_live [OF prints_puts [OF live] live] by blast
  ultimately have s: "spawn TR SHELL 0 (str_bytes ''shell'') (bt_sched c) (bt_mem c) (bt_io c) =
      Some (None, (bt_sched c)\<lparr>sd_if := True\<rparr>, bt_mem c, io)" by (simp add: spawn_def Let_def)
  obtain io1 where 1: "console [Str ''avaria ready.\<newline>''] io = Some io1" "tx_live (io_env io1)"
    using prints_live [OF prints_console [OF io(2)] io(2)] by blast
  obtain io2 where 2: "puts ''sched: starting\<newline>'' io1 = Some io2" "tx_live (io_env io2)"
    using prints_live [OF prints_puts [OF 1(2)] 1(2)] by blast
  have "boot_tasks cr3 hhdm BUFS TR API SHELL fs b =
      Some (c\<lparr>bt_sched := (bt_sched c)\<lparr>sd_if := True, sd_active := True\<rparr>, bt_mem := bt_mem c, bt_io := io2\<rparr>)"
    unfolding boot_tasks_def sched_start_def by (simp only: assms(1) s 1(1) 2(1) bind.bind_lunit prod.case)
  then show ?thesis by simp
qed

text \<open>After the font was loaded, the screen is one the shell can draw on.\<close>

lemma boot_font_screen_ok:
  assumes "screen_ok sc fb" "tx_live (io_env io)"
  shows "\<exists>sc' m' io'. boot_font fs sc m io = Some (sc', m', io') \<and> screen_ok sc' fb \<and> painted fb m m' \<and> tx_live (io_env io')"
proof (cases "tar_read fs (str_bytes ''res/UniCyrX-ibm-8x16.psf'')")
  case None
  obtain io1 where "console [Str ''WARN: font not found in initrd\<newline>''] io = Some io1" "tx_live (io_env io1)"
    using prints_live [OF prints_console [OF assms(2)] assms(2)] by blast
  then show ?thesis using None assms(1) by (simp add: boot_font_def del: console.simps)
next
  case (Some data)
  obtain io1 where 1: "console [Str ''Font loaded, size='', Dec (of_nat (length data)), Str ''\<newline>''] io = Some io1"
    "tx_live (io_env io1)" using prints_live [OF prints_console [OF assms(2)] assms(2)] by blast
  show ?thesis
  proof (cases "psf_parse data")
    case None
    obtain io2 where "console [Str ''WARN: failed to parse PSF font\<newline>''] io1 = Some io2" "tx_live (io_env io2)"
      using prints_live [OF prints_console [OF 1(2)] 1(2)] by blast
    then show ?thesis using Some 1(1) None assms(1) by (simp add: boot_font_def del: console.simps)
  next
    case font: (Some f)
    have fb: "kernel_fb sc = Some fb" "fb_wf fb" using assms(1) by (simp_all add: screen_ok_def)
    obtain m1 where "draw_str f fb 16 16 GREETING 0xFFFFFF 0x000080 m = Some m1" "painted fb m m1"
      using draw_str_returns [OF psf_parse_wf [OF font] fb(2)] unfolding painted_def by blast
    then show ?thesis using Some 1 font fb psf_parse_wf [OF font]
      by (simp add: boot_font_def screen_ok_def del: console.simps)
  qed
qed

lemma find_module_map_of: "find_module (Some ms) name = map_of ms name"
proof -
  have "find_in_modules ms name = map_of ms name" by (induction ms) auto
  then show ?thesis by (simp add: find_module_def)
qed

end
