(* ===== verification/Boot_Tables.thy ===== *)
theory Boot_Tables
  imports Interrupts Pic
begin

text \<open>
  Loading the processor's table registers: \<open>gdt::init\<close>, \<open>tss::load\<close> and the end of \<open>idt::init\<close> of
  \<open>src/kern/arch/x86_64\<close>, and the part of \<open>_start\<close> that runs them. The register state is that of the
  processor: a segment register holds its selector, the task register also the base and limit
  it read from its descriptor. A load that the processor refuses (general protection, segment not
  present) is \<open>None\<close>. \<open>GDT\<close>, \<open>IDT\<close>, \<open>TSS\<close> and \<open>STACK\<close> are the addresses of the statics.
\<close>

section \<open>State\<close>

record gdt_ptr =
  gp_limit :: u16
  gp_base :: u64

record idt_ptr =
  ip_limit :: u16
  ip_base :: u64

record tables =
  tb_gdt :: gdt
  tb_tss :: tss
  tb_idt :: idt
  tb_gdtr :: gdt_ptr
  tb_idtr :: idt_ptr
  tb_cs :: u16
  tb_ds :: u16
  tb_es :: u16
  tb_fs :: u16
  tb_gs :: u16
  tb_ss :: u16
  tb_tr :: u16
  tb_tr_base :: nat
  tb_tr_limit :: nat

section \<open>What the processor does\<close>

text \<open>
  The descriptor a selector names: inside the limit of the table register, which must hold the address of
  the table. The eighth slot, padding of the aligned structure, is never a descriptor.
\<close>

definition table_entry :: "u64 \<Rightarrow> tables \<Rightarrow> u16 \<Rightarrow> gdt_entry option" where
  "table_entry GDT t sel =
     (let i = unat sel div 8
      in if gp_base (tb_gdtr t) = GDT \<and> i * 8 + 7 \<le> unat (gp_limit (tb_gdtr t)) \<and> 0 < i \<and> i < length (tb_gdt t)
         then Some (tb_gdt t ! i) else None)"

definition data_segment :: "gdt_entry \<Rightarrow> bool" where
  "data_segment e \<longleftrightarrow> desc_present e \<and> bit (ge_access e) 4 \<and> \<not> bit (ge_access e) 3"

text \<open>Loading a data segment register in ring 0, and the far return to a code segment of ring 0.\<close>

definition load_data_seg :: "u64 \<Rightarrow> u16 \<Rightarrow> tables \<Rightarrow> u16 option" where
  "load_data_seg GDT sel t =
     (case table_entry GDT t sel of Some e \<Rightarrow> if data_segment e then Some sel else None | None \<Rightarrow> None)"

text \<open>The stack segment register also wants a writable segment of its own ring.\<close>

definition load_stack_seg :: "u64 \<Rightarrow> u16 \<Rightarrow> tables \<Rightarrow> u16 option" where
  "load_stack_seg GDT sel t =
     (case table_entry GDT t sel of
        Some e \<Rightarrow> if data_segment e \<and> bit (ge_access e) 1 \<and> desc_dpl e = 0 \<and> sel AND 3 = 0 then Some sel else None
      | None \<Rightarrow> None)"

definition retfq :: "u64 \<Rightarrow> u16 \<Rightarrow> tables \<Rightarrow> tables option" where
  "retfq GDT sel t =
     (case table_entry GDT t sel of
        Some e \<Rightarrow> if desc_present e \<and> desc_code e \<and> desc_long e \<and> desc_dpl e = 0 then Some (t\<lparr>tb_cs := sel\<rparr>) else None
      | None \<Rightarrow> None)"

text \<open>\<open>ltr\<close>: an available 64-bit TSS is read through both of its slots and marked busy.\<close>

definition ltr :: "u64 \<Rightarrow> u16 \<Rightarrow> tables \<Rightarrow> tables option" where
  "ltr GDT sel t =
     (let i = unat sel div 8
      in case (table_entry GDT t sel, table_entry GDT t (sel + 8)) of
           (Some lo, Some hi) \<Rightarrow>
             if desc_present lo \<and> ge_access lo AND 0x1F = 9
             then Some (t\<lparr>tb_tr := sel, tb_tr_base := sys_base lo hi, tb_tr_limit := desc_limit lo,
                          tb_gdt := (tb_gdt t)[i := lo\<lparr>ge_access := ge_access lo OR 2\<rparr>]\<rparr>)
             else None
         | _ \<Rightarrow> None)"

section \<open>The code\<close>

text \<open>\<open>size_of::<Gdt>()\<close>: seven descriptors of eight bytes, padded to the alignment of 16.\<close>

definition gdt_size :: nat where
  "gdt_size = (7 * 8 + 15) div 16 * 16"

definition idt_size :: nat where
  "idt_size = IDT_ENTRIES * 16"

definition gdt_init :: "u64 \<Rightarrow> tables \<Rightarrow> tables option" where
  "gdt_init GDT t =
     (let t = t\<lparr>tb_gdtr := \<lparr>gp_limit = of_nat (gdt_size - 1), gp_base = GDT\<rparr>\<rparr>
      in do { t \<leftarrow> retfq GDT 0x08 t;
              ds \<leftarrow> load_data_seg GDT 0x10 t;
              let t = t\<lparr>tb_ds := ds\<rparr>;
              es \<leftarrow> load_data_seg GDT 0x10 t;
              let t = t\<lparr>tb_es := es\<rparr>;
              fs \<leftarrow> load_data_seg GDT 0x10 t;
              let t = t\<lparr>tb_fs := fs\<rparr>;
              gs \<leftarrow> load_data_seg GDT 0x10 t;
              let t = t\<lparr>tb_gs := gs\<rparr>;
              ss \<leftarrow> load_stack_seg GDT 0x10 t;
              Some (t\<lparr>tb_ss := ss\<rparr>) })"

definition idt_load :: "u64 \<Rightarrow> tables \<Rightarrow> tables" where
  "idt_load IDT t = t\<lparr>tb_idtr := \<lparr>ip_limit = of_nat (idt_size - 1), ip_base = IDT\<rparr>\<rparr>"

definition tss_load :: "u64 \<Rightarrow> u16 \<Rightarrow> tables \<Rightarrow> tables option" where
  "tss_load GDT selector t = ltr GDT selector t"

definition boot_tables ::
  "u64 \<Rightarrow> u64 \<Rightarrow> u64 \<Rightarrow> u64 \<Rightarrow> (nat \<Rightarrow> u64) \<Rightarrow> tables \<Rightarrow> io \<Rightarrow> (tables \<times> io) option" where
  "boot_tables GDT IDT TSS STACK isr_addr t io =
     do { t \<leftarrow> gdt_init GDT t;
          io \<leftarrow> puts ''GDT loaded\<newline>'' io;
          let t = idt_load IDT (t\<lparr>tb_idt := idt_init isr_addr (tb_idt t)\<rparr>);
          io \<leftarrow> puts ''IDT loaded\<newline>'' io;
          let io = pic_disable (pic_remap 32 40 io);
          io \<leftarrow> puts ''PIC remapped & disabled\<newline>'' io;
          let t = t\<lparr>tb_tss := tss_init STACK (tb_tss t)\<rparr>;
          let t = t\<lparr>tb_gdt := install_tss (tb_gdt t) TSS tss_size\<rparr>;
          t \<leftarrow> tss_load GDT TSS_SEL t;
          io \<leftarrow> puts ''TSS loaded\<newline>'' io;
          Some (t, io) }"

text \<open>The very start of \<open>_start\<close>: the console, and the check of the boot protocol; \<open>None\<close> inside halts.\<close>

definition boot_begin :: "bool \<Rightarrow> io \<Rightarrow> (unit option \<times> io) option" where
  "boot_begin revision_supported io =
     do { io \<leftarrow> puts ''avaria booting...\<newline>'' (serial_init io);
          if revision_supported then Some (Some (), io)
          else do { io \<leftarrow> puts ''FATAL: base revision not supported\<newline>'' io; Some (None, io) } }"

section \<open>Lemmas\<close>

lemma sizes: "gdt_size = 64" "idt_size = 4096" "(tss_size :: u16) = 103" "IDT_ENTRIES = 256"
  by (simp_all add: gdt_size_def idt_size_def IDT_ENTRIES_def tss_size_def tss_bytes_def)

lemma gdt_boot_entries [simp]:
  "length gdt_boot = 7" "gdt_boot ! Suc 0 = gdt_entry_new 0 0xFFFFF 0x9A 0xA" "gdt_boot ! 2 = gdt_entry_new 0 0xFFFFF 0x92 0xC"
  by (simp_all add: gdt_boot_def)

text \<open>Starting from the table the kernel is linked with, no load of \<open>gdt::init\<close> is refused.\<close>

lemma gdt_init_loads:
  assumes "tb_gdt t = gdt_boot"
  shows "gdt_init GDT t = Some (t\<lparr>tb_gdtr := \<lparr>gp_limit = 63, gp_base = GDT\<rparr>, tb_cs := 0x08, tb_ds := 0x10, tb_es := 0x10,
    tb_fs := 0x10, tb_gs := 0x10, tb_ss := 0x10\<rparr>)"
proof -
  have code: "desc_present (gdt_entry_new 0 0xFFFFF 0x9A 0xA)" "desc_code (gdt_entry_new 0 0xFFFFF 0x9A 0xA)"
    "desc_long (gdt_entry_new 0 0xFFFFF 0x9A 0xA)" "desc_dpl (gdt_entry_new 0 0xFFFFF 0x9A 0xA) = 0"
    and data: "data_segment (gdt_entry_new 0 0xFFFFF 0x92 0xC)" "bit (ge_access (gdt_entry_new 0 0xFFFFF 0x92 0xC)) (Suc 0)"
    "desc_dpl (gdt_entry_new 0 0xFFFFF 0x92 0xC) = 0"
    by (simp_all add: gdt_entry_new_def desc_present_def desc_code_def desc_long_def desc_dpl_def data_segment_def)
  show ?thesis
    by (simp add: gdt_init_def retfq_def load_data_seg_def load_stack_seg_def table_entry_def assms code data sizes Let_def)
qed

text \<open>After \<open>install_tss\<close> the task register can be loaded, once.\<close>

lemma ltr_installed:
  assumes gdtr: "tb_gdtr t = \<lparr>gp_limit = 63, gp_base = GDT\<rparr>" and gdt: "tb_gdt t = install_tss g base limit" "length g = 7"
  obtains t' where "ltr GDT TSS_SEL t = Some t'" "tb_tr t' = TSS_SEL" "tb_tr_base t' = unat base" "tb_tr_limit t' = unat limit"
    "t' = t\<lparr>tb_tr := TSS_SEL, tb_tr_base := unat base, tb_tr_limit := unat limit, tb_gdt := tb_gdt t'\<rparr>"
    "take 5 (tb_gdt t') = take 5 g" "ltr GDT TSS_SEL t' = None"
proof -
  have len: "length (install_tss g base limit) = 7" by (simp add: install_tss_def Let_def gdt(2))
  have acc: "ge_access (install_tss g base limit ! 5) = 0x89" by (simp add: install_tss_def Let_def gdt(2))
  have lim: "desc_limit (install_tss g base limit ! 5) = unat limit"
    using unsigned_less [where 'a = nat, of limit] by (simp add: desc_limit_def install_tss_def unat_fields Let_def gdt(2))
  have entry: "table_entry GDT u 0x28 = Some (tb_gdt u ! 5)" "table_entry GDT u 0x30 = Some (tb_gdt u ! 6)"
    if "tb_gdtr u = \<lparr>gp_limit = 63, gp_base = GDT\<rparr>" "length (tb_gdt u) = 7" for u
    using that by (simp_all add: table_entry_def)
  let ?t = "t\<lparr>tb_tr := TSS_SEL, tb_tr_base := unat base, tb_tr_limit := unat limit,
    tb_gdt := (tb_gdt t)[5 := (tb_gdt t ! 5)\<lparr>ge_access := ge_access (tb_gdt t ! 5) OR 2\<rparr>]\<rparr>"
  have "ltr GDT TSS_SEL t = Some ?t"
    using entry [of t] gdtr gdt len acc lim sys_base_install [OF gdt(2), of base limit]
    by (simp add: ltr_def TSS_SEL_def desc_present_def)
  moreover have "ltr GDT TSS_SEL ?t = None"
    using entry [of ?t] gdtr gdt len acc by (simp add: ltr_def TSS_SEL_def)
  moreover have "take 5 (tb_gdt ?t) = take 5 g" by (simp add: gdt(1) install_tss_def Let_def)
  ultimately show thesis by (intro that [of ?t]) simp_all
qed

text \<open>The whole step, on a console that works.\<close>

lemma boot_tables_result:
  assumes statics: "tb_gdt t = gdt_boot" "tb_idt t = idt_boot" and live: "tx_live (io_env io)"
  shows "\<exists>t' io'. boot_tables GDT IDT TSS STACK isr_addr t io = Some (t', io') \<and> io_env io' = io_env io \<and>
    tb_cs t' = KERNEL_CS \<and> tb_ds t' = KERNEL_DS \<and> tb_es t' = KERNEL_DS \<and> tb_fs t' = KERNEL_DS \<and> tb_gs t' = KERNEL_DS \<and>
    tb_ss t' = KERNEL_DS \<and> tb_tr t' = TSS_SEL \<and> tb_tr_base t' = unat TSS \<and> tb_tr_limit t' = tss_bytes - 1 \<and>
    tss_rsp0 (tb_tss t') = STACK + 0x4000 \<and> take 5 (tb_gdt t') = take 5 gdt_boot \<and> ltr GDT TSS_SEL t' = None \<and>
    tb_idtr t' = \<lparr>ip_limit = of_nat (idt_size - 1), ip_base = IDT\<rparr> \<and> tb_idt t' = idt_init isr_addr idt_boot"
proof -
  have puts: "\<exists>io'. puts str io = Some io' \<and> io_env io' = io_env io" if "tx_live (io_env io)" for str io
    using prints_puts [OF that, of str] by (auto simp: prints_def sent_env)
  obtain io1 where 1: "puts ''GDT loaded\<newline>'' io = Some io1" "io_env io1 = io_env io" using puts live by blast
  obtain io2 where 2: "puts ''IDT loaded\<newline>'' io1 = Some io2" "io_env io2 = io_env io" using puts [of io1] live 1(2) by auto
  let ?io = "pic_disable (pic_remap 32 40 io2)"
  have env: "io_env ?io = io_env io" using 2(2) by (simp add: pic_disable_def pic_remap_def io_wait_def Let_def split_beta)
  obtain io3 where 3: "puts ''PIC remapped & disabled\<newline>'' ?io = Some io3" "io_env io3 = io_env io"
    using puts [of ?io] live env by auto
  obtain io4 where 4: "puts ''TSS loaded\<newline>'' io3 = Some io4" "io_env io4 = io_env io" using puts [of io3] live 3(2) by auto
  let ?g = "t\<lparr>tb_gdtr := \<lparr>gp_limit = 63, gp_base = GDT\<rparr>, tb_cs := 0x08, tb_ds := 0x10, tb_es := 0x10,
    tb_fs := 0x10, tb_gs := 0x10, tb_ss := 0x10\<rparr>"
  let ?t = "(idt_load IDT (?g\<lparr>tb_idt := idt_init isr_addr (tb_idt t)\<rparr>))\<lparr>tb_tss := tss_init STACK (tb_tss t),
    tb_gdt := install_tss gdt_boot TSS tss_size\<rparr>"
  obtain t' where l: "ltr GDT TSS_SEL ?t = Some t'" "tb_tr t' = TSS_SEL" "tb_tr_base t' = unat TSS" "tb_tr_limit t' = unat tss_size"
    "t' = ?t\<lparr>tb_tr := TSS_SEL, tb_tr_base := unat TSS, tb_tr_limit := unat tss_size, tb_gdt := tb_gdt t'\<rparr>"
    "take 5 (tb_gdt t') = take 5 gdt_boot" "ltr GDT TSS_SEL t' = None"
    by (rule ltr_installed [of ?t GDT gdt_boot TSS tss_size]) (simp_all add: idt_load_def)
  have "boot_tables GDT IDT TSS STACK isr_addr t io = Some (t', io4)"
    unfolding boot_tables_def gdt_init_loads [OF statics(1)]
    using 1(1) 2(1) 3(1) 4 l(1) statics by (simp add: tss_load_def idt_load_def)
  moreover have "tb_cs t' = 0x08" "tb_ds t' = 0x10" "tb_es t' = 0x10" "tb_fs t' = 0x10" "tb_gs t' = 0x10" "tb_ss t' = 0x10"
    "tb_tss t' = tss_init STACK (tb_tss t)" "tb_idt t' = idt_init isr_addr idt_boot"
    "tb_idtr t' = \<lparr>ip_limit = of_nat (idt_size - 1), ip_base = IDT\<rparr>"
    by (subst l(5), simp add: idt_load_def statics)+
  ultimately show ?thesis
    using l(2-4,6,7) 4(2) by (intro exI [of _ t'] exI [of _ io4])
      (simp add: KERNEL_CS_def KERNEL_DS_def tss_init_def sizes tss_bytes_def)
qed

section \<open>Properties\<close>

text \<open>
  C8: the boot sequence loads the processor's tables. From the statics the kernel is linked with and on a
  working console, no load is refused: code runs in the kernel code segment and every data register
  holds the kernel data segment, the task register has read back the address and size of the task state
  segment, whose ring 0 stack is the top of the kernel stack, and all 256 gates lie inside the limit of
  the interrupt table, with the stub of each vector below 48 and of 0x80 as its target. The user segments are
  still in the table; the task register cannot be loaded a second time.
\<close>

theorem boot_loads_tables:
  assumes statics: "tb_gdt t = gdt_boot" "tb_idt t = idt_boot" and live: "tx_live (io_env io)"
  shows "\<exists>t' io'. boot_tables GDT IDT TSS STACK isr_addr t io = Some (t', io') \<and>
    tb_cs t' = KERNEL_CS \<and> tb_ds t' = KERNEL_DS \<and> tb_es t' = KERNEL_DS \<and> tb_fs t' = KERNEL_DS \<and> tb_gs t' = KERNEL_DS \<and>
    tb_ss t' = KERNEL_DS \<and> tb_tr t' = TSS_SEL \<and> tb_tr_base t' = unat TSS \<and> tb_tr_limit t' = tss_bytes - 1 \<and>
    tss_rsp0 (tb_tss t') = STACK + 0x4000 \<and> take 5 (tb_gdt t') = take 5 gdt_boot \<and> ltr GDT TSS_SEL t' = None \<and>
    tb_idtr t' = \<lparr>ip_limit = of_nat (idt_size - 1), ip_base = IDT\<rparr> \<and>
    (\<forall>v<256. v * 16 + 15 \<le> unat (ip_limit (tb_idtr t')) \<and>
       (gate_present (id_entries (tb_idt t') ! v) \<longleftrightarrow> v < 48 \<or> v = 0x80) \<and>
       (v < 48 \<or> v = 0x80 \<longrightarrow> gate_offset (id_entries (tb_idt t') ! v) = unat (isr_addr v) \<and>
          ie_selector (id_entries (tb_idt t') ! v) = tb_cs t'))"
proof -
  have "length (id_entries idt_boot) = 256" "\<And>v. v < 256 \<Longrightarrow> id_entries idt_boot ! v = idt_entry_empty"
    by (simp_all add: idt_boot_def IDT_ENTRIES_def)
  then show ?thesis
    using boot_tables_result [OF assms, of GDT IDT TSS STACK isr_addr]
    by (force simp: KERNEL_CS_def sizes idt_init_entry gate_of_handler gate_offset_set_handler)
qed

theorem boot_loads_tables_witness:
  defines "t \<equiv> \<lparr>tb_gdt = gdt_boot, tb_tss = tss_new, tb_idt = idt_boot, tb_gdtr = \<lparr>gp_limit = 0, gp_base = 0\<rparr>,
    tb_idtr = \<lparr>ip_limit = 0, ip_base = 0\<rparr>, tb_cs = 0x28, tb_ds = 0x30, tb_es = 0x30, tb_fs = 0x30, tb_gs = 0x30, tb_ss = 0x30,
    tb_tr = 0, tb_tr_base = 0, tb_tr_limit = 0\<rparr>"
  shows "\<exists>t' io'. boot_tables 0x1000 0x2000 0x3000 0x4000 (\<lambda>i. of_nat (0x9000 + i)) t \<lparr>io_env = (\<lambda>_ _. 0x20), io_trace = []\<rparr> =
      Some (t', io') \<and> tb_cs t' = 0x08 \<and> tb_tr_base t' = 0x3000 \<and> tss_rsp0 (tb_tss t') = 0x8000"
proof -
  have "tx_live (io_env \<lparr>io_env = (\<lambda>_ _. 0x20), io_trace = []\<rparr>)" by (simp add: tx_live_def)
  moreover have "tb_gdt t = gdt_boot" "tb_idt t = idt_boot" by (simp_all add: t_def)
  ultimately show ?thesis
    using boot_loads_tables [of t "\<lparr>io_env = (\<lambda>_ _. 0x20), io_trace = []\<rparr>" "0x1000" "0x2000" "0x3000" "0x4000"
        "\<lambda>i. of_nat (0x9000 + i)"] by (force simp: KERNEL_CS_def)
qed

end
