(* ===== verification/Start.thy ===== *)
theory Start
  imports Kernel Boot Boot_Tables
begin

text \<open>
  \<open>_start\<close> of \<open>src/main.rs\<close> as two functions over the states of the components: \<open>start_processor\<close> up to
  the page allocator, with every early halt, and \<open>start_programs\<close> from the framebuffer and the ramdisk to
  the scheduler. What the boot loader answers is the record \<open>loader\<close>. The inner \<open>None\<close> of a result is
  \<open>hlt_loop\<close>. Between the two come the other processors (\<open>Smp\<close>) and the devices (\<open>Lapic\<close>, \<open>Pci\<close>,
  \<open>Ahci\<close>, \<open>Ext3\<close>), each in its own theory.
\<close>

section \<open>From the first instruction to the heap\<close>

record loader =
  ld_revision :: bool
  ld_framebuffers :: "fb_info list option"
  ld_hhdm :: "u64 option"
  ld_mmap :: "mmap_entry list option"
  ld_modules :: "(u8 list \<times> u8 list) list option"

text \<open>The console of the machine is the port state of its clock, \<open>ts_io\<close>.\<close>

record machine =
  mc_tables :: tables
  mc_cpu :: cpu
  mc_tsc :: tsc
  mc_mem :: mem

definition on_ports :: "(io \<Rightarrow> ('a \<times> io) option) \<Rightarrow> machine \<Rightarrow> ('a \<times> machine) option" where
  "on_ports f m = do { (r, io) \<leftarrow> f (ts_io (mc_tsc m)); Some (r, m\<lparr>mc_tsc := (mc_tsc m)\<lparr>ts_io := io\<rparr>\<rparr>) }"

text \<open>What the boot loader is asked for: framebuffer, offset of the direct map, memory map.\<close>

definition start_memory :: "loader \<Rightarrow> machine \<Rightarrow> ((framebuffer \<times> u64) option \<times> machine) option" where
  "start_memory l m =
     do { (init_fb, m) \<leftarrow> on_ports (boot_framebuffer (ld_framebuffers l)) m;
          case init_fb of None \<Rightarrow> Some (None, m) | Some fb \<Rightarrow> do {
          (hhdm_offset, m) \<leftarrow> on_ports (boot_hhdm (ld_hhdm l)) m;
          case hhdm_offset of None \<Rightarrow> Some (None, m) | Some hhdm \<Rightarrow> do {
          (h, m) \<leftarrow> on_ports (boot_memory hhdm (ld_mmap l) (mc_mem m)) m;
          case h of None \<Rightarrow> Some (None, m)
          | Some h \<Rightarrow> Some (Some (fb, hhdm), m\<lparr>mc_mem := h\<rparr>) } } }"

definition start_processor ::
  "u64 \<Rightarrow> u64 \<Rightarrow> u64 \<Rightarrow> u64 \<Rightarrow> (nat \<Rightarrow> u64) \<Rightarrow> loader \<Rightarrow> machine \<Rightarrow> ((framebuffer \<times> u64) option \<times> machine) option" where
  "start_processor GDT IDT TSS STACK isr_addr l m =
     do { (go, m) \<leftarrow> on_ports (boot_begin (ld_revision l)) m;
          case go of None \<Rightarrow> Some (None, m) | Some _ \<Rightarrow> do {
          (t, m) \<leftarrow> on_ports (boot_tables GDT IDT TSS STACK isr_addr (mc_tables m)) m;
          (d, m) \<leftarrow> on_ports (syscall_init (tb_idt t)) m;
          let m = m\<lparr>mc_tables := t\<lparr>tb_idt := d\<rparr>\<rparr>;
          (c, ts) \<leftarrow> boot_cpu (mc_cpu m) (mc_tsc m);
          start_memory l (m\<lparr>mc_cpu := c, mc_tsc := ts\<rparr>) } }"

text \<open>Where the code stops for want of an answer.\<close>

definition answered :: "loader \<Rightarrow> bool" where
  "answered l \<longleftrightarrow> ld_revision l \<and> (case ld_framebuffers l of Some (f # _) \<Rightarrow> True | _ \<Rightarrow> False) \<and>
     ld_hhdm l \<noteq> None \<and> ld_mmap l \<noteq> None"

text \<open>The largest usable range, through the direct map, does not wrap around and does not start at zero.\<close>

definition usable_memory :: "loader \<Rightarrow> bool" where
  "usable_memory l \<longleftrightarrow> (\<forall>hhdm es. ld_hhdm l = Some hhdm \<longrightarrow> ld_mmap l = Some es \<longrightarrow>
     (case best_region es (0, 0) of (base, len) \<Rightarrow>
        base + hhdm \<noteq> 0 \<and> 0 < len \<and> unat (hhdm + base) + unat len < 2 ^ 64))"

section \<open>From the framebuffer to the scheduler\<close>

text \<open>
  \<open>modules\<close> is what the boot loader loaded beside the kernel; the last argument holds the
  static buffers, the page tables, the scheduler, the heap and the console.
\<close>

definition start_programs ::
  "u64 \<Rightarrow> u64 \<Rightarrow> u64 \<Rightarrow> u64 \<Rightarrow> u64 \<Rightarrow> u64 \<Rightarrow> (u8 list \<times> u8 list) list option \<Rightarrow> framebuffer \<Rightarrow> screen \<Rightarrow> ram \<Rightarrow> idt \<Rightarrow>
    boot \<Rightarrow> (tar_fs option \<times> screen \<times> ram \<times> idt \<times> boot) option" where
  "start_programs cr3 hhdm BUFS TR API SHELL modules init_fb sc ram d b =
     (let ram = fb_clear init_fb 0x00 0x00 0x80 ram;
          sc = sc\<lparr>kernel_fb := Some init_fb\<rparr>
      in do { (fs, io) \<leftarrow> boot_ramdisk modules (bt_io b);
              case fs of None \<Rightarrow> Some (None, sc, ram, d, b\<lparr>bt_io := io\<rparr>)
              | Some f \<Rightarrow> do {
                  (sc, ram, io) \<leftarrow> boot_font f sc ram io;
                  (s, d, io) \<leftarrow> sched_init (bt_sched b) d io;
                  b \<leftarrow> boot_tasks cr3 hhdm BUFS TR API SHELL f (b\<lparr>bt_sched := s, bt_io := io\<rparr>);
                  Some (Some f, sc, ram, d, b) } })"

section \<open>Every step prints and goes on\<close>

text \<open>\<open>answers f P\<close>: on any port state whose device is \<open>e\<close>, \<open>f\<close> returns, with a result in \<open>P\<close> and the same device.\<close>

definition answers :: "(port_op list \<Rightarrow> u16 \<Rightarrow> u8) \<Rightarrow> (io \<Rightarrow> ('a \<times> io) option) \<Rightarrow> ('a \<Rightarrow> bool) \<Rightarrow> bool" where
  "answers e f P \<longleftrightarrow> (\<forall>io. io_env io = e \<longrightarrow> (\<exists>r io'. f io = Some (r, io') \<and> io_env io' = e \<and> P r))"

lemma answersE:
  assumes "answers e f P" "io_env io = e"
  obtains r io' where "f io = Some (r, io')" "io_env io' = e" "P r"
  using assms by (auto simp: answers_def)

lemma answersD:
  assumes "answers e f P" "io_env (ts_io (mc_tsc m)) = e"
  obtains r io where "on_ports f m = Some (r, m\<lparr>mc_tsc := (mc_tsc m)\<lparr>ts_io := io\<rparr>\<rparr>)" "io_env io = e" "P r"
  using assms by (fastforce simp: answers_def on_ports_def)

lemma puts_env:
  assumes "tx_live (io_env io)" obtains io' where "puts str io = Some io'" "io_env io' = io_env io"
  using prints_puts [OF assms, of str] by (auto simp: prints_def sent_env)

lemma console_env:
  assumes "tx_live (io_env io)" obtains io' where "console cs io = Some io'" "io_env io' = io_env io"
  using prints_console [OF assms, of cs] by (auto simp: prints_def sent_env)

lemma serial_init_env [simp]: "io_env (serial_init io) = io_env io"
  by (simp add: serial_init_def)

lemma begin_answers:
  assumes "tx_live e" shows "answers e (boot_begin ok) (\<lambda>r. r = (if ok then Some () else None))"
  unfolding answers_def
proof (intro allI impI)
  fix io :: io assume e: "io_env io = e"
  obtain io1 where 1: "puts ''avaria booting...\<newline>'' (serial_init io) = Some io1" "io_env io1 = e"
    using puts_env [of "serial_init io"] assms e by auto
  obtain io2 where 2: "puts ''FATAL: base revision not supported\<newline>'' io1 = Some io2" "io_env io2 = e"
    using puts_env [of io1] assms 1(2) by auto
  show "\<exists>r io'. boot_begin ok io = Some (r, io') \<and> io_env io' = e \<and> r = (if ok then Some () else None)"
    using 1 2 by (auto simp: boot_begin_def)
qed

lemma report_answers:
  assumes "tx_live e"
  shows "answers e (\<lambda>io. do { io \<leftarrow> console cs io; Some (r, io) }) (\<lambda>x. x = r)"
  unfolding answers_def
proof (intro allI impI)
  fix io :: io assume "io_env io = e"
  then obtain io' where "console cs io = Some io'" "io_env io' = e" using console_env [of io cs] assms by blast
  then show "\<exists>x io'. do { io \<leftarrow> console cs io; Some (r, io) } = Some (x, io') \<and> io_env io' = e \<and> x = r" by simp
qed

lemma framebuffer_answers:
  assumes "tx_live e"
  shows "answers e (boot_framebuffer fr) (\<lambda>r. r = (case fr of Some (f # fs) \<Rightarrow> Some (framebuffer_new (fi_addr f)
      (unat (fi_width f)) (unat (fi_height f)) (unat (fi_pitch f)) (unat (fi_bpp f) div 8)) | _ \<Rightarrow> None))"
proof (cases fr)
  case (Some fs)
  then show ?thesis
    unfolding boot_framebuffer_def [abs_def]
    by (cases fs) (simp_all only: option.case list.case report_answers [OF assms])
qed (simp only: boot_framebuffer_def [abs_def] option.case report_answers [OF assms])

lemma hhdm_answers:
  assumes "tx_live e" shows "answers e (boot_hhdm hr) (\<lambda>r. r = hr)"
  unfolding boot_hhdm_def [abs_def] by (cases hr) (simp_all only: option.case report_answers [OF assms])

lemma memory_answers:
  assumes "tx_live e" shows "answers e (boot_memory hhdm mr h) (\<lambda>r. r = map_option (mem_init h hhdm) mr)"
  unfolding boot_memory_def [abs_def] Let_def
  by (cases mr) (simp_all only: option.case option.map report_answers [OF assms])

lemma syscall_answers:
  assumes "tx_live e"
  shows "answers e (syscall_init d) (\<lambda>r. r = set_gate_dpl 0x80 3 (register_ctx_handler 0x80 Syscall_dispatch d))"
  unfolding answers_def
proof (intro allI impI)
  fix io :: io assume e: "io_env io = e"
  obtain io1 where "puts ''syscall: int 0x80 registered (DPL=3)\<newline>'' io = Some io1" "io_env io1 = e"
    using puts_env [of io] assms e by auto
  then show "\<exists>r io'. syscall_init d io = Some (r, io') \<and> io_env io' = e \<and>
      r = set_gate_dpl 0x80 3 (register_ctx_handler 0x80 Syscall_dispatch d)"
    by (simp add: syscall_init_def Let_def)
qed

text \<open>The processor features are set up; with a clock, it has been measured.\<close>

lemma features_sse_init [simp]: "has_tsc (sse_init c) = has_tsc c"
  by (simp add: sse_init_def has_tsc_def cpuid_def Let_def)

lemma boot_cpu_returns:
  assumes "tx_live (io_env (ts_io t))" "has_tsc c \<longrightarrow> pit_live (io_env (ts_io t)) pit_count_10ms"
  obtains t' where "boot_cpu c t = Some (sse_init c, t')" "io_env (ts_io t') = io_env (ts_io t)" "ts_stamps t' = ts_stamps t"
    "freq_khz t' = (if has_tsc c then (ts_stamps t (ts_reads t + 1) - ts_stamps t (ts_reads t)) div 10 else freq_khz t)"
proof -
  have say: "\<exists>io. say_tsc cs u = Some (u\<lparr>ts_io := io\<rparr>) \<and> io_env io = io_env (ts_io u)" if "tx_live (io_env (ts_io u))" for cs u
    by (rule console_env [OF that, of cs]) (auto simp: say_tsc_def simp del: console.simps)
  obtain io1 where 1: "say_tsc (sse_report (sse_init c)) t = Some (t\<lparr>ts_io := io1\<rparr>)" "io_env io1 = io_env (ts_io t)"
    using say assms(1) by blast
  have "\<exists>u. (if has_tsc c then do { t \<leftarrow> tsc_calibrate (t\<lparr>ts_io := io1\<rparr>); say_tsc (tsc_report (sse_init c) t) t }
        else Some (t\<lparr>ts_io := io1\<rparr>)) = Some u \<and>
      io_env (ts_io u) = io_env (ts_io t) \<and> ts_stamps u = ts_stamps t \<and>
      freq_khz u = (if has_tsc c then (ts_stamps t (ts_reads t + 1) - ts_stamps t (ts_reads t)) div 10 else freq_khz t)"
  proof (cases "has_tsc c")
    case True
    then obtain u where u: "tsc_calibrate (t\<lparr>ts_io := io1\<rparr>) = Some u" "io_env (ts_io u) = io_env (ts_io t)" "ts_stamps u = ts_stamps t"
      "freq_khz u = (ts_stamps t (ts_reads t + 1) - ts_stamps t (ts_reads t)) div 10"
      using calibrate_returns [of "t\<lparr>ts_io := io1\<rparr>"] assms(2) 1(2) by auto
    then obtain io2 where "say_tsc (tsc_report (sse_init c) u) u = Some (u\<lparr>ts_io := io2\<rparr>)" "io_env io2 = io_env (ts_io u)"
      using say [of u] assms(1) by force
    then show ?thesis using True u by (simp add: freq_khz_def)
  qed (use 1 in \<open>simp add: freq_khz_def\<close>)
  then obtain u where u: "(if has_tsc c then do { t \<leftarrow> tsc_calibrate (t\<lparr>ts_io := io1\<rparr>); say_tsc (tsc_report (sse_init c) t) t }
        else Some (t\<lparr>ts_io := io1\<rparr>)) = Some u"
      "io_env (ts_io u) = io_env (ts_io t)" "ts_stamps u = ts_stamps t"
      "freq_khz u = (if has_tsc c then (ts_stamps t (ts_reads t + 1) - ts_stamps t (ts_reads t)) div 10 else freq_khz t)" by blast
  obtain io3 where 3: "say_tsc ([Str ''CPU: ''] @ (if utf8_valid (cpu_vendor (sse_init c)) then [Raw (cpu_vendor (sse_init c))] else [])
      @ [Str ''\<newline>'']) u = Some (u\<lparr>ts_io := io3\<rparr>)" "io_env io3 = io_env (ts_io u)"
    using say [of u] assms(1) unfolding u(2) by blast
  show thesis
    using that [of "u\<lparr>ts_io := io3\<rparr>"] 1(1) u 3 by (simp add: boot_cpu_def freq_khz_def Let_def)
qed

lemma mem_init_usable:
  assumes "usable_memory l" "ld_hhdm l = Some hhdm" "ld_mmap l = Some es"
  shows "mem_inv (mem_init mem_boot hhdm es)" "m_hhdm (mem_init mem_boot hhdm es) = hhdm"
proof -
  obtain base len where b: "best_region es (0, 0) = (base, len)" by fastforce
  then show "mem_inv (mem_init mem_boot hhdm es)" using assms by (intro mem_inv_init [OF b]) (auto simp: usable_memory_def)
  show "m_hhdm (mem_init mem_boot hhdm es) = hhdm" using b by (simp add: mem_init_def Let_def)
qed

text \<open>The answers of the boot loader decide; the rest of the machine stays.\<close>

lemma start_memory_returns:
  assumes live: "tx_live (io_env (ts_io (mc_tsc m)))" and memory: "usable_memory l" "mc_mem m = mem_boot"
  shows "\<exists>r m'. start_memory l m = Some (r, m') \<and> mc_tables m' = mc_tables m \<and> mc_cpu m' = mc_cpu m \<and>
    freq_khz (mc_tsc m') = freq_khz (mc_tsc m) \<and> (ld_revision l \<longrightarrow> (r \<noteq> None \<longleftrightarrow> answered l)) \<and>
    (\<forall>fb hhdm. r = Some (fb, hhdm) \<longrightarrow> ld_hhdm l = Some hhdm \<and> (\<exists>f fs. ld_framebuffers l = Some (f # fs) \<and>
       fb_ptr fb = fi_addr f \<and> fb_width fb = unat (fi_width f) \<and> fb_height fb = unat (fi_height f)) \<and>
       mem_inv (mc_mem m') \<and> m_hhdm (mc_mem m') = hhdm)"
proof -
  let ?m = "\<lambda>io. m\<lparr>mc_tsc := (mc_tsc m)\<lparr>ts_io := io\<rparr>\<rparr>"
  obtain r1 io1 where 1: "on_ports (boot_framebuffer (ld_framebuffers l)) m = Some (r1, ?m io1)" "tx_live (io_env io1)"
    "r1 = (case ld_framebuffers l of Some (f # fs) \<Rightarrow> Some (framebuffer_new (fi_addr f)
       (unat (fi_width f)) (unat (fi_height f)) (unat (fi_pitch f)) (unat (fi_bpp f) div 8)) | _ \<Rightarrow> None)"
    by (rule answersD [OF framebuffer_answers [OF live, of "ld_framebuffers l"] refl]) (use live in simp)
  obtain r2 io2 where 2: "on_ports (boot_hhdm (ld_hhdm l)) (?m io1) = Some (r2, ?m io2)" "tx_live (io_env io2)" "r2 = ld_hhdm l"
    by (rule answersD [OF hhdm_answers [OF 1(2), of "ld_hhdm l"], of "?m io1"]) (use 1(2) in simp_all)
  obtain r3 io3 where 3: "on_ports (boot_memory (the r2) (ld_mmap l) (mc_mem m)) (?m io2) = Some (r3, ?m io3)"
    "r3 = map_option (mem_init (mc_mem m) (the r2)) (ld_mmap l)"
    by (rule answersD [OF memory_answers [OF 2(2), of "the r2" "ld_mmap l" "mc_mem m"], of "?m io2"]) simp_all
  show ?thesis
  proof (cases "\<exists>f fs. ld_framebuffers l = Some (f # fs)")
    case False
    then have "r1 = None" using 1(3) by (auto split: option.splits list.splits)
    then show ?thesis using False 1(1) by (auto simp: start_memory_def answered_def freq_khz_def split: option.splits list.splits)
  next
    case True
    then obtain f fs where f: "ld_framebuffers l = Some (f # fs)" by blast
    show ?thesis
    proof (cases "ld_hhdm l = None \<or> ld_mmap l = None")
      case True
      then show ?thesis using f 1 2 3 by (cases "ld_hhdm l") (auto simp: start_memory_def answered_def freq_khz_def)
    next
      case False
      then obtain hhdm es where a: "ld_hhdm l = Some hhdm" "ld_mmap l = Some es" by auto
      then show ?thesis using f 1 2 3 mem_init_usable [OF memory(1) a] memory(2)
        by (simp add: start_memory_def answered_def freq_khz_def framebuffer_new_def)
    qed
  qed
qed

text \<open>The three registers of the interrupt table after \<open>syscall_init\<close>: only 0x80 is open to user code.\<close>

lemma syscall_gates:
  assumes "v < 256" and "d = set_gate_dpl 0x80 3 (register_ctx_handler 0x80 Syscall_dispatch (idt_init isr_addr idt_boot))"
  shows "gate_present (id_entries d ! v) \<longleftrightarrow> v < 48 \<or> v = 0x80" "gate_dpl (id_entries d ! v) = 3 \<longleftrightarrow> v = 0x80"
    "v < 48 \<or> v = 0x80 \<Longrightarrow> gate_offset (id_entries d ! v) = unat (isr_addr v)"
    "id_ctx_handlers d ! v = (if v = 0x80 then Some Syscall_dispatch else None)"
proof -
  have dpl: "gate_dpl idt_entry_empty = 0" by (simp add: gate_dpl_def idt_entry_empty_def)
  have len: "length (id_entries idt_boot) = 256" by (simp add: idt_boot_def IDT_ENTRIES_def)
  have "length (id_entries (idt_init isr_addr idt_boot)) = 256"
    using len length_fold_update [of "\<lambda>i. set_handler (isr_addr i)" "[0..<48]" "id_entries idt_boot"]
    by (simp add: idt_init_def Let_def)
  moreover have "id_entries idt_boot ! v = idt_entry_empty" using assms(1) by (simp add: idt_boot_def IDT_ENTRIES_def)
  ultimately have "id_entries d ! v =
      (if v = 0x80 then set_dpl 3 (set_handler (isr_addr v) idt_entry_empty)
       else if v < 48 then set_handler (isr_addr v) idt_entry_empty else idt_entry_empty)"
    using assms idt_init_entry [OF len, of v isr_addr] idt_init_entry [OF len, of 128 isr_addr]
    by (simp add: register_ctx_handler_def set_gate_dpl_def IDT_ENTRIES_def nth_list_update idt_boot_def)
  then show "gate_present (id_entries d ! v) \<longleftrightarrow> v < 48 \<or> v = 0x80" "gate_dpl (id_entries d ! v) = 3 \<longleftrightarrow> v = 0x80"
    "v < 48 \<or> v = 0x80 \<Longrightarrow> gate_offset (id_entries d ! v) = unat (isr_addr v)"
    using dpl by (cases "v = 0x80"; cases "v < 48"; simp add: user_gate gate_of_handler gate_offset_set_handler)+
  show "id_ctx_handlers d ! v = (if v = 0x80 then Some Syscall_dispatch else None)"
    using assms by (simp add: register_ctx_handler_def set_gate_dpl_def IDT_ENTRIES_def nth_list_update idt_boot_def
        idt_init_def Let_def)
qed

section \<open>Properties of the start\<close>

text \<open>
  The start of the kernel, from its first instruction to the heap. From the statics the kernel is
  linked with, on a console and an interval timer that work, it never panics. It halts exactly when the boot loader does not support the
  protocol or leaves the framebuffer, the direct map or the memory map unanswered. Otherwise it goes on with the
  reported framebuffer and offset, with the heap invariant established and with the
  processor set up: code and data registers hold the kernel segments, the task register
  the task state segment whose ring 0 stack is the top of the kernel stack, every gate is inside the interrupt table, vectors 0 to 47 and
  0x80 are present with their own stubs, user code may invoke 0x80 only, which is the system call; the SSE state is
  enabled and the clock, if there is one, measured.
\<close>

theorem start_halts_or_brings_up:
  assumes statics: "tb_gdt (mc_tables m) = gdt_boot" "tb_idt (mc_tables m) = idt_boot" "mc_mem m = mem_boot"
    and live: "tx_live (io_env (ts_io (mc_tsc m)))" "pit_live (io_env (ts_io (mc_tsc m))) pit_count_10ms"
    and memory: "usable_memory l"
  shows "\<exists>r m'. start_processor GDT IDT TSS STACK isr_addr l m = Some (r, m') \<and> (r \<noteq> None \<longleftrightarrow> answered l) \<and>
    (\<forall>fb hhdm. r = Some (fb, hhdm) \<longrightarrow>
       ld_hhdm l = Some hhdm \<and> (\<exists>f fs. ld_framebuffers l = Some (f # fs) \<and> fb_ptr fb = fi_addr f \<and>
         fb_width fb = unat (fi_width f) \<and> fb_height fb = unat (fi_height f)) \<and>
       mem_inv (mc_mem m') \<and> m_hhdm (mc_mem m') = hhdm \<and>
       mc_cpu m' = sse_init (mc_cpu m) \<and>
       (has_tsc (mc_cpu m) \<longrightarrow> freq_khz (mc_tsc m') =
          (ts_stamps (mc_tsc m) (ts_reads (mc_tsc m) + 1) - ts_stamps (mc_tsc m) (ts_reads (mc_tsc m))) div 10) \<and>
       (let t = mc_tables m' in
         tb_cs t = KERNEL_CS \<and> tb_ds t = KERNEL_DS \<and> tb_es t = KERNEL_DS \<and> tb_fs t = KERNEL_DS \<and> tb_gs t = KERNEL_DS \<and>
         tb_ss t = KERNEL_DS \<and> tb_tr t = TSS_SEL \<and> tb_tr_base t = unat TSS \<and> tb_tr_limit t = tss_bytes - 1 \<and>
         tss_rsp0 (tb_tss t) = STACK + 0x4000 \<and> take 5 (tb_gdt t) = take 5 gdt_boot \<and> ip_base (tb_idtr t) = IDT \<and>
         (\<forall>v<256. v * 16 + 15 \<le> unat (ip_limit (tb_idtr t)) \<and>
            (gate_present (id_entries (tb_idt t) ! v) \<longleftrightarrow> v < 48 \<or> v = 0x80) \<and>
            (gate_dpl (id_entries (tb_idt t) ! v) = 3 \<longleftrightarrow> v = 0x80) \<and>
            (v < 48 \<or> v = 0x80 \<longrightarrow> gate_offset (id_entries (tb_idt t) ! v) = unat (isr_addr v)) \<and>
            id_ctx_handlers (tb_idt t) ! v = (if v = 0x80 then Some Syscall_dispatch else None))))"
proof -
  let ?e = "io_env (ts_io (mc_tsc m))" and ?m = "\<lambda>io. m\<lparr>mc_tsc := (mc_tsc m)\<lparr>ts_io := io\<rparr>\<rparr>"
  obtain go io1 where 1: "on_ports (boot_begin (ld_revision l)) m = Some (go, ?m io1)" "io_env io1 = ?e"
    "go = (if ld_revision l then Some () else None)"
    by (rule answersD [OF begin_answers [OF live(1)] refl])
  show ?thesis
  proof (cases "ld_revision l")
    case False
    then show ?thesis using 1 by (simp add: start_processor_def answered_def)
  next
    case True
    obtain t io2 where 2: "boot_tables GDT IDT TSS STACK isr_addr (mc_tables m) io1 = Some (t, io2)" "io_env io2 = ?e"
      "tb_cs t = KERNEL_CS" "tb_ds t = KERNEL_DS" "tb_es t = KERNEL_DS" "tb_fs t = KERNEL_DS" "tb_gs t = KERNEL_DS"
      "tb_ss t = KERNEL_DS" "tb_tr t = TSS_SEL" "tb_tr_base t = unat TSS" "tb_tr_limit t = tss_bytes - 1"
      "tss_rsp0 (tb_tss t) = STACK + 0x4000" "take 5 (tb_gdt t) = take 5 gdt_boot"
      "tb_idtr t = \<lparr>ip_limit = of_nat (idt_size - 1), ip_base = IDT\<rparr>" "tb_idt t = idt_init isr_addr idt_boot"
      using boot_tables_result [OF statics(1,2), of io1 GDT IDT TSS STACK isr_addr] live(1) 1(2) by auto
    define d where "d = set_gate_dpl 0x80 3 (register_ctx_handler 0x80 Syscall_dispatch (idt_init isr_addr idt_boot))"
    obtain r3 io3 where 3: "on_ports (syscall_init (tb_idt t)) (?m io2) = Some (r3, ?m io3)" "io_env io3 = ?e" "r3 = d"
      unfolding d_def 2(15) by (rule answersD [OF syscall_answers [OF live(1), of "idt_init isr_addr idt_boot"], of "?m io2"]) (simp_all add: 2(2))
    obtain ts where 4: "boot_cpu (mc_cpu m) ((mc_tsc m)\<lparr>ts_io := io3\<rparr>) = Some (sse_init (mc_cpu m), ts)" "io_env (ts_io ts) = ?e"
      "freq_khz ts = (if has_tsc (mc_cpu m) then (ts_stamps (mc_tsc m) (ts_reads (mc_tsc m) + 1) - ts_stamps (mc_tsc m) (ts_reads (mc_tsc m))) div 10
         else freq_khz (mc_tsc m))"
      by (rule boot_cpu_returns [of "(mc_tsc m)\<lparr>ts_io := io3\<rparr>" "mc_cpu m"]) (use live 3(2) in \<open>simp_all add: freq_khz_def\<close>)
    let ?m4 = "m\<lparr>mc_tables := t\<lparr>tb_idt := d\<rparr>, mc_cpu := sse_init (mc_cpu m), mc_tsc := ts\<rparr>"
    have tables: "on_ports (boot_tables GDT IDT TSS STACK isr_addr (mc_tables m)) (?m io1) = Some (t, ?m io2)"
      using 2(1) by (simp add: on_ports_def)
    have run: "start_processor GDT IDT TSS STACK isr_addr l m = start_memory l ?m4"
      using True 1 tables 3(1,3) 4(1) by (simp add: start_processor_def)
    have "tx_live (io_env (ts_io (mc_tsc ?m4)))" "mc_mem ?m4 = mem_boot" using live(1) 4(2) statics(3) by simp_all
    then obtain r m' where 5: "start_memory l ?m4 = Some (r, m')" "mc_tables m' = t\<lparr>tb_idt := d\<rparr>" "mc_cpu m' = sse_init (mc_cpu m)"
      "freq_khz (mc_tsc m') = freq_khz ts" "r \<noteq> None \<longleftrightarrow> answered l"
      "\<forall>fb hhdm. r = Some (fb, hhdm) \<longrightarrow> ld_hhdm l = Some hhdm \<and> (\<exists>f fs. ld_framebuffers l = Some (f # fs) \<and>
       fb_ptr fb = fi_addr f \<and> fb_width fb = unat (fi_width f) \<and> fb_height fb = unat (fi_height f)) \<and>
       mem_inv (mc_mem m') \<and> m_hhdm (mc_mem m') = hhdm"
      using start_memory_returns [of ?m4 l] memory True by auto
    then show ?thesis
      unfolding run 5(1) by (intro exI [of _ r] exI [of _ m'] conjI)
        (use 2(3-) 4(3) syscall_gates [OF _ d_def] in \<open>simp_all add: sizes\<close>)
  qed
qed

theorem start_halts_or_brings_up_witness:
  defines "io \<equiv> \<lparr>io_env = (\<lambda>_ p. if p = 0x40 then 0 else 0x20), io_trace = []\<rparr>"
    and "t \<equiv> \<lparr>tb_gdt = gdt_boot, tb_tss = tss_new, tb_idt = idt_boot, tb_gdtr = \<lparr>gp_limit = 0, gp_base = 0\<rparr>,
    tb_idtr = \<lparr>ip_limit = 0, ip_base = 0\<rparr>, tb_cs = 0x28, tb_ds = 0x30, tb_es = 0x30, tb_fs = 0x30, tb_gs = 0x30, tb_ss = 0x30,
    tb_tr = 0, tb_tr_base = 0, tb_tr_limit = 0\<rparr>"
    and "l \<equiv> \<lparr>ld_revision = True, ld_framebuffers = Some [\<lparr>fi_addr = 0xE0000000, fi_width = 1024, fi_height = 768,
      fi_pitch = 4096, fi_bpp = 32\<rparr>], ld_hhdm = Some 0x1000,
      ld_mmap = Some [\<lparr>me_usable = True, me_base = 0x100000, me_length = 0x10000\<rparr>], ld_modules = None\<rparr>"
  defines "m \<equiv> \<lparr>mc_tables = t, mc_cpu = \<lparr>cpu_id = (\<lambda>_. (0, 0, 0, 0x06000010)), cpu_msr = (\<lambda>_. 0), cpu_rflags = 0, cpu_cr0 = 0x11,
      cpu_cr4 = 0, cpu_xcr0 = 0\<rparr>,
    mc_tsc = \<lparr>ts_io = io, ts_stamps = (\<lambda>n. of_nat (30000000 * n)), ts_reads = 0, ts_freq = 0\<rparr>, mc_mem = mem_boot\<rparr>"
  shows "\<exists>fb m'. start_processor 0x1000 0x2000 0x3000 0x4000 (\<lambda>i. of_nat (0x9000 + i)) l m = Some (Some (fb, 0x1000), m') \<and>
    fb_width fb = 1024 \<and> mem_inv (mc_mem m') \<and> freq_khz (mc_tsc m') = 3000000 \<and> gate_dpl (id_entries (tb_idt (mc_tables m')) ! 0x80) = 3"
proof -
  have live: "tx_live (io_env (ts_io (mc_tsc m)))" by (simp add: m_def io_def tx_live_def COM1_def)
  have pit: "pit_live (io_env (ts_io (mc_tsc m))) pit_count_10ms"
    by (auto simp: m_def io_def pit_live_def pit_value_def Let_def intro!: exI [of _ 0])
  have statics: "tb_gdt (mc_tables m) = gdt_boot" "tb_idt (mc_tables m) = idt_boot" "mc_mem m = mem_boot"
    by (simp_all add: m_def t_def)
  have usable: "usable_memory l" by (simp add: usable_memory_def l_def)
  have "answered l" "has_tsc (mc_cpu m)" by (simp_all add: answered_def l_def has_tsc_def m_def cpuid_def bit_iff_odd)
  moreover have "(ts_stamps (mc_tsc m) (ts_reads (mc_tsc m) + 1) - ts_stamps (mc_tsc m) (ts_reads (mc_tsc m))) div 10 = 3000000"
    by (simp add: m_def)
  moreover have "ld_hhdm l = Some 0x1000" "ld_framebuffers l = Some (f # fs) \<Longrightarrow> fi_width f = 1024" for f fs
    by (auto simp: l_def)
  ultimately show ?thesis
    using start_halts_or_brings_up [OF statics live pit usable, of "0x1000" "0x2000" "0x3000" "0x4000" "\<lambda>i. of_nat (0x9000 + i)"]
    by (fastforce simp: Let_def)
qed

section \<open>To the scheduler\<close>

lemma fold_painted:
  assumes "\<And>x m. painted fb m (f x m)" shows "painted fb m (fold f xs m)"
proof (induction xs arbitrary: m)
  case (Cons x xs)
  show ?case using painted_trans [OF assms Cons.IH] by simp
qed simp

lemma fb_clear_painted: "fb_wf fb \<Longrightarrow> painted fb m (fb_clear fb r g b m)"
  unfolding fb_clear_def fill_rect_def
  by (intro fold_painted) (simp add: painted_def put_pixel_outside)

lemma ramdisk_answers:
  assumes "tx_live e" and "\<And>data. find_module ms (str_bytes ''initrd'') = Some data \<Longrightarrow> tar_parse data \<noteq> None"
  shows "answers e (boot_ramdisk ms) (\<lambda>r. r = Option.bind (find_module ms (str_bytes ''initrd'')) (\<lambda>data. the (tar_parse data)))"
proof (cases "find_module ms (str_bytes ''initrd'')")
  case None
  then show ?thesis
    unfolding boot_ramdisk_def [abs_def] by (simp only: option.case bind.bind_lzero report_answers [OF assms(1)])
next
  case (Some data)
  then obtain fs where "tar_parse data = Some fs" using assms(2) by blast
  then show ?thesis
    unfolding boot_ramdisk_def [abs_def] Some
    by (cases fs) (simp_all only: option.case bind.bind_lunit option.sel report_answers [OF assms(1)])
qed

text \<open>
  The end of the boot reaches the scheduler. Once the heap is up, with a ramdisk whose archive is not cut off and whose modules
  have consistent segment sizes, it never panics. It halts exactly when there is no ramdisk or its names are not
  text; otherwise the scheduler is switched on, with the invariants of the scheduler and the
  heap intact, the timer handler registered, a screen the shell can draw on, at most sixteen modules loaded, and
  every address translated as before. Nothing outside the framebuffer is drawn.
\<close>

theorem start_reaches_scheduler:
  assumes sched: "bt_sched b = sched_boot" and mem: "mem_inv (bt_mem b)" and live: "tx_live (io_env (bt_io b))"
    and bufs: "bt_idx b = 0" "length (bt_bufs b) = MAX_MODULES" "\<forall>buf\<in>set (bt_bufs b). length buf = MODULE_BUF_SIZE" "bufs_fit BUFS"
    and screen: "fb_wf init_fb" "kernel_font sc = None"
    and archive: "\<forall>data. find_module ms (str_bytes ''initrd'') = Some data \<longrightarrow> tar_parse data \<noteq> None"
    and images: "\<forall>data fs. find_module ms (str_bytes ''initrd'') = Some data \<longrightarrow> tar_parse data = Some (Some fs) \<longrightarrow>
      (\<forall>e\<in>set fs. is_module e \<longrightarrow> image_sane (te_data e))"
  shows "\<exists>r sc' ram' d' b'. start_programs cr3 hhdm BUFS TR API SHELL ms init_fb sc ram d b = Some (r, sc', ram', d', b') \<and>
    (r = None \<longleftrightarrow> (\<forall>data. find_module ms (str_bytes ''initrd'') = Some data \<longrightarrow> tar_parse data = Some None)) \<and>
    painted init_fb ram ram' \<and> screen_ok sc' init_fb \<and>
    (r \<noteq> None \<longrightarrow> sd_active (bt_sched b') \<and> sched_inv (bt_sched b') \<and> mem_inv (bt_mem b') \<and> bt_idx b' \<le> MAX_MODULES \<and>
       d' = register_ctx_handler TIMER_VECTOR Timer_tick d \<and>
       (\<forall>va. translate hhdm (page_base cr3) (bt_tables b') va = translate hhdm (page_base cr3) (bt_tables b) va))"
proof -
  let ?ram = "fb_clear init_fb 0x00 0x00 0x80 ram" and ?sc = "sc\<lparr>kernel_fb := Some init_fb\<rparr>"
  have sc: "screen_ok ?sc init_fb" using screen by (simp add: screen_ok_def)
  have ram: "painted init_fb ram ?ram" using fb_clear_painted [OF screen(1)] .
  have ramdisk: "answers (io_env (bt_io b)) (boot_ramdisk ms)
      (\<lambda>r. r = Option.bind (find_module ms (str_bytes ''initrd'')) (\<lambda>data. the (tar_parse data)))"
    by (rule ramdisk_answers [OF live]) (use archive in blast)
  obtain r io1 where 1: "boot_ramdisk ms (bt_io b) = Some (r, io1)" "tx_live (io_env io1)"
    "r = Option.bind (find_module ms (str_bytes ''initrd'')) (\<lambda>data. the (tar_parse data))"
    by (rule answersE [OF ramdisk refl]) (use live in simp)
  have halt: "r = None \<longleftrightarrow> (\<forall>data. find_module ms (str_bytes ''initrd'') = Some data \<longrightarrow> tar_parse data = Some None)"
    using 1(3) archive by (cases "find_module ms (str_bytes ''initrd'')") auto
  show ?thesis
  proof (cases r)
    case None
    then have "start_programs cr3 hhdm BUFS TR API SHELL ms init_fb sc ram d b = Some (None, ?sc, ?ram, d, b\<lparr>bt_io := io1\<rparr>)"
      using 1(1) by (simp add: start_programs_def)
    then show ?thesis using None halt sc ram by blast
  next
    case (Some f)
    then obtain data where data: "find_module ms (str_bytes ''initrd'') = Some data" "tar_parse data = Some (Some f)"
      using 1(3) archive by (cases "find_module ms (str_bytes ''initrd'')") auto
    obtain sc' ram' io2 where 2: "boot_font f ?sc ?ram io1 = Some (sc', ram', io2)" "screen_ok sc' init_fb" "painted init_fb ?ram ram'"
      "tx_live (io_env io2)" using boot_font_screen_ok [OF sc 1(2)] by blast
    obtain s io3 where 3: "sched_init sched_boot d io2 = Some (s, register_ctx_handler TIMER_VECTOR Timer_tick d, io3)" "sched_inv s"
      "io_env io3 = io_env io2" using sched_init_returns [OF 2(4)] by blast
    let ?b = "b\<lparr>bt_sched := s, bt_io := io3\<rparr>"
    have "boot_inv ?b" using 3(2,3) 2(4) mem bufs(1-3) by (simp add: boot_inv_def)
    then obtain b' where 4: "boot_tasks cr3 hhdm BUFS TR API SHELL f ?b = Some b'" "boot_inv b'"
      "boot_keeps hhdm (page_base cr3) ?b b'" "sd_active (bt_sched b')"
      using boot_tasks_returns [OF _ bufs(4) refl] images data by blast
    have "start_programs cr3 hhdm BUFS TR API SHELL ms init_fb sc ram d b =
        Some (Some f, sc', ram', register_ctx_handler TIMER_VECTOR Timer_tick d, b')"
      using 1(1) Some 2(1) 3(1) 4(1) sched by (simp add: start_programs_def)
    moreover have "painted init_fb ram ram'" using painted_trans [OF ram 2(3)] .
    moreover have "\<forall>va. translate hhdm (page_base cr3) (bt_tables b') va = translate hhdm (page_base cr3) (bt_tables b) va"
      using 4(3) by (simp add: boot_keeps_def)
    ultimately show ?thesis using Some halt 2(2) 4(2,4) by (auto simp: boot_inv_def)
  qed
qed

text \<open>A ramdisk with the module \<open>sample_elf\<close> in it.\<close>

theorem start_reaches_scheduler_witness:
  defines "fb \<equiv> framebuffer_new 0xE0000000 1024 768 4096 4"
    and "ms \<equiv> Some [(str_bytes ''initrd'', tar_bytes [(str_bytes ''boot/modules/a.ko'', sample_elf)])]"
    and "b \<equiv> sample_boot\<lparr>bt_sched := sched_boot\<rparr>"
  shows "\<exists>fs sc' ram' d' b'. start_programs 0x1000 0 0x200000 0x9000 0x8000 0x7000 ms fb \<lparr>kernel_fb = None, kernel_font = None\<rparr>
      (\<lambda>_. 0) idt_boot b = Some (Some fs, sc', ram', d', b') \<and> sd_active (bt_sched b') \<and> screen_ok sc' fb"
proof -
  define a where "a = tar_bytes [(str_bytes ''boot/modules/a.ko'', sample_elf)]"
  have find: "find_module ms (str_bytes ''initrd'') = Some a"
    unfolding ms_def find_module_map_of a_def by simp
  have "list_all file_ok [(str_bytes ''boot/modules/a.ko'', sample_elf)]"
    by (simp add: file_ok_def ends_with_slash_def str_bytes_def sample_elf_def)
  then have parse: "tar_parse a = Some (Some [file_entry (str_bytes ''boot/modules/a.ko'', sample_elf)])"
    using parse_tar_bytes [of "[(str_bytes ''boot/modules/a.ko'', sample_elf)]" "[]" "[]"]
    by (simp add: a_def tar_parse_def padding_def str_bytes_def sample_elf_def)
  have sane: "image_sane sample_elf" using sample_image(1) by (simp add: image_sane_def sample_header sample_table)
  have screen: "fb_wf fb" "kernel_font \<lparr>kernel_fb = None, kernel_font = None\<rparr> = None"
    by (simp_all add: fb_def framebuffer_new_def fb_wf_def)
  have fit: "bufs_fit 0x200000" by (simp add: bufs_fit_def MAX_MODULES_def MODULE_BUF_SIZE_def)
  have b: "bt_sched b = sched_boot" "mem_inv (bt_mem b)" "tx_live (io_env (bt_io b))" "bt_idx b = 0"
    "length (bt_bufs b) = MAX_MODULES" "\<forall>buf\<in>set (bt_bufs b). length buf = MODULE_BUF_SIZE"
    using sample_boot_inv by (simp_all add: b_def boot_inv_def) (simp add: sample_boot_def)
  have archive: "\<forall>data. find_module ms (str_bytes ''initrd'') = Some data \<longrightarrow> tar_parse data \<noteq> None"
    using find parse by simp
  have images: "\<forall>data fs. find_module ms (str_bytes ''initrd'') = Some data \<longrightarrow> tar_parse data = Some (Some fs) \<longrightarrow>
      (\<forall>e\<in>set fs. is_module e \<longrightarrow> image_sane (te_data e))"
    using find parse sane by (auto simp: file_entry_def)
  obtain r sc' ram' d' b' where run: "start_programs 0x1000 0 0x200000 0x9000 0x8000 0x7000 ms fb
      \<lparr>kernel_fb = None, kernel_font = None\<rparr> (\<lambda>_. 0) idt_boot b = Some (r, sc', ram', d', b')"
    and r: "r = None \<longleftrightarrow> (\<forall>data. find_module ms (str_bytes ''initrd'') = Some data \<longrightarrow> tar_parse data = Some None)"
    and ok: "screen_ok sc' fb" "r \<noteq> None \<Longrightarrow> sd_active (bt_sched b')"
    using start_reaches_scheduler [where ?cr3.0 = "0x1000" and hhdm = 0 and TR = "0x9000" and API = "0x8000" and SHELL = "0x7000" and
        ram = "\<lambda>_. 0" and d = idt_boot, OF b fit screen archive images] by blast
  have "r \<noteq> None" using r find parse by simp
  then obtain fs where "r = Some fs" by blast
  then show ?thesis using run ok by blast
qed

end
