(* ===== verification/Spec2Isabelle.thy ===== *)
theory Spec2Isabelle
  imports Kernel Ipc Initrd Elf Lapic Ring3 Ext3_Tree Memtest Init_User Devices_Up Start
begin

text \<open>
  Verification of the Avaria kernel (Rust, x86-64, booted by Limine). Paths below are relative to the
  kernel's sources, \<open>src/kern\<close> unless they start with \<open>src\<close>.

  \<^bold>\<open>How the program is put together.\<close> \<open>_start\<close> of \<open>src/main.rs\<close> brings the machine up in order:
  serial console, segments and interrupt table, interrupt controllers, the page allocator over the
  largest usable range of the boot memory map, the local APIC and its timer, the keyboard, the PCI bus,
  the AHCI disk and the ext3 volume on it, the initial ramdisk, the font; then it loads every kernel module of
  the ramdisk as a task and starts the scheduler. From there the machine runs on interrupts: the timer
  switches tasks, the keyboard fills a ring buffer that the shell task reads, \<open>int 0x80\<close> is the system
  call. Components meet in three places: the heap (\<open>kmalloc\<close>, \<open>kmalloc_aligned\<close>, \<open>alloc_pages\<close>),
  the interrupt dispatcher, and the byte and sector reads between \<open>ext3\<close> and \<open>ahci\<close>.

  \<^bold>\<open>Conventions\<close> (\<open>Prelude\<close>). Registers, on-disk fields and masks are words of their width. A
  \<open>usize\<close> is a natural number whose arithmetic goes through \<open>usz\<close>, \<open>shl64\<close> and \<open>shr64\<close>, which
  wrap as the release build does. \<open>None\<close> at the outside is a call that does not return: a panic (the
  profile aborts) or a loop without end. Statics are fields of the state that is passed along.
  Hardware is a parameter: what a port or a device register reads is an arbitrary function of everything
  done to the devices before (\<open>Ports\<close>, \<open>Devices\<close>), and so is what a bus master writes to memory.

  \<^bold>\<open>Memory.\<close> \<open>Buddy\<close> (\<open>mm/buddy.rs\<close>): the bitmap allocator; blocks lie in the managed region, a
  fresh allocator hands out each page once, which blocks of another order overlap those pages, and how a free
  releases a page that is in use.
  \<open>Slab\<close> (\<open>mm/slab.rs\<close>): pages as sets of occupied slots, caches as lists of pages; allocation takes
  the least free slot, the exact effect of allocation and free. \<open>Mem\<close> (\<open>mem.rs\<close>): \<open>init\<close>,
  \<open>kmalloc\<close>, \<open>kfree\<close> and the page interface over both; every entry point returns and keeps the heap
  invariant whatever its arguments, and pointers lie in the region. \<open>Paging\<close> and \<open>Mmio_Map\<close> (the page
  table walks of \<open>mem.rs\<close> and \<open>drv/ring3\<close>): \<open>walk\<close> is the processor's translation, \<open>grants\<close> the
  rights along it; the kernel's walks are compared with them, and \<open>map_mmio\<close> keeps all existing
  translations while it adds tables.

  \<^bold>\<open>Processor and interrupts.\<close> \<open>Ports\<close> (\<open>serial.rs\<close>, ports of \<open>arch/x86_64/cpu.rs\<close>): the console
  prints numbers that read back. \<open>Pic\<close> (\<open>pic.rs\<close>, \<open>pit.rs\<close>), \<open>Lapic\<close> (\<open>lapic.rs\<close>): the programming
  sequences. \<open>Descriptors\<close> (\<open>gdt.rs\<close>, \<open>tss.rs\<close>), \<open>Interrupts\<close> (\<open>idt.rs\<close>): descriptors decode to
  what was encoded, entering and leaving an interrupt restores every register. \<open>Ps2\<close> (\<open>drv/ps2\<close>) with
  \<open>Ring\<close>: scan codes to characters, the buffer is a bounded queue. \<open>Sched\<close> (\<open>sched.rs\<close>): one running
  task, round robin within sixteen ticks, preempted tasks resume unchanged but for their
  selectors. \<open>Kernel\<close>: the system calls
  (\<open>kxvm/syscall.rs\<close>), the boot registrations and the dispatch of any sequence of interrupts over the
  whole interrupt-driven state. \<open>Ring3\<close> (\<open>drv/ring3\<close>): entering user mode. \<open>Ipc\<close> (\<open>arch/x86_64/ipc.rs\<close>):
  channels are queues, the spin lock excludes under every interleaving of its steps (an \<open>inductive\<close>
  step relation).
  \<open>Cpu\<close> (the rest of \<open>cpu.rs\<close>, \<open>sse.rs\<close>, \<open>tsc.rs\<close>): model-specific registers, feature bits, the
  clock and its conversions, which wrap. \<open>Smp\<close> (\<open>smp.rs\<close>): starting the other processors, as an
  \<open>inductive\<close> step relation on the shared atomics. \<open>Boot_Tables\<close>: \<open>lgdt\<close>, \<open>lidt\<close>, \<open>ltr\<close> and the
  far return of \<open>gdt::init\<close> on the table registers; after them every register names the table it should.

  \<^bold>\<open>Storage.\<close> \<open>Initrd\<close> (\<open>fs/initrd.rs\<close>, \<open>fs/vfs.rs\<close>): the tar parser inverts the archive format;
  directory iterators. \<open>Elf\<close> (\<open>crates/avaria-elf\<close>): header, segments, relocation; the result of a load
  on every input. \<open>Pci\<close> (\<open>drv/pci.rs\<close>): the bus scan and the class search. \<open>Ahci\<close> (\<open>drv/disk/ahci.rs\<close>):
  port set-up, command construction, polling; a read reports success only after the device has.
  \<open>Ext3\<close> (\<open>fs/ext3\<close>): the model of the ext3 reader; \<open>Ext3_Safe\<close>: on any disk contents behind a
  superblock without zero sizes it returns, and lookup and listing agree; \<open>Ext3_Tree\<close>: on a disk that serves its reads the block of a file is the one
  the reference pointer tree names.

  \<^bold>\<open>Screen, programs and boot.\<close> \<open>Gfx\<close> (\<open>gfx/vesa.rs\<close>, \<open>gfx/psf.rs\<close>): pixels, fonts and text; no
  drawing leaves the framebuffer. \<open>Shell\<close> (the shell task of \<open>src/main.rs\<close>): the line editor, which
  refines an append and drop on a list. \<open>Api\<close> (\<open>AVARIA_API\<close> of \<open>src/main.rs\<close> and
  \<open>crates/avaria-api\<close>): the nine functions a module may call and the crate's wrappers around them.
  \<open>Memtest\<close> (\<open>src/modules/memtest\<close>) is the benchmark module over any kernel interface,
  \<open>Init_User\<close> (\<open>src/modules/init\<close>) the user program, run on the system calls of \<open>Kernel\<close>.
  \<open>Boot\<close> (\<open>src/main.rs\<close>): what \<open>_start\<close> asks of the boot loader and reports, finding and loading the
  modules, starting the shell and the scheduler, the panic message. A loaded module is a task that starts
  at its relocated entry point, and the boot ends with the scheduler on. \<open>Start\<close> and \<open>Devices_Up\<close> put
  \<open>_start\<close> together: \<open>start_processor\<close> up to the heap, which halts exactly where the boot loader left a
  question unanswered, \<open>start_devices\<close>, which ends whatever the devices answer, and \<open>start_programs\<close>,
  which reaches the scheduler.

  \<^bold>\<open>Interfaces.\<close> The locales and their interpretations: \<open>region_allocator\<close> and \<open>event_system\<close>
  (\<open>Contracts\<close>; heap, interrupts, channels, keyboard), the bounded queue of \<open>Ring\<close> (keyboard and
  channels), \<open>file_system\<close> (\<open>Initrd\<close>, the kernel's \<open>FileSystem\<close> trait), \<open>disk_reader\<close> and its
  extension \<open>good_disk\<close> (\<open>Ext3_Safe\<close>, \<open>Ext3_Tree\<close>; the AHCI driver under any device, and under one that
  serves), \<open>kernel_api\<close> (\<open>Api\<close>; what a module relies on, the kernel's table of functions).

  \<^bold>\<open>Fuel and bounds.\<close> Polling loops have the code's own bounds (10^6 and 10^7 polls). Loops without a
  bound are \<open>partial_function (option)\<close>, and that they end is proved: \<open>order_for\<close>, the tar parser, the
  walks over directory data, the wait loops of the console and of the interrupt controllers. Directory data
  is assumed below \<open>2 ^ 63\<close> bytes, ext3 blocks at most 4096 bytes where the pointer tree is exact.

  \<^bold>\<open>Not modelled.\<close> \<open>hlt\<close>, \<open>pause\<close> and the loops around them do nothing to the state: a run ends
  where one is reached. The 16-bit ports and \<open>rdtscp\<close> have no caller. The requests that Limine
  answers are parameters (a third-party crate), as are the addresses the linker chooses. The three functions
  of \<open>Start\<close> and \<open>Devices_Up\<close> are not joined into one, because between the first two the other processors run in
  any interleaving (\<open>Smp\<close>), and because interrupts arrive from the second on; what any sequence of them does
  is \<open>Kernel\<close>. \<open>LoadedElf::call\<close> and \<open>jump\<close> transfer control to
  code that is not in the repository. \<open>usb/ehci.rs\<close> is empty, and the remaining files (\<open>mod.rs\<close>, the
  \<open>lib.rs\<close> of \<open>avaria-elf\<close>) only declare modules.
\<close>

end
